(* ===== verification/Prelude.thy ===== *)
theory Prelude
  imports Main "HOL-Library.Word"
begin

text \<open>
  Shared vocabulary of the development: machine integers, the error values of the
  Rust code, sequential fallible programs over an explicit state with their weakest
  preconditions, Rust's checked arithmetic, and the big- and little-endian byte codecs.
\<close>

section \<open>Machine integers and errors\<close>

type_synonym u8 = "8 word"
type_synonym u16 = "16 word"
type_synonym u32 = "32 word"
type_synonym u64 = "64 word"
type_synonym bytes = "u8 list"

text \<open>
  An \<open>anyhow\<close> error, a panic (\<open>assert!\<close>, \<open>unwrap\<close>, an \<open>expect\<close> on checked arithmetic) and
  a failed system call are distinguished; the string is the message's leading words.
\<close>

datatype err = Bail string | Panic string | IoError

type_synonym 'a res = "err + 'a"

definition is_ok :: "'a res \<Rightarrow> bool" where
  "is_ok r = (case r of Inl _ \<Rightarrow> False | Inr _ \<Rightarrow> True)"

definition map_res :: "('a \<Rightarrow> 'b) \<Rightarrow> 'a res \<Rightarrow> 'b res" where
  "map_res f r = (case r of Inl e \<Rightarrow> Inl e | Inr x \<Rightarrow> Inr (f x))"

definition bind_res :: "'a res \<Rightarrow> ('a \<Rightarrow> 'b res) \<Rightarrow> 'b res" where
  "bind_res r f = (case r of Inl e \<Rightarrow> Inl e | Inr x \<Rightarrow> f x)"

lemma is_ok_simps [simp]: "is_ok (Inr x)" "\<not> is_ok (Inl e)"
  by (simp_all add: is_ok_def)

lemma map_res_Inr: "map_res f r = Inr y \<longleftrightarrow> (\<exists>x. r = Inr x \<and> y = f x)"
  by (auto simp: map_res_def split: sum.splits)

lemma bind_res_Inr: "bind_res r f = Inr y \<longleftrightarrow> (\<exists>x. r = Inr x \<and> f x = Inr y)"
  by (auto simp: bind_res_def split: sum.splits)

lemma res_simps [simp]:
  "map_res f (Inr x) = Inr (f x)" "map_res f (Inl e) = Inl e"
  "bind_res (Inr x) g = g x" "bind_res (Inl e) g = Inl e"
  by (simp_all add: map_res_def bind_res_def)

section \<open>Sequential fallible programs\<close>

text \<open>
  A Rust function on \<open>&mut self\<close> that returns a \<open>Result\<close> is a function from the
  state to the outcome and the state it leaves behind. The state survives an error: a
  failing \<open>?\<close> returns early and keeps the mutations made before it.
\<close>

type_synonym ('s, 'a) prog = "'s \<Rightarrow> 'a res \<times> 's"

definition retE :: "'a \<Rightarrow> ('s, 'a) prog" where
  "retE x = (\<lambda>s. (Inr x, s))"

definition failE :: "err \<Rightarrow> ('s, 'a) prog" where
  "failE e = (\<lambda>s. (Inl e, s))"

definition bindE :: "('s, 'a) prog \<Rightarrow> ('a \<Rightarrow> ('s, 'b) prog) \<Rightarrow> ('s, 'b) prog" where
  "bindE m f = (\<lambda>s. case m s of (Inl e, s') \<Rightarrow> (Inl e, s') | (Inr x, s') \<Rightarrow> f x s')"

definition thenE :: "('s, 'a) prog \<Rightarrow> ('s, 'b) prog \<Rightarrow> ('s, 'b) prog" where
  "thenE m k = bindE m (\<lambda>_. k)"

definition getE :: "('s \<Rightarrow> 'a) \<Rightarrow> ('s, 'a) prog" where
  "getE f = (\<lambda>s. (Inr (f s), s))"

definition modifyE :: "('s \<Rightarrow> 's) \<Rightarrow> ('s, unit) prog" where
  "modifyE f = (\<lambda>s. (Inr (), f s))"

definition guardE :: "bool \<Rightarrow> err \<Rightarrow> ('s, unit) prog" where
  "guardE c e = (if c then retE () else failE e)"

definition liftR :: "'a res \<Rightarrow> ('s, 'a) prog" where
  "liftR r = (\<lambda>s. (r, s))"

text \<open>Runs a program of one field of a larger state.\<close>

definition zoomE :: "('s \<Rightarrow> 't) \<Rightarrow> ('t \<Rightarrow> 's \<Rightarrow> 's) \<Rightarrow> ('t, 'a) prog \<Rightarrow> ('s, 'a) prog" where
  "zoomE g p m = (\<lambda>s. case m (g s) of (r, t) \<Rightarrow> (r, p t s))"

text \<open>\<open>for _ in 0..n\<close> pushing one result per round onto a vector.\<close>

primrec repeatE :: "nat \<Rightarrow> ('s, 'a) prog \<Rightarrow> ('s, 'a list) prog" where
  "repeatE 0 m = retE []"
| "repeatE (Suc n) m = bindE m (\<lambda>x. bindE (repeatE n m) (\<lambda>xs. retE (x # xs)))"

subsection \<open>Weakest preconditions\<close>

named_theorems wp_simps \<open>weakest precondition equations\<close>

text \<open>
  \<open>wp m Q E s\<close>: running \<open>m\<close> from \<open>s\<close> ends with a value and state satisfying
  \<open>Q\<close>, or with an error and state satisfying \<open>E\<close>.
\<close>

definition wp :: "('s, 'a) prog \<Rightarrow> ('a \<Rightarrow> 's \<Rightarrow> bool) \<Rightarrow> (err \<Rightarrow> 's \<Rightarrow> bool) \<Rightarrow> 's \<Rightarrow> bool" where
  "wp m Q E s = (case m s of (Inl e, s') \<Rightarrow> E e s' | (Inr x, s') \<Rightarrow> Q x s')"

lemma wp_retE [wp_simps]: "wp (retE x) Q E s = Q x s"
  by (simp add: wp_def retE_def)

lemma wp_failE [wp_simps]: "wp (failE e) Q E s = E e s"
  by (simp add: wp_def failE_def)

lemma wp_bindE [wp_simps]: "wp (bindE m f) Q E s = wp m (\<lambda>x. wp (f x) Q E) E s"
  by (auto simp: wp_def bindE_def split: prod.splits sum.splits)

lemma wp_thenE [wp_simps]: "wp (thenE m k) Q E s = wp m (\<lambda>_. wp k Q E) E s"
  by (simp add: thenE_def wp_bindE)

lemma wp_getE [wp_simps]: "wp (getE f) Q E s = Q (f s) s"
  by (simp add: wp_def getE_def)

lemma wp_modifyE [wp_simps]: "wp (modifyE f) Q E s = Q () (f s)"
  by (simp add: wp_def modifyE_def)

lemma wp_guardE [wp_simps]: "wp (guardE c e) Q E s = (if c then Q () s else E e s)"
  by (simp add: guardE_def wp_retE wp_failE)

lemma wp_liftR [wp_simps]:
  "wp (liftR r) Q E s = (case r of Inl e \<Rightarrow> E e s | Inr x \<Rightarrow> Q x s)"
  by (simp add: wp_def liftR_def split: sum.splits)

lemma wp_zoomE [wp_simps]:
  "wp (zoomE g p m) Q E s = wp m (\<lambda>x t. Q x (p t s)) (\<lambda>e t. E e (p t s)) (g s)"
  by (auto simp: wp_def zoomE_def split: prod.splits sum.splits)

lemma wp_if [wp_simps]: "wp (if c then m else k) Q E s = (if c then wp m Q E s else wp k Q E s)"
  by simp

lemma wp_let [wp_simps]: "wp (let x = v in f x) Q E s = (let x = v in wp (f x) Q E s)"
  by (simp add: Let_def)

lemma wp_case_option [wp_simps]:
  "wp (case x of None \<Rightarrow> m | Some y \<Rightarrow> f y) Q E s =
     (case x of None \<Rightarrow> wp m Q E s | Some y \<Rightarrow> wp (f y) Q E s)"
  by (simp split: option.splits)

lemma wp_case_prod [wp_simps]:
  "wp (case x of (a, b) \<Rightarrow> f a b) Q E s = (case x of (a, b) \<Rightarrow> wp (f a b) Q E s)"
  by (simp split: prod.splits)

lemma wp_mono:
  assumes "wp m Q E s"
    and "\<And>x s'. Q x s' \<Longrightarrow> Q' x s'"
    and "\<And>e s'. E e s' \<Longrightarrow> E' e s'"
  shows "wp m Q' E' s"
  using assms by (auto simp: wp_def split: prod.splits sum.splits)

lemma wp_conj:
  "wp m Q E s \<Longrightarrow> wp m Q' E' s \<Longrightarrow> wp m (\<lambda>x s'. Q x s' \<and> Q' x s') (\<lambda>e s'. E e s' \<and> E' e s') s"
  by (auto simp: wp_def split: prod.splits sum.splits)

lemma wp_runD:
  assumes "wp m Q E s" and "m s = (r, s')"
  shows "case r of Inl e \<Rightarrow> E e s' | Inr x \<Rightarrow> Q x s'"
  using assms by (simp add: wp_def split: sum.splits)

lemma wp_snd: "wp m (\<lambda>_. P) (\<lambda>_. P) s = P (snd (m s))"
  by (auto simp: wp_def split: prod.splits sum.splits)

lemma wp_sndD: "wp m (\<lambda>_. P) (\<lambda>_. P) s \<Longrightarrow> m s = (r, s') \<Longrightarrow> P s'"
  by (simp add: wp_snd)

lemma wp_runI:
  assumes "\<And>e s'. m s = (Inl e, s') \<Longrightarrow> E e s'" and "\<And>x s'. m s = (Inr x, s') \<Longrightarrow> Q x s'"
  shows "wp m Q E s"
  using assms by (auto simp: wp_def split: prod.splits sum.splits)

lemma wp_any: "(\<And>x s'. Q x s') \<Longrightarrow> (\<And>e s'. E e s') \<Longrightarrow> wp m Q E s"
  by (auto simp: wp_def split: prod.splits sum.splits)

text \<open>A program keeps a property of the state, whether it succeeds or fails.\<close>

definition keeps :: "('s \<Rightarrow> bool) \<Rightarrow> ('s, 'a) prog \<Rightarrow> bool" where
  "keeps P m \<longleftrightarrow> (\<forall>s. P s \<longrightarrow> wp m (\<lambda>_. P) (\<lambda>_. P) s)"

named_theorems keeps_intros \<open>composition rules for kept properties\<close>

lemma keepsI: "(\<And>s. P s \<Longrightarrow> wp m (\<lambda>_. P) (\<lambda>_. P) s) \<Longrightarrow> keeps P m"
  by (simp add: keeps_def)

lemma keepsD: "keeps P m \<Longrightarrow> P s \<Longrightarrow> wp m (\<lambda>_. P) (\<lambda>_. P) s"
  by (simp add: keeps_def)

lemma keeps_snd: "keeps P m \<Longrightarrow> P s \<Longrightarrow> P (snd (m s))"
  by (simp add: keeps_def wp_snd)

lemma keeps_basic [keeps_intros]:
  "keeps P (retE x)" "keeps P (failE e)" "keeps P (getE g)" "keeps P (guardE c e)" "keeps P (liftR r)"
  by (simp_all add: keeps_def wp_simps split: sum.splits)

lemma keeps_modifyE: "(\<And>s. P s \<Longrightarrow> P (f s)) \<Longrightarrow> keeps P (modifyE f)"
  by (simp add: keeps_def wp_simps)

lemma keeps_bindE [keeps_intros]:
  assumes "keeps P m" and "\<And>x. keeps P (f x)"
  shows "keeps P (bindE m f)"
proof (rule keepsI)
  fix s assume "P s"
  then have "wp m (\<lambda>_. P) (\<lambda>_. P) s" by (rule keepsD [OF assms(1)])
  then show "wp (bindE m f) (\<lambda>_. P) (\<lambda>_. P) s"
    unfolding wp_bindE by (rule wp_mono) (auto intro: keepsD [OF assms(2)])
qed

lemma keeps_thenE [keeps_intros]: "keeps P m \<Longrightarrow> keeps P k \<Longrightarrow> keeps P (thenE m k)"
  unfolding thenE_def by (rule keeps_bindE)

lemma keeps_cases [keeps_intros]:
  "(c \<Longrightarrow> keeps P m) \<Longrightarrow> (\<not> c \<Longrightarrow> keeps P k) \<Longrightarrow> keeps P (if c then m else k)"
  "(x = None \<Longrightarrow> keeps P m) \<Longrightarrow> (\<And>y. x = Some y \<Longrightarrow> keeps P (g y)) \<Longrightarrow>
     keeps P (case x of None \<Rightarrow> m | Some y \<Rightarrow> g y)"
  "(\<And>a b. z = (a, b) \<Longrightarrow> keeps P (h a b)) \<Longrightarrow> keeps P (case z of (a, b) \<Rightarrow> h a b)"
  "(\<And>v. keeps P (q v)) \<Longrightarrow> keeps P (let v = w in q v)"
  by (auto split: option.splits prod.splits)

text \<open>\<open>if let Err(e) = m { h(e) }\<close>.\<close>

definition catchE :: "('s, 'a) prog \<Rightarrow> (err \<Rightarrow> ('s, 'a) prog) \<Rightarrow> ('s, 'a) prog" where
  "catchE m h = (\<lambda>s. case m s of (Inl e, s') \<Rightarrow> h e s' | (Inr x, s') \<Rightarrow> (Inr x, s'))"

lemma wp_catchE [wp_simps]: "wp (catchE m h) Q E s = wp m Q (\<lambda>e. wp (h e) Q E) s"
  by (auto simp: wp_def catchE_def split: prod.splits sum.splits)

lemma keeps_catchE [keeps_intros]:
  assumes "keeps P m" and "\<And>e. keeps P (h e)"
  shows "keeps P (catchE m h)"
  unfolding keeps_def wp_catchE
  using assms by (auto intro: wp_mono [OF keepsD [OF assms(1)]] keepsD)

text \<open>\<open>for x in xs { f(x)? }\<close>.\<close>

primrec forE :: "'a list \<Rightarrow> ('a \<Rightarrow> ('s, unit) prog) \<Rightarrow> ('s, unit) prog" where
  "forE [] f = retE ()"
| "forE (x # xs) f = thenE (f x) (forE xs f)"

lemma wp_forE:
  assumes "\<And>x s. x \<in> set xs \<Longrightarrow> I s \<Longrightarrow> wp (f x) (\<lambda>_. I) E s" and "I s"
  shows "wp (forE xs f) (\<lambda>_. I) E s"
  using assms
proof (induction xs arbitrary: s)
  case (Cons x xs)
  have "wp (f x) (\<lambda>_. I) E s" using Cons.prems by simp
  then show ?case unfolding forE.simps wp_thenE
    by (rule wp_mono) (use Cons in simp_all)
qed (simp add: wp_simps)

lemma keeps_forE [keeps_intros]: "(\<And>x. x \<in> set xs \<Longrightarrow> keeps P (f x)) \<Longrightarrow> keeps P (forE xs f)"
  by (induction xs) (simp_all add: keeps_intros)

subsection \<open>Running a program\<close>

lemma run_retE [simp]: "retE x s = (Inr x, s)"
  by (simp add: retE_def)

lemma run_failE [simp]: "failE e s = (Inl e, s)"
  by (simp add: failE_def)

lemma run_getE [simp]: "getE f s = (Inr (f s), s)"
  by (simp add: getE_def)

lemma run_modifyE [simp]: "modifyE f s = (Inr (), f s)"
  by (simp add: modifyE_def)

lemma run_guardE [simp]: "guardE c e s = (if c then (Inr (), s) else (Inl e, s))"
  by (simp add: guardE_def)

lemma run_liftR [simp]: "liftR r s = (r, s)"
  by (simp add: liftR_def)

lemma bindE_ok [simp]: "m s = (Inr x, s') \<Longrightarrow> bindE m f s = f x s'"
  by (simp add: bindE_def)

lemma bindE_err [simp]: "m s = (Inl e, s') \<Longrightarrow> bindE m f s = (Inl e, s')"
  by (simp add: bindE_def)

lemma thenE_ok [simp]: "m s = (Inr x, s') \<Longrightarrow> thenE m k s = k s'"
  by (simp add: thenE_def)

lemma thenE_err [simp]: "m s = (Inl e, s') \<Longrightarrow> thenE m k s = (Inl e, s')"
  by (simp add: thenE_def)

lemma zoomE_run [simp]: "m (g s) = (r, t) \<Longrightarrow> zoomE g p m s = (r, p t s)"
  by (simp add: zoomE_def)

lemma bindE_InrE:
  assumes "bindE m f s = (Inr y, s'')"
  obtains x s' where "m s = (Inr x, s')" and "f x s' = (Inr y, s'')"
  using assms by (auto simp: bindE_def split: prod.splits sum.splits)

lemma thenE_InrE:
  assumes "thenE m k s = (Inr y, s'')"
  obtains x s' where "m s = (Inr x, s')" and "k s' = (Inr y, s'')"
  using assms by (auto simp: thenE_def elim!: bindE_InrE)

section \<open>Rust arithmetic\<close>

definition checked_add :: "'a::len word \<Rightarrow> 'a word \<Rightarrow> 'a word option" where
  "checked_add a b = (if unat a + unat b < 2 ^ LENGTH('a) then Some (a + b) else None)"

definition checked_sub :: "'a::len word \<Rightarrow> 'a word \<Rightarrow> 'a word option" where
  "checked_sub a b = (if b \<le> a then Some (a - b) else None)"

definition saturating_sub :: "'a::len word \<Rightarrow> 'a word \<Rightarrow> 'a word" where
  "saturating_sub a b = (if b \<le> a then a - b else 0)"

definition saturating_add :: "'a::len word \<Rightarrow> 'a word \<Rightarrow> 'a word" where
  "saturating_add a b = (if unat a + unat b < 2 ^ LENGTH('a) then a + b else - 1)"

lemma unat_bounds:
  "unat (w8 :: u8) < 2 ^ 8" "unat (w16 :: u16) < 2 ^ 16" "unat (w32 :: u32) < 2 ^ 32"
  "unat (w64 :: u64) < 2 ^ 64"
  using unsigned_less [of w8] unsigned_less [of w16] unsigned_less [of w32] unsigned_less [of w64]
  by simp_all

lemma checked_add_Some:
  "checked_add a b = Some c \<longleftrightarrow> unat a + unat b < 2 ^ LENGTH('a) \<and> c = a + b"
  for a b c :: "'a::len word"
  by (auto simp: checked_add_def)

lemma checked_add_unat:
  "checked_add a b = Some c \<Longrightarrow> unat c = unat a + unat b"
  for a b c :: "'a::len word"
  by (auto simp: checked_add_def unat_word_ariths split: if_splits)

lemma checked_add_ge: "checked_add a b = Some c \<Longrightarrow> a \<le> c"
  for a b c :: "'a::len word"
  using checked_add_unat [of a b c] by (simp add: word_le_nat_alt)

lemma checked_sub_unat: "checked_sub a b = Some c \<Longrightarrow> unat c = unat a - unat b"
  for a b c :: "'a::len word"
  by (auto simp: checked_sub_def unat_sub split: if_splits)

lemma saturating_add_unat:
  "unat (saturating_add a b) = min (unat a + unat b) (2 ^ LENGTH('a) - 1)"
  for a b :: "'a::len word"
  by (auto simp: saturating_add_def unat_word_ariths unsigned_minus_1_eq_mask mask_eq_exp_minus_1)

section \<open>Byte codecs\<close>

primrec le_of_nat :: "nat \<Rightarrow> nat \<Rightarrow> bytes" where
  "le_of_nat 0 x = []"
| "le_of_nat (Suc n) x = word_of_nat (x mod 256) # le_of_nat n (x div 256)"

primrec nat_of_le :: "bytes \<Rightarrow> nat" where
  "nat_of_le [] = 0"
| "nat_of_le (b # bs) = unat b + 256 * nat_of_le bs"

definition be_of_nat :: "nat \<Rightarrow> nat \<Rightarrow> bytes" where
  "be_of_nat n x = rev (le_of_nat n x)"

definition nat_of_be :: "bytes \<Rightarrow> nat" where
  "nat_of_be bs = nat_of_le (rev bs)"

lemma length_le_of_nat [simp]: "length (le_of_nat n x) = n"
  by (induction n arbitrary: x) auto

lemma length_be_of_nat [simp]: "length (be_of_nat n x) = n"
  by (simp add: be_of_nat_def)

lemma unat_byte_of_nat [simp]: "unat (word_of_nat (x mod 256) :: u8) = x mod 256"
  by (simp add: unat_of_nat)

lemma nat_of_le_of_nat [simp]: "nat_of_le (le_of_nat n x) = x mod 256 ^ n"
proof (induction n arbitrary: x)
  case 0
  then show ?case by simp
next
  case (Suc n)
  then show ?case
    by (simp add: mod_mult2_eq)
qed

lemma nat_of_be_of_nat [simp]: "nat_of_be (be_of_nat n x) = x mod 256 ^ n"
  by (simp add: nat_of_be_def be_of_nat_def)

lemma nat_of_le_bound: "nat_of_le bs < 256 ^ length bs"
proof (induction bs)
  case Nil
  then show ?case by simp
next
  case (Cons b bs)
  have "unat b < 256" using unsigned_less [of b] by simp
  then show ?case using Cons.IH by simp
qed

lemma le_of_nat_of_le: "le_of_nat (length bs) (nat_of_le bs) = bs"
proof (induction bs)
  case Nil
  then show ?case by simp
next
  case (Cons b bs)
  have "unat b < 256" using unsigned_less [of b] by simp
  then show ?case using Cons.IH by simp
qed

definition le_word :: "bytes \<Rightarrow> 'a::len word" where
  "le_word bs = word_of_nat (nat_of_le bs)"

definition word_le :: "nat \<Rightarrow> 'a::len word \<Rightarrow> bytes" where
  "word_le n w = le_of_nat n (unat w)"

definition be_word :: "bytes \<Rightarrow> 'a::len word" where
  "be_word bs = word_of_nat (nat_of_be bs)"

definition word_be :: "nat \<Rightarrow> 'a::len word \<Rightarrow> bytes" where
  "word_be n w = be_of_nat n (unat w)"

lemma length_word_le [simp]: "length (word_le n w) = n"
  by (simp add: word_le_def)

lemma length_word_be [simp]: "length (word_be n w) = n"
  by (simp add: word_be_def)

lemma word_fits: "LENGTH('a::len) \<le> 8 * n \<Longrightarrow> unat (w :: 'a word) mod 256 ^ n = unat w"
proof -
  assume "LENGTH('a) \<le> 8 * n"
  then have "(2 :: nat) ^ LENGTH('a) \<le> 2 ^ (8 * n)" by (simp add: power_increasing)
  moreover have "(2 :: nat) ^ (8 * n) = 256 ^ n" by (simp add: power_mult)
  moreover have "unat w < 2 ^ LENGTH('a)" by (rule unsigned_less)
  ultimately have "unat w < 256 ^ n" by linarith
  then show ?thesis by (rule mod_less)
qed

lemma le_word_word_le: "LENGTH('a::len) \<le> 8 * n \<Longrightarrow> le_word (word_le n w) = (w :: 'a word)"
  by (simp add: le_word_def word_le_def word_fits)

lemma be_word_word_be: "LENGTH('a::len) \<le> 8 * n \<Longrightarrow> be_word (word_be n w) = (w :: 'a word)"
  by (simp add: be_word_def word_be_def word_fits)

lemma le_codecs [simp]:
  "le_word (word_le 2 x2) = (x2 :: u16)"
  "le_word (word_le 4 x4) = (x4 :: u32)"
  "le_word (word_le 8 x8) = (x8 :: u64)"
  by (simp_all add: le_word_word_le)

lemma be_codecs [simp]:
  "be_word (word_be 1 x1) = (x1 :: u8)"
  "be_word (word_be 2 x2) = (x2 :: u16)"
  "be_word (word_be 4 x4) = (x4 :: u32)"
  "be_word (word_be 8 x8) = (x8 :: u64)"
  by (simp_all add: be_word_word_be)

lemma take_drop_append_eq [simp]:
  "length xs = n \<Longrightarrow> take n (xs @ ys) = xs"
  "length xs = n \<Longrightarrow> drop n (xs @ ys) = ys"
  by auto

end
