(* ===== verification/Lsn.thy ===== *)
theory Lsn
  imports Prelude
begin

unbundle bit_operations_syntax

text \<open>
  Log sequence numbers (\<open>libs/utils/src/lsn.rs\<close>): the arithmetic on segments, blocks
  and alignment, the textual form \<open>XXXXXXXX/XXXXXXXX\<close>, the checked addition, the atomic
  LSN cell and the record counter.
  Rust panics on a division by zero; the functions of a segment size are used here for
  sizes other than zero, and the components that call them check the size first.
\<close>

section \<open>Definitions\<close>

type_synonym lsn = u64

definition XLOG_BLCKSZ :: u64 where
  "XLOG_BLCKSZ = 8192"

definition LSN_MAX :: lsn where
  "LSN_MAX = - 1"

definition LSN_INVALID :: lsn where
  "LSN_INVALID = 0"

definition lsn_checked_sub :: "lsn \<Rightarrow> u64 \<Rightarrow> lsn option" where
  "lsn_checked_sub l other = checked_sub l other"

definition lsn_saturating_sub :: "lsn \<Rightarrow> u64 \<Rightarrow> lsn" where
  "lsn_saturating_sub l other = saturating_sub l other"

definition widening_sub :: "lsn \<Rightarrow> u64 \<Rightarrow> int" where
  "widening_sub l other = uint l - uint other"

definition segment_offset :: "lsn \<Rightarrow> u64 \<Rightarrow> u64" where
  "segment_offset l seg_sz = l mod seg_sz"

definition segment_lsn :: "lsn \<Rightarrow> u64 \<Rightarrow> lsn" where
  "segment_lsn l seg_sz = l - (l mod seg_sz)"

definition segment_number :: "lsn \<Rightarrow> u64 \<Rightarrow> u64" where
  "segment_number l seg_sz = l div seg_sz"

definition block_offset :: "lsn \<Rightarrow> u64" where
  "block_offset l = l mod XLOG_BLCKSZ"

definition page_lsn :: "lsn \<Rightarrow> lsn" where
  "page_lsn l = l - block_offset l"

definition page_offset_in_segment :: "lsn \<Rightarrow> u64 \<Rightarrow> u64" where
  "page_offset_in_segment l seg_sz = (l - block_offset l) - segment_lsn l seg_sz"

definition remaining_in_block :: "lsn \<Rightarrow> u64" where
  "remaining_in_block l = XLOG_BLCKSZ - (l mod XLOG_BLCKSZ)"

definition calc_padding :: "lsn \<Rightarrow> u64 \<Rightarrow> u64" where
  "calc_padding l sz = (sz - l) mod sz"

definition align :: "lsn \<Rightarrow> lsn" where
  "align l = (l + 7) AND (NOT 7)"

definition is_aligned :: "lsn \<Rightarrow> bool" where
  "is_aligned l = (l = align l)"

definition is_valid :: "lsn \<Rightarrow> bool" where
  "is_valid l = (l \<noteq> LSN_INVALID)"

text \<open>\<open>Add<u64>\<close> and \<open>AddAssign<u64>\<close>: \<open>checked_add(..).unwrap()\<close>.\<close>

definition lsn_add :: "lsn \<Rightarrow> u64 \<Rightarrow> lsn res" where
  "lsn_add l n = (case checked_add l n of Some r \<Rightarrow> Inr r | None \<Rightarrow> Inl (Panic ''add overflow''))"

subsection \<open>Textual form\<close>

datatype LsnParseError = LsnParseError

definition hex_digit :: "nat \<Rightarrow> char" where
  "hex_digit d = ''0123456789ABCDEF'' ! d"

text \<open>The Rust format directive \<open>X\<close>: upper case, no leading zero.\<close>

fun hex_upper :: "nat \<Rightarrow> string" where
  "hex_upper n = (if n < 16 then [hex_digit n] else hex_upper (n div 16) @ [hex_digit (n mod 16)])"

declare hex_upper.simps [simp del]

definition hex_value :: "char \<Rightarrow> nat option" where
  "hex_value c =
     (let x = of_char c :: nat in
      if 48 \<le> x \<and> x \<le> 57 then Some (x - 48)
      else if 65 \<le> x \<and> x \<le> 70 then Some (x - 55)
      else if 97 \<le> x \<and> x \<le> 102 then Some (x - 87)
      else None)"

fun parse_hex_digits :: "nat \<Rightarrow> string \<Rightarrow> nat option" where
  "parse_hex_digits acc [] = Some acc"
| "parse_hex_digits acc (c # cs) =
     (case hex_value c of None \<Rightarrow> None | Some d \<Rightarrow> parse_hex_digits (16 * acc + d) cs)"

text \<open>
  \<open>uN::from_str_radix(s, 16)\<close>: a non-empty digit string with an optional plus sign whose
  value fits in \<open>bits\<close> bits.
\<close>

definition from_str_radix_16 :: "nat \<Rightarrow> string \<Rightarrow> nat option" where
  "from_str_radix_16 bits s =
     (let digits = (case s of c # cs \<Rightarrow> if c = CHR ''+'' then cs else s | [] \<Rightarrow> [])
      in if digits = [] then None
         else case parse_hex_digits 0 digits of
                None \<Rightarrow> None
              | Some n \<Rightarrow> if n < 2 ^ bits then Some n else None)"

definition from_hex :: "string \<Rightarrow> LsnParseError + lsn" where
  "from_hex s = (case from_str_radix_16 64 s of
                   None \<Rightarrow> Inl LsnParseError | Some n \<Rightarrow> Inr (word_of_nat n))"

text \<open>\<open>trim\<close> on ASCII text; the white space Unicode adds is not modelled.\<close>

definition is_ascii_ws :: "char \<Rightarrow> bool" where
  "is_ascii_ws c = ((of_char c :: nat) \<in> {9, 10, 11, 12, 13, 32})"

definition str_trim :: "string \<Rightarrow> string" where
  "str_trim s = rev (dropWhile is_ascii_ws (rev (dropWhile is_ascii_ws s)))"

fun split_on :: "char \<Rightarrow> string \<Rightarrow> string list" where
  "split_on sep [] = [[]]"
| "split_on sep (c # cs) =
     (if c = sep then [] # split_on sep cs
      else case split_on sep cs of [] \<Rightarrow> [[c]] | p # ps \<Rightarrow> (c # p) # ps)"

definition lsn_from_str :: "string \<Rightarrow> LsnParseError + lsn" where
  "lsn_from_str s =
     (case split_on (CHR ''/'') (str_trim s) of
        [left, right] \<Rightarrow>
          (case from_str_radix_16 32 left of
             None \<Rightarrow> Inl LsnParseError
           | Some left_num \<Rightarrow>
               (case from_str_radix_16 32 right of
                  None \<Rightarrow> Inl LsnParseError
                | Some right_num \<Rightarrow>
                    Inr (push_bit 32 (word_of_nat left_num) OR word_of_nat right_num)))
      | _ \<Rightarrow> Inl LsnParseError)"

definition lsn_display :: "lsn \<Rightarrow> string" where
  "lsn_display l =
     hex_upper (unat (drop_bit 32 l)) @ ''/'' @ hex_upper (unat (l AND 0xffffffff))"

subsection \<open>Atomic cell and record counter\<close>

text \<open>
  The operations of \<open>AtomicLsn\<close>, each one atomic step on the shared cell. A
  \<open>fetch_add\<close> that overflows has already stored the wrapped value when it panics.
\<close>

definition atomic_load :: "(u64, lsn) prog" where
  "atomic_load = getE (\<lambda>v. v)"

definition atomic_store :: "lsn \<Rightarrow> (u64, unit) prog" where
  "atomic_store l = modifyE (\<lambda>_. l)"

definition atomic_fetch_add :: "u64 \<Rightarrow> (u64, lsn) prog" where
  "atomic_fetch_add val =
     bindE (getE (\<lambda>v. v)) (\<lambda>prev.
     thenE (modifyE (\<lambda>v. v + val))
     (thenE (guardE (checked_add prev val \<noteq> None) (Panic ''AtomicLsn overflow''))
     (retE prev)))"

definition atomic_fetch_max :: "lsn \<Rightarrow> (u64, lsn) prog" where
  "atomic_fetch_max l =
     bindE (getE (\<lambda>v. v)) (\<lambda>prev.
     thenE (modifyE (\<lambda>v. max v l)) (retE prev))"

record RecordLsn =
  rl_last :: lsn
  rl_prev :: lsn

definition cnt_advance :: "lsn \<Rightarrow> (RecordLsn, unit) prog" where
  "cnt_advance l =
     bindE (getE rl_last) (\<lambda>last.
     thenE (guardE (last \<le> l) (Panic ''cnt_advance''))
     (modifyE (\<lambda>r. r\<lparr>rl_last := l, rl_prev := last\<rparr>)))"

definition cnt_value :: "RecordLsn \<Rightarrow> lsn" where
  "cnt_value r = rl_last r"

section \<open>Segment and block arithmetic\<close>

lemma unat_segment_offset [simp]: "unat (segment_offset l sz) = unat l mod unat sz"
  by (simp add: segment_offset_def unat_mod)

lemma unat_segment_number [simp]: "unat (segment_number l sz) = unat l div unat sz"
  by (simp add: segment_number_def unat_div)

lemma unat_segment_lsn: "unat (segment_lsn l sz) = unat l - unat l mod unat sz"
proof -
  have "l mod sz \<le> l" by (simp add: word_le_nat_alt unat_mod)
  then show ?thesis by (simp add: segment_lsn_def unat_sub unat_mod)
qed

lemma unat_block_offset [simp]: "unat (block_offset l) = unat l mod 8192"
  by (simp add: block_offset_def XLOG_BLCKSZ_def unat_mod)

lemma unat_remaining_in_block: "unat (remaining_in_block l) = 8192 - unat l mod 8192"
proof -
  have "l mod 8192 \<le> 8192" by (simp add: word_le_nat_alt unat_mod)
  then show ?thesis by (simp add: remaining_in_block_def XLOG_BLCKSZ_def unat_sub unat_mod)
qed

lemma and_not_7: "x AND NOT 7 = x - take_bit 3 x" for x :: u64
proof -
  have "x AND NOT 7 = push_bit 3 (drop_bit 3 x)"
  proof (rule bit_word_eqI)
    fix n assume "n < LENGTH(64)"
    have "bit (7 :: u64) n \<longleftrightarrow> n < 3"
      using bit_mask_iff [of 3 n, where 'a = u64] \<open>n < LENGTH(64)\<close>
      by (simp add: mask_eq_exp_minus_1)
    then show "bit (x AND NOT 7) n = bit (push_bit 3 (drop_bit 3 x)) n"
      using \<open>n < LENGTH(64)\<close> by (auto simp: bit_simps)
  qed
  then show ?thesis using bits_ident [of 3 x] by (simp add: algebra_simps)
qed

lemma unat_align: "unat (align l) = unat (l + 7) - unat (l + 7) mod 8"
proof -
  have eq: "unat (take_bit 3 (l + 7)) = unat (l + 7) mod 8"
    by (simp add: take_bit_eq_mod unat_mod)
  then have "take_bit 3 (l + 7) \<le> l + 7"
    by (simp add: word_le_nat_alt del: unsigned_take_bit_eq)
  then show ?thesis unfolding align_def and_not_7 by (simp add: unat_sub eq)
qed

lemma no_overflow_7: "l \<le> LSN_MAX - 7 \<Longrightarrow> unat (l + 7) = unat l + 7"
proof -
  assume "l \<le> LSN_MAX - 7"
  then have "unat l + 7 < 2 ^ 64" by (simp add: LSN_MAX_def word_le_nat_alt)
  then show ?thesis by (simp add: unat_word_ariths)
qed

lemma align_bounds:
  assumes "l \<le> LSN_MAX - 7"
  shows "unat l \<le> unat (align l)" "unat (align l) < unat l + 8" "unat (align l) mod 8 = 0"
  using no_overflow_7 [OF assms] by (simp_all add: unat_align)

text \<open>Away from the last seven values, alignment is the least multiple of 8 above.\<close>

lemma align_least:
  assumes "l \<le> LSN_MAX - 7" and "l \<le> m" and "unat m mod 8 = 0"
  shows "align l \<le> m"
proof -
  have "unat l \<le> unat m" using assms(2) by (simp add: word_le_nat_alt)
  with align_bounds [OF assms(1)] assms(3) have "unat (align l) \<le> unat m" by presburger
  then show ?thesis by (simp add: word_le_nat_alt)
qed

lemma align_multiple:
  assumes "unat l mod 8 = 0"
  shows "align l = l"
proof -
  from unat_bounds(4) [of l] assms have "unat l + 7 < 2 ^ 64" by (simp, presburger)
  then have "unat (l + 7) = unat l + 7" by (simp add: unat_word_ariths)
  then have "unat (align l) = unat l" using assms by (simp add: unat_align) presburger
  then show ?thesis by (simp add: word_unat_eq_iff)
qed

lemma calc_padding_pow2:
  assumes "k < 64"
  shows "(unat l + unat (calc_padding l (2 ^ k))) mod 2 ^ k = 0"
    and "unat (calc_padding l (2 ^ k)) < 2 ^ k"
proof -
  have "(2::nat) ^ k dvd 2 ^ 64" by (rule le_imp_power_dvd) (use assms in simp)
  then have dv: "2 ^ k dvd (18446744073709551616 :: nat)" by simp
  have p: "unat (2 ^ k :: u64) = 2 ^ k" 
  proof -
    have "(2::nat) ^ k < 2 ^ 64" using assms by (simp only: power_strict_increasing)
    then have "unat (word_of_nat (2 ^ k) :: u64) = 2 ^ k" by (simp only: unat_of_nat) simp
    then show ?thesis by (simp only: of_nat_power of_nat_numeral)
  qed
  have lt: "unat l < 18446744073709551616" using unat_bounds(4) [of l] by simp
  have c: "unat (calc_padding l (2 ^ k)) = unat (2 ^ k - l :: u64) mod 2 ^ k"
    by (simp add: calc_padding_def unat_mod p)
  then show "unat (calc_padding l (2 ^ k)) < 2 ^ k" by simp
  have "(unat l + unat (calc_padding l (2 ^ k))) mod 2 ^ k
      = (unat l + unat (2 ^ k - l :: u64)) mod 2 ^ k"
    by (simp add: c mod_simps)
  also have "\<dots> = (unat l + unat (2 ^ k - l :: u64)) mod 18446744073709551616 mod 2 ^ k"
    by (rule mod_mod_cancel [OF dv, symmetric])
  also have "(unat l + unat (2 ^ k - l :: u64)) mod 18446744073709551616 = unat (l + (2 ^ k - l) :: u64)"
    by (simp only: unat_word_ariths) simp
  also have "\<dots> = 2 ^ k" by (simp add: p)
  finally show "(unat l + unat (calc_padding l (2 ^ k))) mod 2 ^ k = 0" by simp
qed

section \<open>The textual form\<close>

lemma hex_value_digit: "d < 16 \<Longrightarrow> hex_value (hex_digit d) = Some d"
proof -
  have "list_all (\<lambda>d. hex_value (hex_digit d) = Some d) [0..<16]" by code_simp
  then show "d < 16 \<Longrightarrow> ?thesis" by (auto simp: list_all_iff)
qed

lemma hex_digit_plain: "d < 16 \<Longrightarrow> hex_digit d \<noteq> CHR ''+'' \<and> hex_digit d \<noteq> CHR ''/''
    \<and> \<not> is_ascii_ws (hex_digit d)"
proof -
  have "list_all (\<lambda>d. hex_digit d \<noteq> CHR ''+'' \<and> hex_digit d \<noteq> CHR ''/''
    \<and> \<not> is_ascii_ws (hex_digit d)) [0..<16]" by code_simp
  then show "d < 16 \<Longrightarrow> ?thesis" by (auto simp: list_all_iff)
qed

lemma hex_upper_chars: "c \<in> set (hex_upper n) \<Longrightarrow> \<exists>d<16. c = hex_digit d"
proof (induction n rule: hex_upper.induct)
  case (1 n)
  show ?case
  proof (cases "n < 16")
    case True
    with "1.prems" show ?thesis by (auto simp: hex_upper.simps [of n])
  next
    case False
    with "1.prems" have "c \<in> set (hex_upper (n div 16)) \<or> c = hex_digit (n mod 16)"
      by (simp add: hex_upper.simps [of n]) blast
    then show ?thesis using "1.IH" [OF False] mod_less_divisor [of 16 n] by (auto simp del: mod_less_divisor)
  qed
qed

lemma hex_upper_nonempty [simp]: "hex_upper n \<noteq> []"
  by (subst hex_upper.simps) simp

lemma parse_hex_append:
  "parse_hex_digits acc (xs @ ys) =
     (case parse_hex_digits acc xs of None \<Rightarrow> None | Some a \<Rightarrow> parse_hex_digits a ys)"
  by (induction acc xs rule: parse_hex_digits.induct) (auto split: option.splits)

lemma parse_hex_upper: "parse_hex_digits 0 (hex_upper n) = Some n"
proof (induction n rule: hex_upper.induct)
  case (1 n)
  then show ?case
    by (cases "n < 16") (simp_all add: hex_upper.simps [of n] parse_hex_append hex_value_digit)
qed

lemma hex_upper_no_char:
  "CHR ''+'' \<notin> set (hex_upper n)" "CHR ''/'' \<notin> set (hex_upper n)"
  "c \<in> set (hex_upper n) \<Longrightarrow> \<not> is_ascii_ws c"
  using hex_upper_chars [of _ n] hex_digit_plain by metis+

lemma from_str_radix_hex_upper: "n < 2 ^ bits \<Longrightarrow> from_str_radix_16 bits (hex_upper n) = Some n"
proof -
  assume "n < 2 ^ bits"
  obtain c cs where "hex_upper n = c # cs" by (cases "hex_upper n") auto
  then have "from_str_radix_16 bits (hex_upper n) =
      (case parse_hex_digits 0 (hex_upper n) of
         None \<Rightarrow> None | Some n \<Rightarrow> if n < 2 ^ bits then Some n else None)"
    using hex_upper_no_char(1) [of n] by (auto simp: from_str_radix_16_def)
  with \<open>n < 2 ^ bits\<close> show ?thesis by (simp add: parse_hex_upper)
qed

lemma split_on_none: "sep \<notin> set s \<Longrightarrow> split_on sep s = [s]"
  by (induction s) auto

lemma split_on_two: "sep \<notin> set a \<Longrightarrow> sep \<notin> set b \<Longrightarrow> split_on sep (a @ sep # b) = [a, b]"
  by (induction a) (auto simp: split_on_none)

lemma str_trim_plain: "\<forall>c \<in> set s. \<not> is_ascii_ws c \<Longrightarrow> str_trim s = s"
proof -
  assume plain: "\<forall>c \<in> set s. \<not> is_ascii_ws c"
  have id: "dropWhile is_ascii_ws t = t" if "\<forall>c \<in> set t. \<not> is_ascii_ws c" for t
    using that by (cases t) auto
  show ?thesis using plain by (simp add: str_trim_def id)
qed

text \<open>C14: Parsing the printed form of any LSN gives the LSN back: \<open>from_str\<close> accepts what
  \<open>Display\<close> writes (two upper-case hexadecimal halves around a slash) and returns the same
  64-bit value.\<close>

theorem lsn_from_str_display: "lsn_from_str (lsn_display l) = Inr l"
proof -
  let ?hi = "unat (drop_bit 32 l)" and ?lo = "unat (l AND 0xffffffff)"
  have hi: "?hi < 2 ^ 32" using unat_bounds(4) [of l] by (simp add: drop_bit_eq_div unat_div)
  have mask: "l AND 0xffffffff = take_bit 32 l" by (simp add: take_bit_eq_mask mask_eq_exp_minus_1)
  then have lo: "?lo < 2 ^ 32" by (simp add: take_bit_eq_mod unat_mod)
  have "\<not> is_ascii_ws (CHR ''/'')" by (simp add: is_ascii_ws_def)
  then have "str_trim (lsn_display l) = lsn_display l"
    by (intro str_trim_plain) (auto simp: lsn_display_def dest: hex_upper_no_char(3))
  moreover have "split_on (CHR ''/'') (lsn_display l) = [hex_upper ?hi, hex_upper ?lo]"
    using split_on_two [OF hex_upper_no_char(2) hex_upper_no_char(2)] by (simp add: lsn_display_def)
  moreover have "push_bit 32 (word_of_nat ?hi) OR word_of_nat ?lo = l"
    by (rule bit_word_eqI) (auto simp: mask bit_simps)
  ultimately show ?thesis
    by (simp add: lsn_from_str_def from_str_radix_hex_upper [OF hi] from_str_radix_hex_upper [OF lo])
qed

text \<open>C15: For every LSN that is at least 7 below the largest one, \<open>align\<close> returns the least
  multiple of 8 that is not below it.\<close>

theorem align_correct:
  assumes "l \<le> LSN_MAX - 7"
  shows "l \<le> align l \<and> unat (align l) mod 8 = 0 \<and>
         (\<forall>m. l \<le> m \<and> unat m mod 8 = 0 \<longrightarrow> align l \<le> m)"
  using align_bounds [OF assms] align_least [OF assms] by (auto simp: word_le_nat_alt)

theorem align_correct_witness:
  "(0x16B9189 :: lsn) \<le> align 0x16B9189 \<and> unat (align 0x16B9189) mod 8 = 0 \<and>
   align 0x16B9189 \<le> 0x16B9190"
proof -
  have "(0x16B9189 :: lsn) \<le> LSN_MAX - 7" by (simp add: LSN_MAX_def)
  then show ?thesis using align_correct [of "0x16B9189"] by simp
qed

text \<open>
  \<open>calc_padding\<close> is documented for any size, but it reduces the wrapped negation, so a size
  that does not divide \<open>2 ^ 64\<close> gets a wrong answer: at LSN 4 the padding to a multiple of 3
  is reported as 0.
\<close>

lemma calc_padding_size_3: "calc_padding 4 3 = 0" "(4 + unat (calc_padding 4 3)) mod 3 \<noteq> 0"
  by (simp_all add: calc_padding_def)

end
