(* ===== verification/Pg_Version.thy ===== *)
theory Pg_Version
  imports Prelude
begin

text \<open>
  Postgres versions (\<open>libs/postgres_versioninfo/src/lib.rs\<close>): full version numbers and the
  supported major versions.
\<close>

datatype PgMajorVersion = PG14 | PG15 | PG16 | PG17

type_synonym PgVersionId = u32

definition UNKNOWN_SERVER_VERSION :: PgVersionId where
  "UNKNOWN_SERVER_VERSION = 0"

definition from_full_pg_version :: "u32 \<Rightarrow> PgVersionId res" where
  "from_full_pg_version version =
     (if version = 0 then Inr version
      else if 140000 \<le> version \<and> version < 180000 then Inr version
      else Inl (Panic ''Invalid full PostgreSQL version ID''))"

fun major_version_num :: "PgMajorVersion \<Rightarrow> u32" where
  "major_version_num PG14 = 14"
| "major_version_num PG15 = 15"
| "major_version_num PG16 = 16"
| "major_version_num PG17 = 17"

definition major_of_version :: "PgVersionId \<Rightarrow> PgMajorVersion option" where
  "major_of_version v =
     (let m = v div 10000 in
      if m = 14 then Some PG14 else if m = 15 then Some PG15
      else if m = 16 then Some PG16 else if m = 17 then Some PG17 else None)"

definition version_of_major :: "PgMajorVersion \<Rightarrow> PgVersionId" where
  "version_of_major m = major_version_num m * 10000"

lemma major_of_version_of_major [simp]: "major_of_version (version_of_major m) = Some m"
  by (cases m) (simp_all add: major_of_version_def version_of_major_def)

text \<open>Every full version the constructor accepts, apart from the unknown one, has a major version.\<close>

lemma major_of_version_defined:
  assumes "from_full_pg_version v = Inr w" and "v \<noteq> 0"
  shows "w = v \<and> (\<exists>m. major_of_version v = Some m)"
proof -
  have w: "w = v" and b: "140000 \<le> v" "v < 180000"
    using assms by (auto simp: from_full_pg_version_def split: if_splits)
  have "unat (v div 10000) = unat v div 10000" by (simp add: unat_div)
  moreover have "140000 \<le> unat v" "unat v < 180000"
    using b by (simp_all add: word_le_nat_alt word_less_nat_alt)
  ultimately have "14 \<le> unat (v div 10000)" "unat (v div 10000) < 18" by auto
  then have "unat (v div 10000) \<in> {14, 15, 16, 17}" by auto
  then have "v div 10000 \<in> {14, 15, 16, 17}" by (auto simp: word_unat_eq_iff)
  then show ?thesis using w by (auto simp: major_of_version_def Let_def)
qed

end
