(* ===== verification/Wal_Format.thy ===== *)
theory Wal_Format
  imports Lsn Pg_Version
begin

text \<open>
  The format of Postgres WAL (\<open>libs/postgres_ffi/src/xlog_utils.rs\<close> and the constants of
  \<open>libs/postgres_ffi/src/lib.rs\<close>): page and record headers with their little-endian layout,
  segment file names, and the empty segment a timeline starts with. The page magic and the CRC
  come from outside the sources and are parameters.
\<close>

unbundle bit_operations_syntax

section \<open>Constants and headers\<close>

definition WAL_SEGMENT_SIZE :: nat where
  "WAL_SEGMENT_SIZE = 16 * 1024 * 1024"

abbreviation wal_seg :: u64 where
  "wal_seg \<equiv> word_of_nat WAL_SEGMENT_SIZE"

definition PG_TLI :: u32 where
  "PG_TLI = 1"

definition XLOG_FNAME_LEN :: nat where
  "XLOG_FNAME_LEN = 24"

definition XLP_BKP_REMOVABLE :: u16 where
  "XLP_BKP_REMOVABLE = 4"

definition XLP_FIRST_IS_CONTRECORD :: u16 where
  "XLP_FIRST_IS_CONTRECORD = 1"

definition XLP_LONG_HEADER :: u16 where
  "XLP_LONG_HEADER = 2"

definition XLOG_RECORD_CRC_OFFS :: nat where
  "XLOG_RECORD_CRC_OFFS = 4 + 4 + 8 + 1 + 1 + 2"

definition XLOG_SIZE_OF_XLOG_SHORT_PHD :: nat where
  "XLOG_SIZE_OF_XLOG_SHORT_PHD = 24"

definition XLOG_SIZE_OF_XLOG_LONG_PHD :: nat where
  "XLOG_SIZE_OF_XLOG_LONG_PHD = 40"

definition XLOG_SIZE_OF_XLOG_RECORD :: nat where
  "XLOG_SIZE_OF_XLOG_RECORD = 24"

definition XLOG_SWITCH :: u8 where
  "XLOG_SWITCH = 0x40"

definition RM_XLOG_ID :: u8 where
  "RM_XLOG_ID = 0"

text \<open>What comes from the Postgres headers and from the \<open>crc32c\<close> crate.\<close>

record wal_env =
  xlog_page_magic :: "PgMajorVersion \<Rightarrow> u32"
  crc32c_append :: "u32 \<Rightarrow> bytes \<Rightarrow> u32"

text \<open>Concrete parameters, for evaluating definitions.\<close>

definition sample_env :: wal_env where
  "sample_env = \<lparr>xlog_page_magic = \<lambda>_. 0xD116, crc32c_append = \<lambda>c b. c + word_of_nat (sum_list (map unat b))\<rparr>"

record XLogPageHeaderData =
  xlp_magic :: u16
  xlp_info :: u16
  xlp_tli :: u32
  xlp_pageaddr :: u64
  xlp_rem_len :: u32
  xlp_padding :: u32

record XLogLongPageHeaderData =
  xlp_std :: XLogPageHeaderData
  xlp_sysid :: u64
  xlp_seg_size :: u32
  xlp_xlog_blcksz :: u32

record XLogRecord =
  xl_tot_len :: u32
  xl_xid :: u32
  xl_prev :: u64
  xl_info :: u8
  xl_rmid :: u8
  xl_padding :: u16
  xl_crc :: u32

section \<open>Little-endian layout\<close>

definition field :: "nat \<Rightarrow> nat \<Rightarrow> bytes \<Rightarrow> 'a::len word" where
  "field off n b = le_word (take n (drop off b))"

definition page_header_encode :: "XLogPageHeaderData \<Rightarrow> bytes" where
  "page_header_encode h =
     word_le 2 (xlp_magic h) @ word_le 2 (xlp_info h) @ word_le 4 (xlp_tli h)
     @ word_le 8 (xlp_pageaddr h) @ word_le 4 (xlp_rem_len h) @ word_le 4 (xlp_padding h)"

definition page_header_from_bytes :: "bytes \<Rightarrow> XLogPageHeaderData" where
  "page_header_from_bytes b =
     \<lparr>xlp_magic = field 0 2 b, xlp_info = field 2 2 b, xlp_tli = field 4 4 b,
      xlp_pageaddr = field 8 8 b, xlp_rem_len = field 16 4 b, xlp_padding = field 20 4 b\<rparr>"

definition long_page_header_encode :: "XLogLongPageHeaderData \<Rightarrow> bytes" where
  "long_page_header_encode h =
     page_header_encode (xlp_std h) @ word_le 8 (xlp_sysid h) @ word_le 4 (xlp_seg_size h)
     @ word_le 4 (xlp_xlog_blcksz h)"

definition long_page_header_from_bytes :: "bytes \<Rightarrow> XLogLongPageHeaderData" where
  "long_page_header_from_bytes b =
     \<lparr>xlp_std = page_header_from_bytes b, xlp_sysid = field 24 8 b, xlp_seg_size = field 32 4 b,
      xlp_xlog_blcksz = field 36 4 b\<rparr>"

definition xlog_record_encode :: "XLogRecord \<Rightarrow> bytes" where
  "xlog_record_encode r =
     word_le 4 (xl_tot_len r) @ word_le 4 (xl_xid r) @ word_le 8 (xl_prev r) @ word_le 1 (xl_info r)
     @ word_le 1 (xl_rmid r) @ word_le 2 (xl_padding r) @ word_le 4 (xl_crc r)"

definition xlog_record_from_slice :: "bytes \<Rightarrow> XLogRecord" where
  "xlog_record_from_slice b =
     \<lparr>xl_tot_len = field 0 4 b, xl_xid = field 4 4 b, xl_prev = field 8 8 b, xl_info = field 16 1 b,
      xl_rmid = field 17 1 b, xl_padding = field 18 2 b, xl_crc = field 20 4 b\<rparr>"

definition is_xlog_switch_record :: "XLogRecord \<Rightarrow> bool" where
  "is_xlog_switch_record r \<longleftrightarrow> xl_info r = XLOG_SWITCH \<and> xl_rmid r = RM_XLOG_ID"

section \<open>Segments\<close>

definition XLogSegmentsPerXLogId :: "nat \<Rightarrow> u64" where
  "XLogSegmentsPerXLogId wal_segsz_bytes = 0x100000000 div word_of_nat wal_segsz_bytes"

definition XLogSegNoOffsetToRecPtr :: "u64 \<Rightarrow> u32 \<Rightarrow> nat \<Rightarrow> u64" where
  "XLogSegNoOffsetToRecPtr segno off wal_segsz_bytes =
     segno * word_of_nat wal_segsz_bytes + ucast off"

text \<open>\<open>{:>08X}\<close>: upper-case hexadecimal, padded with zeros to at least eight digits.\<close>

definition hex08 :: "nat \<Rightarrow> string" where
  "hex08 n = (let h = hex_upper n in replicate (8 - length h) (CHR ''0'') @ h)"

definition XLogFileName :: "u32 \<Rightarrow> u64 \<Rightarrow> nat \<Rightarrow> string" where
  "XLogFileName tli logSegNo wal_segsz_bytes =
     hex08 (unat tli)
     @ hex08 (unat (logSegNo div XLogSegmentsPerXLogId wal_segsz_bytes))
     @ hex08 (unat (logSegNo mod XLogSegmentsPerXLogId wal_segsz_bytes))"

definition XLogFromFileName :: "string \<Rightarrow> nat \<Rightarrow> (u64 \<times> u32) res" where
  "XLogFromFileName fname sz =
     (if length fname < 24 then Inl (Panic ''slice index out of range'')
      else case from_str_radix_16 32 (take 8 fname) of
        None \<Rightarrow> Inl (Bail ''ParseIntError'')
      | Some tli \<Rightarrow> (case from_str_radix_16 32 (take 8 (drop 8 fname)) of
          None \<Rightarrow> Inl (Bail ''ParseIntError'')
        | Some lg \<Rightarrow> (case from_str_radix_16 32 (take 8 (drop 16 fname)) of
            None \<Rightarrow> Inl (Bail ''ParseIntError'')
          | Some seg \<Rightarrow> Inr (word_of_nat lg * XLogSegmentsPerXLogId sz + word_of_nat seg,
                            word_of_nat tli))))"

definition is_ascii_hexdigit :: "char \<Rightarrow> bool" where
  "is_ascii_hexdigit c \<longleftrightarrow> hex_value c \<noteq> None"

definition IsXLogFileName :: "string \<Rightarrow> bool" where
  "IsXLogFileName fname \<longleftrightarrow> length fname = XLOG_FNAME_LEN \<and> list_all is_ascii_hexdigit fname"

definition ends_with :: "string \<Rightarrow> string \<Rightarrow> bool" where
  "ends_with suffix s \<longleftrightarrow> length suffix \<le> length s \<and> drop (length s - length suffix) s = suffix"

definition IsPartialXLogFileName :: "string \<Rightarrow> bool" where
  "IsPartialXLogFileName fname \<longleftrightarrow>
     ends_with ''.partial'' fname \<and> IsXLogFileName (take (length fname - 8) fname)"

definition normalize_lsn :: "lsn \<Rightarrow> u64 \<Rightarrow> lsn res" where
  "normalize_lsn l seg_sz =
     (if l mod XLOG_BLCKSZ = 0
      then lsn_add l (word_of_nat (if l mod seg_sz = 0 then XLOG_SIZE_OF_XLOG_LONG_PHD
                                   else XLOG_SIZE_OF_XLOG_SHORT_PHD))
      else Inr (align l))"

text \<open>The size hint in the first page: a fake record that ends where the first real one starts.\<close>

definition generate_wal_segment ::
  "wal_env \<Rightarrow> PgMajorVersion \<Rightarrow> u64 \<Rightarrow> u64 \<Rightarrow> lsn \<Rightarrow> bytes res" where
  "generate_wal_segment E ver segno sysid l =
     (if segno \<noteq> segment_number l wal_seg then Inl (Panic ''assertion failed'')
      else
        let pageaddr = XLogSegNoOffsetToRecPtr segno 0 WAL_SEGMENT_SIZE;
            page_off = unat (block_offset l);
            seg_off = unat (segment_offset l wal_seg);
            first_page_only = seg_off < 8192;
            magic = ucast (xlog_page_magic E ver)
        in if first_page_only \<and> 0 < seg_off \<and> seg_off < XLOG_SIZE_OF_XLOG_LONG_PHD
           then Inl (Panic ''assertion failed: seg_off >= XLOG_SIZE_OF_XLOG_LONG_PHD'')
           else
             let (rem_len, flags) =
                   (if first_page_only \<and> 0 < seg_off
                    then (seg_off - XLOG_SIZE_OF_XLOG_LONG_PHD, XLP_FIRST_IS_CONTRECORD) else (0, 0));
                 hdr = long_page_header_encode
                   \<lparr>xlp_std = \<lparr>xlp_magic = magic, xlp_info = XLP_LONG_HEADER OR flags, xlp_tli = PG_TLI,
                               xlp_pageaddr = pageaddr, xlp_rem_len = word_of_nat rem_len,
                               xlp_padding = 0\<rparr>,
                    xlp_sysid = sysid, xlp_seg_size = word_of_nat WAL_SEGMENT_SIZE,
                    xlp_xlog_blcksz = 8192\<rparr>;
                 seg_buf = hdr @ replicate (WAL_SEGMENT_SIZE - length hdr) 0
             in if first_page_only then Inr seg_buf
                else if 0 < page_off \<and> page_off < XLOG_SIZE_OF_XLOG_SHORT_PHD
                then Inl (Panic ''assertion failed: page_off >= XLOG_SIZE_OF_XLOG_SHORT_PHD'')
                else
                  let block_off = unat (page_offset_in_segment l wal_seg);
                      (rem_len, flags) =
                        (if 0 < page_off
                         then (page_off - XLOG_SIZE_OF_XLOG_SHORT_PHD, XLP_FIRST_IS_CONTRECORD) else (0, 0));
                      shdr = page_header_encode
                        \<lparr>xlp_magic = magic, xlp_info = flags, xlp_tli = PG_TLI,
                         xlp_pageaddr = page_lsn l, xlp_rem_len = word_of_nat rem_len,
                         xlp_padding = 0\<rparr>
                  in Inr (take block_off seg_buf @ shdr @ drop (block_off + length shdr) seg_buf))"

section \<open>Layout lemmas\<close>

lemma wal_seg_simps [simp]: "unat wal_seg = 16777216" "wal_seg = 16777216"
  by (simp_all add: WAL_SEGMENT_SIZE_def unat_of_nat)

lemma field_Cons_skip: "length a \<le> off \<Longrightarrow> field off n (a @ b) = field (off - length a) n b"
  by (simp add: field_def)

lemma field_here: "length a = n \<Longrightarrow> field 0 n (a @ b) = le_word a"
  by (simp add: field_def)

lemma field_here_end: "length a = n \<Longrightarrow> field 0 n a = le_word a"
  by (simp add: field_def)

lemma le_word_1 [simp]: "le_word (word_le (Suc 0) x) = (x :: u8)"
  by (simp add: le_word_word_le)

lemmas field_layout = field_Cons_skip field_here field_here_end

lemma length_page_headers [simp]:
  "length (page_header_encode h) = 24" "length (long_page_header_encode lh) = 40"
  "length (xlog_record_encode r) = 24"
  by (simp_all add: page_header_encode_def long_page_header_encode_def xlog_record_encode_def)

lemma page_header_roundtrip [simp]: "page_header_from_bytes (page_header_encode h @ b) = h"
  by (simp add: page_header_from_bytes_def page_header_encode_def field_layout)

lemma long_page_header_roundtrip [simp]:
  "long_page_header_from_bytes (long_page_header_encode h @ b) = h"
  by (simp add: long_page_header_from_bytes_def long_page_header_encode_def field_layout)

lemma xlog_record_roundtrip [simp]: "xlog_record_from_slice (xlog_record_encode r @ b) = r"
  by (simp add: xlog_record_from_slice_def xlog_record_encode_def field_layout)

section \<open>Segment names\<close>

lemma length_hex_upper: "n < 16 ^ Suc k \<Longrightarrow> length (hex_upper n) \<le> Suc k"
proof (induction k arbitrary: n)
  case 0
  then show ?case by (simp add: hex_upper.simps [of n])
next
  case (Suc k)
  then have "n div 16 < 16 ^ Suc k" by (simp add: div_less_iff_less_mult mult.commute)
  then show ?case using Suc.IH [of "n div 16"] by (subst hex_upper.simps) simp
qed

lemma parse_hex_zeros: "parse_hex_digits 0 (replicate k (CHR ''0'') @ s) = parse_hex_digits 0 s"
proof (induction k)
  case (Suc k)
  have "hex_value (CHR ''0'') = Some 0" by code_simp
  then show ?case using Suc by simp
qed simp

lemma hex08_chars: "c \<in> set (hex08 n) \<Longrightarrow> \<exists>d<16. c = hex_digit d"
proof -
  have "CHR ''0'' = hex_digit 0" by code_simp
  then show "c \<in> set (hex08 n) \<Longrightarrow> ?thesis"
    using hex_upper_chars [of c n] by (auto simp: hex08_def Let_def intro: exI [of _ 0])
qed

lemma hex08_word:
  assumes "n < 2 ^ 32"
  shows "length (hex08 n) = 8" and "from_str_radix_16 32 (hex08 n) = Some n"
    and "list_all is_ascii_hexdigit (hex08 n)"
proof -
  have le: "length (hex_upper n) \<le> 8" using length_hex_upper [of n 7] assms by simp
  then show "length (hex08 n) = 8" by (simp add: hex08_def Let_def)
  have "CHR ''+'' \<notin> set (hex08 n)" using hex_upper_no_char(1) [of n] by (auto simp: hex08_def Let_def)
  moreover have "parse_hex_digits 0 (hex08 n) = Some n"
    by (simp add: hex08_def Let_def parse_hex_zeros parse_hex_upper)
  moreover obtain c cs where "hex08 n = c # cs" using \<open>length (hex08 n) = 8\<close> by (cases "hex08 n") auto
  ultimately show "from_str_radix_16 32 (hex08 n) = Some n"
    using assms by (auto simp: from_str_radix_16_def Let_def)
  show "list_all is_ascii_hexdigit (hex08 n)"
    using hex08_chars [of _ n] hex_value_digit by (fastforce simp: list_all_iff is_ascii_hexdigit_def)
qed

lemma segments_per_id:
  assumes "0 < sz" and "sz \<le> 2 ^ 32"
  shows "unat (XLogSegmentsPerXLogId sz) = 2 ^ 32 div sz"
  using assms by (simp add: XLogSegmentsPerXLogId_def unat_div unat_of_nat)

lemma xlog_file_name_fields:
  fixes tli :: u32
  assumes sz: "0 < sz" "sz \<le> 2 ^ 32" and lt: "unat segno div (2 ^ 32 div sz) < 2 ^ 32"
  shows "XLogFromFileName (XLogFileName tli segno sz) sz = Inr (segno, tli)"
    and "IsXLogFileName (XLogFileName tli segno sz)"
proof -
  let ?per = "XLogSegmentsPerXLogId sz"
  have per: "unat ?per = 2 ^ 32 div sz" by (rule segments_per_id [OF sz])
  have a: "unat tli < 2 ^ 32" using unat_bounds(3) [of tli] by simp
  have b: "unat (segno div ?per) < 2 ^ 32" using lt per by (simp add: unat_div)
  have "0 < 2 ^ 32 div sz" using sz by (simp add: div_greater_zero_iff)
  then have "unat (segno mod ?per) < 2 ^ 32 div sz" using per by (simp add: unat_mod)
  also have "\<dots> \<le> 2 ^ 32" by (rule div_le_dividend)
  finally have c: "unat (segno mod ?per) < 2 ^ 32" .
  note h = hex08_word(1) [OF a] hex08_word(1) [OF b] hex08_word(1) [OF c]
  note p = hex08_word(2) [OF a] hex08_word(2) [OF b] hex08_word(2) [OF c]
  have "segno div ?per * ?per + segno mod ?per = segno" by (rule div_mult_mod_eq)
  then show "XLogFromFileName (XLogFileName tli segno sz) sz = Inr (segno, tli)"
    by (simp add: XLogFromFileName_def XLogFileName_def h p)
  show "IsXLogFileName (XLogFileName tli segno sz)"
    using hex08_word(3) [OF a] hex08_word(3) [OF b] hex08_word(3) [OF c]
    by (simp add: IsXLogFileName_def XLogFileName_def XLOG_FNAME_LEN_def h)
qed

text \<open>C20: Segment file names are unambiguous: for any segment size up to 4 GiB, parsing the name
  of a segment whose number fits the format returns the segment number and the timeline, and the
  name is recognised as a segment's.\<close>

theorem xlog_file_name_roundtrip:
  fixes tli :: u32
  assumes "0 < sz" and "sz \<le> 2 ^ 32" and "unat segno div (2 ^ 32 div sz) < 2 ^ 32"
  shows "XLogFromFileName (XLogFileName tli segno sz) sz = Inr (segno, tli) \<and>
     IsXLogFileName (XLogFileName tli segno sz)"
  using xlog_file_name_fields [OF assms] by simp

theorem xlog_file_name_roundtrip_witness:
  "XLogFromFileName (XLogFileName 1 0x1FF 16777216) 16777216 = Inr (0x1FF, 1) \<and>
   IsXLogFileName (XLogFileName 1 0x1FF 16777216)"
  by (rule xlog_file_name_roundtrip) simp_all

end
