(* ===== verification/Wal_Decoder.thy ===== *)
theory Wal_Decoder
  imports Wal_Format
begin

text \<open>
  The streaming WAL decoder (\<open>libs/postgres_ffi/src/waldecoder_handler.rs\<close> and the module
  \<open>waldecoder\<close> of \<open>libs/postgres_ffi/src/lib.rs\<close>): a state machine that validates page
  headers and reassembles records from a stream fed in arbitrary pieces. The main result is that
  the pieces do not matter.
\<close>

unbundle bit_operations_syntax

section \<open>Decoder\<close>

datatype decoder_state =
    WaitingForRecord
  | ReassemblingRecord bytes u32
  | SkippingEverything lsn

record WalStreamDecoder =
  dec_lsn :: lsn
  dec_pg_version :: PgMajorVersion
  inputbuf :: bytes
  dec_state :: decoder_state

definition decoder_new :: "lsn \<Rightarrow> PgMajorVersion \<Rightarrow> WalStreamDecoder" where
  "decoder_new l ver =
     \<lparr>dec_lsn = l, dec_pg_version = ver, inputbuf = [], dec_state = WaitingForRecord\<rparr>"

definition available :: "WalStreamDecoder \<Rightarrow> lsn res" where
  "available d = lsn_add (dec_lsn d) (word_of_nat (length (inputbuf d)))"

definition feed_bytes :: "bytes \<Rightarrow> WalStreamDecoder \<Rightarrow> WalStreamDecoder" where
  "feed_bytes buf d = d\<lparr>inputbuf := inputbuf d @ buf\<rparr>"

definition validate_page_header ::
  "wal_env \<Rightarrow> WalStreamDecoder \<Rightarrow> XLogPageHeaderData \<Rightarrow> unit res" where
  "validate_page_header E d hdr =
     (if xlp_magic hdr \<noteq> ucast (xlog_page_magic E (dec_pg_version d))
      then Inl (Bail ''invalid xlog page header: xlp_magic'')
      else if xlp_pageaddr hdr \<noteq> dec_lsn d
      then Inl (Bail ''invalid xlog page header: xlp_pageaddr'')
      else case dec_state d of
        WaitingForRecord \<Rightarrow>
          (if xlp_info hdr AND XLP_FIRST_IS_CONTRECORD \<noteq> 0
           then Inl (Bail ''invalid xlog page header: unexpected XLP_FIRST_IS_CONTRECORD'')
           else if xlp_rem_len hdr \<noteq> 0
           then Inl (Bail ''invalid xlog page header: xlp_rem_len, but it is not a contrecord'')
           else Inr ())
      | ReassemblingRecord _ contlen \<Rightarrow>
          (if xlp_info hdr AND XLP_FIRST_IS_CONTRECORD = 0
           then Inl (Bail ''invalid xlog page header: XLP_FIRST_IS_CONTRECORD expected, not found'')
           else if xlp_rem_len hdr \<noteq> contlen
           then Inl (Bail ''invalid xlog page header: xlp_rem_len'')
           else Inr ())
      | SkippingEverything _ \<Rightarrow>
          Inl (Panic ''Should not be validating page header in the SkippingEverything state''))"

text \<open>Advances the position; \<open>Lsn += n\<close> panics on overflow.\<close>

definition advance_lsn :: "nat \<Rightarrow> (WalStreamDecoder, unit) prog" where
  "advance_lsn n =
     bindE (getE (\<lambda>d. lsn_add (dec_lsn d) (word_of_nat n))) (\<lambda>r.
     bindE (liftR r) (\<lambda>l. modifyE (\<lambda>d. d\<lparr>dec_lsn := l\<rparr>)))"

text \<open>Takes the first \<open>n\<close> bytes of the input.\<close>

definition split_to :: "nat \<Rightarrow> (WalStreamDecoder, bytes) prog" where
  "split_to n = (\<lambda>d. (Inr (take n (inputbuf d)), d\<lparr>inputbuf := drop n (inputbuf d)\<rparr>))"

text \<open>The header at a page boundary; \<open>False\<close> asks for more input.\<close>

definition read_header :: "wal_env \<Rightarrow> nat \<Rightarrow> (WalStreamDecoder, bool) prog" where
  "read_header E hsize =
     bindE (getE (\<lambda>d. length (inputbuf d))) (\<lambda>avail.
     if avail < hsize then retE False
     else bindE (split_to hsize) (\<lambda>b.
          bindE (getE (\<lambda>d. validate_page_header E d (page_header_from_bytes b))) (\<lambda>r.
          thenE (liftR r) (thenE (advance_lsn hsize) (retE True)))))"

definition decode_header :: "wal_env \<Rightarrow> (WalStreamDecoder, bool) prog" where
  "decode_header E =
     bindE (getE id) (\<lambda>d.
     case dec_state d of
       SkippingEverything _ \<Rightarrow> retE True
     | _ \<Rightarrow>
         if segment_offset (dec_lsn d) wal_seg = 0 then read_header E XLOG_SIZE_OF_XLOG_LONG_PHD
         else if block_offset (dec_lsn d) = 0 then read_header E XLOG_SIZE_OF_XLOG_SHORT_PHD
         else retE True)"

text \<open>The record's own checksum covers everything but the checksum field.\<close>

definition complete_record :: "wal_env \<Rightarrow> bytes \<Rightarrow> (WalStreamDecoder, lsn \<times> bytes) prog" where
  "complete_record E recordbuf =
     (if length recordbuf < XLOG_SIZE_OF_XLOG_RECORD then failE (Panic ''slice index out of range'')
      else
        let xlogrec = xlog_record_from_slice (take XLOG_SIZE_OF_XLOG_RECORD recordbuf);
            crc = crc32c_append E (crc32c_append E 0 (drop (XLOG_RECORD_CRC_OFFS + 4) recordbuf))
                    (take XLOG_RECORD_CRC_OFFS recordbuf)
        in thenE (guardE (crc = xl_crc xlogrec) (Bail ''WAL record crc mismatch''))
           (bindE (getE dec_lsn) (\<lambda>l.
            bindE (liftR (if is_xlog_switch_record xlogrec then lsn_add l (calc_padding l wal_seg)
                          else Inr (align l))) (\<lambda>next_lsn.
            thenE (modifyE (\<lambda>d. d\<lparr>dec_state := SkippingEverything next_lsn\<rparr>))
            (retE (next_lsn, recordbuf))))))"

datatype poll_step = NeedMore | Got "lsn \<times> bytes" | Again

definition pageleft :: "WalStreamDecoder \<Rightarrow> u32" where
  "pageleft d = ucast (remaining_in_block (dec_lsn d))"

definition body_waiting :: "wal_env \<Rightarrow> (WalStreamDecoder, poll_step) prog" where
  "body_waiting E =
     bindE (getE id) (\<lambda>d.
     if length (inputbuf d) < 4 then retE NeedMore
     else
       let tot_len = le_word (take 4 (inputbuf d)) :: u32
       in if unat tot_len < XLOG_SIZE_OF_XLOG_RECORD then failE (Bail ''invalid xl_tot_len'')
          else if unat tot_len \<le> length (inputbuf d) \<and> tot_len \<le> pageleft d
          then thenE (advance_lsn (unat tot_len))
               (bindE (split_to (unat tot_len)) (\<lambda>recordbuf.
                bindE (complete_record E recordbuf) (\<lambda>r. retE (Got r))))
          else thenE (modifyE (\<lambda>d. d\<lparr>dec_state := ReassemblingRecord [] tot_len\<rparr>)) (retE Again))"

definition body_reassembling ::
  "wal_env \<Rightarrow> bytes \<Rightarrow> u32 \<Rightarrow> (WalStreamDecoder, poll_step) prog" where
  "body_reassembling E recordbuf contlen =
     bindE (getE id) (\<lambda>d.
     let n = unat (min contlen (pageleft d))
     in if length (inputbuf d) < n then retE NeedMore
        else bindE (split_to n) (\<lambda>piece.
             let recordbuf' = recordbuf @ piece; rest = contlen - word_of_nat n
             in thenE (advance_lsn n)
                (if rest \<noteq> 0
                 then thenE (modifyE (\<lambda>d. d\<lparr>dec_state := ReassemblingRecord recordbuf' rest\<rparr>)) (retE Again)
                 else thenE (modifyE (\<lambda>d. d\<lparr>dec_state := ReassemblingRecord [] contlen\<rparr>))
                      (bindE (complete_record E recordbuf') (\<lambda>r. retE (Got r))))))"

definition body_skipping :: "lsn \<Rightarrow> (WalStreamDecoder, poll_step) prog" where
  "body_skipping skip_until =
     bindE (getE id) (\<lambda>d.
     thenE (guardE (dec_lsn d \<le> skip_until) (Panic ''assertion failed: *skip_until_lsn >= self.lsn''))
     (let n = unat (skip_until - dec_lsn d)
      in if length (inputbuf d) < n then retE NeedMore
         else bindE (split_to n) (\<lambda>_.
              thenE (advance_lsn n)
              (thenE (modifyE (\<lambda>d. d\<lparr>dec_state := WaitingForRecord\<rparr>)) (retE Again)))))"

definition decode_body :: "wal_env \<Rightarrow> (WalStreamDecoder, poll_step) prog" where
  "decode_body E =
     bindE (getE dec_state) (\<lambda>st.
     case st of
       WaitingForRecord \<Rightarrow> body_waiting E
     | ReassemblingRecord recordbuf contlen \<Rightarrow> body_reassembling E recordbuf contlen
     | SkippingEverything skip_until \<Rightarrow> body_skipping skip_until)"

text \<open>One round of the loop.\<close>

definition decode_step :: "wal_env \<Rightarrow> (WalStreamDecoder, poll_step) prog" where
  "decode_step E = bindE (decode_header E) (\<lambda>go. if go then decode_body E else retE NeedMore)"

text \<open>
  Every round that loops consumes input or moves down the order skipping, waiting,
  reassembling; so does a round that delivers a record.
\<close>

fun state_rank :: "decoder_state \<Rightarrow> nat" where
  "state_rank (ReassemblingRecord _ contlen) = (if contlen = 0 then 3 else 0)"
| "state_rank (SkippingEverything _) = 2"
| "state_rank WaitingForRecord = 1"

definition decoder_measure :: "WalStreamDecoder \<Rightarrow> nat" where
  "decoder_measure d = 4 * length (inputbuf d) + state_rank (dec_state d)"

lemma wp_advance_lsn [wp_simps]:
  "wp (advance_lsn n) Q E d =
     (case lsn_add (dec_lsn d) (word_of_nat n) of Inl e \<Rightarrow> E e d | Inr l \<Rightarrow> Q () (d\<lparr>dec_lsn := l\<rparr>))"
  by (simp add: advance_lsn_def wp_simps split: sum.splits)

lemma wp_split_to [wp_simps]:
  "wp (split_to n) Q E d = Q (take n (inputbuf d)) (d\<lparr>inputbuf := drop n (inputbuf d)\<rparr>)"
  by (simp add: split_to_def wp_def)

lemma wp_case_decoder_state [wp_simps]:
  "wp (case st of WaitingForRecord \<Rightarrow> a | ReassemblingRecord b c \<Rightarrow> f b c | SkippingEverything l \<Rightarrow> g l) Q E s =
     (case st of WaitingForRecord \<Rightarrow> wp a Q E s | ReassemblingRecord b c \<Rightarrow> wp (f b c) Q E s
      | SkippingEverything l \<Rightarrow> wp (g l) Q E s)"
  by (cases st) simp_all

lemma pageleft_bounds: "0 < unat (pageleft d)" "unat (pageleft d) \<le> 8192"
proof -
  have "unat (remaining_in_block (dec_lsn d)) \<le> 8192" "0 < unat (remaining_in_block (dec_lsn d))"
    by (simp_all add: unat_remaining_in_block)
  moreover have "unat (pageleft d) = unat (remaining_in_block (dec_lsn d))"
    using calculation(1) by (simp add: pageleft_def unsigned_ucast_eq take_bit_eq_mod)
  ultimately show "0 < unat (pageleft d)" "unat (pageleft d) \<le> 8192" by simp_all
qed

definition fed_pos :: "WalStreamDecoder \<Rightarrow> nat" where
  "fed_pos d = unat (dec_lsn d) + length (inputbuf d)"

lemma lsn_add_Inr:
  "lsn_add l n = Inr k \<longleftrightarrow> unat l + unat n < 2 ^ 64 \<and> k = l + n"
  by (auto simp: lsn_add_def checked_add_def)

lemma lsn_add_unat: "lsn_add l n = Inr k \<Longrightarrow> unat k = unat l + unat n"
  using checked_add_unat by (auto simp: lsn_add_def split: option.splits)

lemma lsn_add_unat_nat:
  "lsn_add l (word_of_nat n) = Inr k \<Longrightarrow> n < 2 ^ 64 \<Longrightarrow> unat k = unat l + n"
  using lsn_add_unat [of l "word_of_nat n" k] by (simp add: unat_of_nat)

lemma wp_read_header:
  assumes "hsize < 2 ^ 64"
  shows "wp (read_header E hsize)
    (\<lambda>go d'. dec_state d' = dec_state d \<and> fed_pos d' = fed_pos d \<and>
       length (inputbuf d') \<le> length (inputbuf d) \<and> (\<not> go \<longrightarrow> d' = d)) (\<lambda>_ _. True) d"
  unfolding read_header_def wp_simps
  using lsn_add_unat_nat [OF _ assms]
  by (auto simp: fed_pos_def split: sum.splits)

lemma wp_decode_header:
  "wp (decode_header E)
    (\<lambda>go d'. dec_state d' = dec_state d \<and> fed_pos d' = fed_pos d \<and>
       length (inputbuf d') \<le> length (inputbuf d) \<and> (\<not> go \<longrightarrow> d' = d)) (\<lambda>_ _. True) d"
  using wp_read_header [of 24 E d] wp_read_header [of 40 E d]
  by (auto simp: decode_header_def wp_simps XLOG_SIZE_OF_XLOG_LONG_PHD_def
      XLOG_SIZE_OF_XLOG_SHORT_PHD_def split: decoder_state.splits)

lemma wp_complete_record:
  "wp (complete_record E rb)
    (\<lambda>_ d'. inputbuf d' = inputbuf d \<and> dec_lsn d' = dec_lsn d \<and> state_rank (dec_state d') = 2)
    (\<lambda>_ _. True) d"
  by (auto simp: complete_record_def wp_simps Let_def split: sum.splits)

definition progress :: "poll_step \<Rightarrow> WalStreamDecoder \<Rightarrow> WalStreamDecoder \<Rightarrow> bool" where
  "progress r d d' \<longleftrightarrow> fed_pos d' = fed_pos d \<and> (r = NeedMore \<or> decoder_measure d' < decoder_measure d)"

lemma wp_body_waiting:
  assumes "dec_state d = WaitingForRecord"
  shows "wp (body_waiting E) (\<lambda>r. progress r d) (\<lambda>_ _. True) d"
proof -
  have c: "wp (complete_record E (take n (inputbuf d)))
      (\<lambda>x. progress (Got x) d) (\<lambda>_ _. True)
      (d\<lparr>dec_lsn := l, inputbuf := drop n (inputbuf d)\<rparr>)"
    if "lsn_add (dec_lsn d) (word_of_nat n) = Inr l" "24 \<le> n" "n < 2 ^ 64" "n \<le> length (inputbuf d)" for n l
    using lsn_add_unat_nat [OF that(1,3)] that(2,4) assms
    by (intro wp_mono [OF wp_complete_record]) (auto simp: progress_def fed_pos_def decoder_measure_def)
  have lt: "unat (w :: u32) < 2 ^ 64" for w using unat_bounds(3) [of w] by simp
  show ?thesis
    unfolding body_waiting_def wp_simps
    using c lt assms
    by (auto simp: Let_def wp_simps XLOG_SIZE_OF_XLOG_RECORD_def progress_def fed_pos_def decoder_measure_def
        split: sum.splits)
qed

lemma wp_body_reassembling:
  assumes "dec_state d = ReassemblingRecord rb contlen"
  shows "wp (body_reassembling E rb contlen) (\<lambda>r. progress r d) (\<lambda>_ _. True) d"
proof -
  define n where "n = unat (min contlen (pageleft d))"
  have n64: "n < 2 ^ 64" using unat_bounds(3) [of "min contlen (pageleft d)"] by (simp add: n_def)
  have pos: "0 < n" if "contlen \<noteq> 0"
    using that pageleft_bounds(1) [of d] by (auto simp: n_def min_def unat_gt_0)
  have c: "wp (complete_record E b) (\<lambda>x. progress (Got x) d) (\<lambda>_ _. True)
      (d\<lparr>inputbuf := drop n (inputbuf d), dec_lsn := l, dec_state := st\<rparr>)"
    if "lsn_add (dec_lsn d) (word_of_nat n) = Inr l" "n \<le> length (inputbuf d)" for l b st
    using lsn_add_unat_nat [OF that(1) n64] that(2) assms pos
    by (intro wp_mono [OF wp_complete_record]) (auto simp: progress_def fed_pos_def decoder_measure_def)
  show ?thesis
    unfolding body_reassembling_def wp_simps Let_def n_def [symmetric] id_apply
    using c lsn_add_unat_nat [OF _ n64] pos assms
    by (auto simp: wp_simps progress_def fed_pos_def decoder_measure_def n_def split: sum.splits)
qed

lemma wp_body_skipping:
  assumes "dec_state d = SkippingEverything u"
  shows "wp (body_skipping u) (\<lambda>r. progress r d) (\<lambda>_ _. True) d"
proof -
  have n64: "unat (u - dec_lsn d) < 2 ^ 64" using unat_bounds(4) by simp
  show ?thesis
    unfolding body_skipping_def wp_simps Let_def id_apply
    using lsn_add_unat_nat [OF _ n64] assms
    by (auto simp: wp_simps progress_def fed_pos_def decoder_measure_def split: sum.splits)
qed

lemma wp_decode_step: "wp (decode_step E) (\<lambda>r. progress r d) (\<lambda>_ _. True) d"
proof -
  have body: "wp (decode_body E) (\<lambda>r. progress r d) (\<lambda>_ _. True) d'"
    if "dec_state d' = dec_state d" "fed_pos d' = fed_pos d" "length (inputbuf d') \<le> length (inputbuf d)" for d'
  proof -
    have "wp (decode_body E) (\<lambda>r. progress r d') (\<lambda>_ _. True) d'"
      by (auto simp: decode_body_def wp_simps split: decoder_state.splits
          intro: wp_body_waiting wp_body_reassembling wp_body_skipping)
    then show ?thesis
      by (rule wp_mono) (use that in \<open>auto simp: progress_def decoder_measure_def\<close>)
  qed
  show ?thesis
    unfolding decode_step_def wp_bindE
    by (rule wp_mono [OF wp_decode_header]) (auto simp: wp_simps progress_def intro: body)
qed

lemma decode_step_progress: "decode_step E d = (Inr r, d') \<Longrightarrow> progress r d d'"
  using wp_runD [OF wp_decode_step [of E d]] by fastforce

section \<open>Polling\<close>

function (sequential) poll_decode :: "wal_env \<Rightarrow> (WalStreamDecoder, (lsn \<times> bytes) option) prog" where
  "poll_decode E d =
     (case decode_step E d of
        (Inl e, d') \<Rightarrow> (Inl e, d')
      | (Inr NeedMore, d') \<Rightarrow> (Inr None, d')
      | (Inr (Got r), d') \<Rightarrow> (Inr (Some r), d')
      | (Inr Again, d') \<Rightarrow> poll_decode E d')"
  by pat_completeness auto
termination
  by (relation "measure (\<lambda>(E, d). decoder_measure d)")
    (auto dest!: sym [of "(Inr Again, _)"] decode_step_progress simp: progress_def)

declare poll_decode.simps [simp del]

lemma poll_decode_progress:
  "poll_decode E d = (Inr r, d') \<Longrightarrow>
     fed_pos d' = fed_pos d \<and> (r \<noteq> None \<longrightarrow> decoder_measure d' < decoder_measure d)"
proof (induction E d rule: poll_decode.induct)
  case (1 E d)
  obtain q d1 where st: "decode_step E d = (q, d1)" by fastforce
  show ?case
  proof (cases q)
    case (Inl e)
    then show ?thesis using 1 st by (simp add: poll_decode.simps [of E d])
  next
    case (Inr s)
    have pr: "progress s d d1" using decode_step_progress st Inr by blast
    show ?thesis
    proof (cases s)
      case Again
      then have "poll_decode E d1 = (Inr r, d')" using 1(2) st Inr by (simp add: poll_decode.simps [of E d])
      then show ?thesis using 1(1) [OF st [symmetric] Inr Again] pr Again by (auto simp: progress_def)
    qed (use 1(2) st Inr pr in \<open>auto simp: poll_decode.simps [of E d] progress_def\<close>)
  qed
qed

text \<open>\<open>while let Some(record) = decoder.poll_decode()?\<close>: all records the input holds.\<close>

function (sequential) drain ::
  "wal_env \<Rightarrow> WalStreamDecoder \<Rightarrow> (lsn \<times> bytes) list \<times> err option \<times> WalStreamDecoder" where
  "drain E d =
     (case poll_decode E d of
        (Inl e, d') \<Rightarrow> ([], Some e, d')
      | (Inr None, d') \<Rightarrow> ([], None, d')
      | (Inr (Some r), d') \<Rightarrow> (case drain E d' of (rs, e, d'') \<Rightarrow> (r # rs, e, d'')))"
  by pat_completeness auto
termination
  by (relation "measure (\<lambda>(E, d). decoder_measure d)")
    (auto dest!: sym [of "(Inr (Some _), _)"] poll_decode_progress)

declare drain.simps [simp del]

section \<open>The pieces the stream arrives in do not matter\<close>

text \<open>A program that has enough input does the same when there is more of it.\<close>

definition frames :: "(WalStreamDecoder, 'a) prog \<Rightarrow> WalStreamDecoder \<Rightarrow> bytes \<Rightarrow> bool" where
  "frames m d ys \<longleftrightarrow> m (feed_bytes ys d) = (fst (m d), feed_bytes ys (snd (m d)))"

lemma frames_bindE:
  assumes "frames m d ys" and "\<And>x d'. m d = (Inr x, d') \<Longrightarrow> frames (f x) d' ys"
  shows "frames (bindE m f) d ys"
proof (cases "m d")
  case (Pair r d')
  then show ?thesis using assms by (cases r) (auto simp: frames_def bindE_def)
qed

lemma frames_thenE:
  assumes "frames m d ys" and "\<And>x d'. m d = (Inr x, d') \<Longrightarrow> frames k d' ys"
  shows "frames (thenE m k) d ys"
  unfolding thenE_def by (rule frames_bindE [OF assms(1)]) (rule assms(2))

lemma feed_bytes_simps [simp]:
  "dec_lsn (feed_bytes ys d) = dec_lsn d" "dec_state (feed_bytes ys d) = dec_state d"
  "dec_pg_version (feed_bytes ys d) = dec_pg_version d"
  "inputbuf (feed_bytes ys d) = inputbuf d @ ys" "pageleft (feed_bytes ys d) = pageleft d"
  by (simp_all add: feed_bytes_def pageleft_def)

lemma feed_bytes_commute:
  "feed_bytes ys (d\<lparr>dec_state := st\<rparr>) = (feed_bytes ys d)\<lparr>dec_state := st\<rparr>"
  "feed_bytes ys (d\<lparr>dec_lsn := l\<rparr>) = (feed_bytes ys d)\<lparr>dec_lsn := l\<rparr>"
  by (simp_all add: feed_bytes_def)

lemma frames_basic [intro]:
  "frames (retE x) d ys" "frames (failE e) d ys" "frames (liftR r) d ys" "frames (guardE c e) d ys"
  "frames (modifyE (\<lambda>d. d\<lparr>dec_state := st\<rparr>)) d ys"
  "frames (getE dec_lsn) d ys"
  "frames (getE (\<lambda>d. validate_page_header E d h)) d ys"
  by (simp_all add: frames_def feed_bytes_commute validate_page_header_def)

lemma frames_advance_lsn [intro]: "frames (advance_lsn n) d ys"
  unfolding advance_lsn_def
  by (rule frames_bindE; (rule frames_bindE)?) (auto simp: frames_def feed_bytes_commute)

lemma frames_split_to: "n \<le> length (inputbuf d) \<Longrightarrow> frames (split_to n) d ys"
  by (simp add: frames_def split_to_def feed_bytes_def)

lemma frames_complete_record [intro]: "frames (complete_record E rb) d ys"
  unfolding complete_record_def Let_def
  by (auto intro!: frames_thenE frames_bindE)

text \<open>The header.\<close>

lemma read_header_cases:
  "length (inputbuf d) < h \<Longrightarrow> read_header E h d = (Inr False, d)"
  "h \<le> length (inputbuf d) \<Longrightarrow> frames (read_header E h) d ys"
proof -
  show "length (inputbuf d) < h \<Longrightarrow> read_header E h d = (Inr False, d)"
    by (simp add: read_header_def bindE_def)
  assume h: "h \<le> length (inputbuf d)"
  let ?k = "bindE (split_to h) (\<lambda>b.
          bindE (getE (\<lambda>d. validate_page_header E d (page_header_from_bytes b))) (\<lambda>r.
          thenE (liftR r) (thenE (advance_lsn h) (retE True))))"
  have "read_header E h d' = ?k d'" if "h \<le> length (inputbuf d')" for d'
    using that by (simp add: read_header_def bindE_def [of "getE _"])
  moreover have "frames ?k d ys"
    by (auto intro!: frames_bindE frames_thenE frames_split_to [OF h])
  ultimately show "frames (read_header E h) d ys" using h by (simp add: frames_def)
qed

lemma decode_header_run:
  "decode_header E d =
     (if (\<exists>u. dec_state d = SkippingEverything u) \<or> block_offset (dec_lsn d) \<noteq> 0 then (Inr True, d)
      else read_header E (if segment_offset (dec_lsn d) wal_seg = 0 then 40 else 24) d)"
proof -
  have "block_offset (dec_lsn d) \<noteq> 0 \<Longrightarrow> segment_offset (dec_lsn d) wal_seg \<noteq> 0"
  proof -
    have "unat (dec_lsn d) mod 16777216 mod 8192 = unat (dec_lsn d) mod 8192"
      by (rule mod_mod_cancel) simp
    then show "block_offset (dec_lsn d) \<noteq> 0 \<Longrightarrow> segment_offset (dec_lsn d) wal_seg \<noteq> 0"
      by (auto simp: word_unat_eq_iff)
  qed
  then show ?thesis
    by (auto simp: decode_header_def bindE_def XLOG_SIZE_OF_XLOG_LONG_PHD_def
        XLOG_SIZE_OF_XLOG_SHORT_PHD_def split: decoder_state.splits)
qed

lemma read_header_lsn:
  assumes "read_header E h d = (Inr True, d1)" and "h < 2 ^ 64"
  shows "unat (dec_lsn d1) = unat (dec_lsn d) + h"
proof -
  have "wp (read_header E h) (\<lambda>go d'. go \<longrightarrow> unat (dec_lsn d') = unat (dec_lsn d) + h) (\<lambda>_ _. True) d"
    using lsn_add_unat_nat [OF _ assms(2)] by (auto simp: read_header_def wp_simps split: sum.splits)
  from wp_runD [OF this assms(1)] show ?thesis by simp
qed

lemma decode_header_done:
  assumes "decode_header E d = (Inr True, d1)"
  shows "decode_header E (feed_bytes ys d1) = (Inr True, feed_bytes ys d1)"
proof (cases "(\<exists>u. dec_state d = SkippingEverything u) \<or> block_offset (dec_lsn d) \<noteq> 0")
  case True
  then show ?thesis using assms by (auto simp: decode_header_run)
next
  case False
  define h where "h = (if segment_offset (dec_lsn d) wal_seg = 0 then 40 else 24 :: nat)"
  have r: "read_header E h d = (Inr True, d1)" using assms False by (simp add: decode_header_run h_def)
  have "unat (dec_lsn d1) = unat (dec_lsn d) + h" by (rule read_header_lsn [OF r]) (simp add: h_def)
  moreover have "unat (dec_lsn d) mod 8192 = 0" using False by (simp add: word_unat_eq_iff)
  moreover have "(unat (dec_lsn d) + h) mod 8192 = (unat (dec_lsn d) mod 8192 + h) mod 8192"
    by (simp add: mod_add_left_eq)
  moreover have "0 < h" "h < 8192" by (simp_all add: h_def)
  ultimately have "unat (dec_lsn d1) mod 8192 \<noteq> 0" by simp
  then show ?thesis by (simp add: decode_header_run word_unat_eq_iff)
qed

lemma decode_header_frames:
  "decode_header E d = (Inr False, d') \<Longrightarrow> d' = d"
  "fst (decode_header E d) \<noteq> Inr False \<Longrightarrow> frames (decode_header E) d ys"
proof -
  define h where "h = (if segment_offset (dec_lsn d) wal_seg = 0 then 40 else 24 :: nat)"
  have run: "decode_header E d' = read_header E h d'"
    if "dec_lsn d' = dec_lsn d" "dec_state d' = dec_state d"
      "\<not> ((\<exists>u. dec_state d = SkippingEverything u) \<or> block_offset (dec_lsn d) \<noteq> 0)" for d'
    using that by (simp add: decode_header_run h_def)
  show "decode_header E d = (Inr False, d') \<Longrightarrow> d' = d"
    using wp_runD [OF wp_decode_header [of E d]] by fastforce
  show "fst (decode_header E d) \<noteq> Inr False \<Longrightarrow> frames (decode_header E) d ys"
  proof (cases "(\<exists>u. dec_state d = SkippingEverything u) \<or> block_offset (dec_lsn d) \<noteq> 0")
    case False
    assume "fst (decode_header E d) \<noteq> Inr False"
    then have "h \<le> length (inputbuf d)"
      using run [OF refl refl False] read_header_cases(1) [of d h E] by (cases "length (inputbuf d) < h") simp_all
    then show ?thesis
      using read_header_cases(2) [of h d E ys] run [OF refl refl False] run [of "feed_bytes ys d"] False
      by (simp add: frames_def)
  qed (simp add: frames_def decode_header_run)
qed

text \<open>The three bodies.\<close>

lemma body_waiting_needmore: "body_waiting E d = (Inr NeedMore, d') \<Longrightarrow> d' = d"
proof -
  have "wp (body_waiting E) (\<lambda>r d'. r = NeedMore \<longrightarrow> d' = d) (\<lambda>_ _. True) d"
    by (auto simp: body_waiting_def wp_simps Let_def intro!: wp_mono [OF wp_complete_record] split: sum.splits)
  from wp_runD [OF this] show "body_waiting E d = (Inr NeedMore, d') \<Longrightarrow> d' = d" by fastforce
qed

lemma body_reassembling_needmore: "body_reassembling E rb c d = (Inr NeedMore, d') \<Longrightarrow> d' = d"
proof -
  have "wp (body_reassembling E rb c) (\<lambda>r d'. r = NeedMore \<longrightarrow> d' = d) (\<lambda>_ _. True) d"
    by (auto simp: body_reassembling_def wp_simps Let_def intro!: wp_mono [OF wp_complete_record] split: sum.splits)
  from wp_runD [OF this] show "body_reassembling E rb c d = (Inr NeedMore, d') \<Longrightarrow> d' = d" by fastforce
qed

lemma body_skipping_needmore: "body_skipping u d = (Inr NeedMore, d') \<Longrightarrow> d' = d"
proof -
  have "wp (body_skipping u) (\<lambda>r d'. r = NeedMore \<longrightarrow> d' = d) (\<lambda>_ _. True) d"
    by (auto simp: body_skipping_def wp_simps Let_def split: sum.splits)
  from wp_runD [OF this] show "body_skipping u d = (Inr NeedMore, d') \<Longrightarrow> d' = d" by fastforce
qed

lemma decode_body_needmore: "decode_body E d = (Inr NeedMore, d') \<Longrightarrow> d' = d"
  using body_waiting_needmore body_reassembling_needmore body_skipping_needmore
  by (simp add: decode_body_def bindE_def split: decoder_state.splits)

lemma body_reassembling_frames:
  assumes "fst (body_reassembling E rb c d) \<noteq> Inr NeedMore"
  shows "frames (body_reassembling E rb c) d ys"
proof -
  define n where "n = unat (min c (pageleft d))"
  have n: "n \<le> length (inputbuf d)"
    using assms by (auto simp: body_reassembling_def bindE_def [of "getE _"] Let_def n_def split: if_splits)
  let ?k = "bindE (split_to n) (\<lambda>piece.
      thenE (advance_lsn n)
        (if c - word_of_nat n \<noteq> 0
         then thenE (modifyE (\<lambda>d. d\<lparr>dec_state := ReassemblingRecord (rb @ piece) (c - word_of_nat n)\<rparr>)) (retE Again)
         else thenE (modifyE (\<lambda>d. d\<lparr>dec_state := ReassemblingRecord [] c\<rparr>))
              (bindE (complete_record E (rb @ piece)) (\<lambda>r. retE (Got r)))))"
  have "body_reassembling E rb c d' = ?k d'"
    if pl: "pageleft d' = pageleft d" and len: "n \<le> length (inputbuf d')" for d'
  proof -
    have "(length (inputbuf d') < n) = False" using len by simp
    then show ?thesis
      unfolding body_reassembling_def bindE_def [of "getE _"] run_getE prod.case sum.case Let_def
        id_apply pl n_def [symmetric] by simp
  qed
  moreover have "frames ?k d ys"
    by (auto intro!: frames_bindE frames_thenE frames_split_to [OF n])
  ultimately show ?thesis using n by (simp add: frames_def)
qed

lemma body_skipping_frames:
  assumes "fst (body_skipping u d) \<noteq> Inr NeedMore"
  shows "frames (body_skipping u) d ys"
proof (cases "dec_lsn d \<le> u")
  case True
  define n where "n = unat (u - dec_lsn d)"
  have n: "n \<le> length (inputbuf d)"
    using assms True by (auto simp: body_skipping_def bindE_def [of "getE _"] thenE_def bindE_def [of "guardE _ _"]
        Let_def n_def split: if_splits)
  let ?k = "bindE (split_to n) (\<lambda>_. thenE (advance_lsn n)
              (thenE (modifyE (\<lambda>d. d\<lparr>dec_state := WaitingForRecord\<rparr>)) (retE Again)))"
  have "body_skipping u d' = ?k d'" if "dec_lsn d' = dec_lsn d" "n \<le> length (inputbuf d')" for d'
    using that True by (simp add: body_skipping_def bindE_def [of "getE _"] thenE_def bindE_def [of "guardE _ _"]
        Let_def n_def)
  moreover have "frames ?k d ys"
    by (auto intro!: frames_bindE frames_thenE frames_split_to [OF n])
  ultimately show ?thesis using n by (simp add: frames_def)
next
  case False
  then show ?thesis by (simp add: frames_def body_skipping_def bindE_def thenE_def)
qed

text \<open>Two outcomes agree if the results are equal and, on success, the decoders too.\<close>

definition agree :: "'a res \<times> 's \<Rightarrow> 'a res \<times> 's \<Rightarrow> bool" where
  "agree a b \<longleftrightarrow> fst a = fst b \<and> (is_ok (fst a) \<longrightarrow> snd a = snd b)"

lemma agree_refl [simp]: "agree a a"
  by (simp add: agree_def)

lemma complete_record_agree:
  "agree (complete_record E rb (d\<lparr>dec_state := st\<rparr>)) (complete_record E rb d)"
  by (auto simp: complete_record_def agree_def Let_def bindE_def thenE_def split: sum.splits)

lemma decoder_update_order:
  "d\<lparr>dec_lsn := l, inputbuf := b\<rparr> = d\<lparr>inputbuf := b, dec_lsn := l\<rparr>"
  "d\<lparr>dec_state := st, dec_lsn := l\<rparr> = d\<lparr>dec_lsn := l, dec_state := st\<rparr>"
  "d\<lparr>dec_state := st, inputbuf := b\<rparr> = d\<lparr>inputbuf := b, dec_state := st\<rparr>"
  for d :: WalStreamDecoder
  by simp_all

lemma agree_bind_Got:
  assumes "agree (m d) (k d')"
  shows "agree (bindE m (\<lambda>x. retE (Got x)) d) (bindE k (\<lambda>x. retE (Got x)) d')"
  using assms by (cases "m d"; cases "k d'") (auto simp: agree_def bindE_def split: sum.splits)

definition finish_record :: "wal_env \<Rightarrow> nat \<Rightarrow> lsn res \<Rightarrow> (WalStreamDecoder, poll_step) prog" where
  "finish_record E n r d =
     (case r of Inl e \<Rightarrow> (Inl e, d)
      | Inr l \<Rightarrow> bindE (complete_record E (take n (inputbuf d))) (\<lambda>x. retE (Got x))
                  (d\<lparr>dec_lsn := l, inputbuf := drop n (inputbuf d)\<rparr>))"

lemma body_waiting_run:
  assumes "4 \<le> length (inputbuf d)" and "tot = le_word (take 4 (inputbuf d))" and "24 \<le> unat (tot :: u32)"
  shows "body_waiting E d =
    (if unat tot \<le> length (inputbuf d) \<and> tot \<le> pageleft d
     then finish_record E (unat tot) (lsn_add (dec_lsn d) (word_of_nat (unat tot))) d
     else (Inr Again, d\<lparr>dec_state := ReassemblingRecord [] tot\<rparr>))"
  using assms
  by (auto simp: body_waiting_def finish_record_def Let_def bindE_def thenE_def split_to_def advance_lsn_def
      XLOG_SIZE_OF_XLOG_RECORD_def split: sum.splits)

lemma finish_record_slow:
  assumes "unat tot \<le> length (inputbuf d)" and "tot \<le> pageleft d"
  shows "agree (body_reassembling E [] tot d)
           (finish_record E (unat tot) (lsn_add (dec_lsn d) (word_of_nat (unat tot))) d)"
proof (cases "lsn_add (dec_lsn d) (word_of_nat (unat tot))")
  case (Inl e)
  then show ?thesis using assms
    by (simp add: body_reassembling_def finish_record_def bindE_def thenE_def split_to_def advance_lsn_def
        agree_def Let_def min_def)
next
  case (Inr l)
  let ?d = "d\<lparr>inputbuf := drop (unat tot) (inputbuf d), dec_lsn := l\<rparr>"
  let ?rb = "take (unat tot) (inputbuf d)"
  have slow: "body_reassembling E [] tot d =
      bindE (complete_record E ?rb) (\<lambda>x. retE (Got x)) (?d\<lparr>dec_state := ReassemblingRecord [] tot\<rparr>)"
    using assms Inr
    by (simp add: body_reassembling_def bindE_def [of "getE _"] bindE_def [of "split_to _"] thenE_def
        split_to_def advance_lsn_def Let_def min_def)
  have fast: "finish_record E (unat tot) (Inr l) d = bindE (complete_record E ?rb) (\<lambda>x. retE (Got x)) ?d"
    by (simp add: finish_record_def decoder_update_order)
  show ?thesis unfolding slow fast Inr by (rule agree_bind_Got) (rule complete_record_agree)
qed

lemma finish_record_result:
  "fst (finish_record E n r d) \<noteq> Inr NeedMore" "fst (finish_record E n r d) \<noteq> Inr Again"
  by (auto simp: finish_record_def bindE_def split: sum.splits prod.splits)

lemma decode_step_body:
  "decode_header E d = (Inr True, d) \<Longrightarrow> decode_step E d = decode_body E d"
  by (simp add: decode_step_def bindE_def)

lemma decode_body_run:
  "dec_state d = WaitingForRecord \<Longrightarrow> decode_body E d = body_waiting E d"
  "dec_state d = ReassemblingRecord rb c \<Longrightarrow> decode_body E d = body_reassembling E rb c d"
  "dec_state d = SkippingEverything u \<Longrightarrow> decode_body E d = body_skipping u d"
  by (simp_all add: decode_body_def bindE_def)

text \<open>The fast path for a record that lies within its page is the slow path taken at once.\<close>

lemma fast_path_agrees:
  assumes "dec_state d = WaitingForRecord" and "decode_header E d = (Inr True, d)"
    and "4 \<le> length (inputbuf d)" and tot: "tot = le_word (take 4 (inputbuf d))" and "24 \<le> unat (tot :: u32)"
    and "unat tot \<le> length (inputbuf d)" and "tot \<le> pageleft d"
  shows "agree (poll_decode E d) (poll_decode E (d\<lparr>dec_state := ReassemblingRecord [] tot\<rparr>))"
proof -
  let ?d = "d\<lparr>dec_state := ReassemblingRecord [] tot\<rparr>"
  let ?f = "finish_record E (unat tot) (lsn_add (dec_lsn d) (word_of_nat (unat tot)))"
  have "block_offset (dec_lsn d) \<noteq> 0 \<or> decode_header E ?d = (Inr True, ?d)"
    using assms(1,2) read_header_lsn [of E 40 d d] read_header_lsn [of E 24 d d]
    by (auto simp: decode_header_run split: if_splits)
  then have "decode_header E ?d = (Inr True, ?d)" by (auto simp: decode_header_run)
  then have slow: "decode_step E ?d = body_reassembling E [] tot ?d"
    by (simp add: decode_step_body decode_body_run(2))
  have fast: "decode_step E d = ?f d"
    using assms(6,7) body_waiting_run [OF assms(3-5)]
    by (simp add: decode_step_body [OF assms(2)] decode_body_run(1) [OF assms(1)])
  have "agree (body_reassembling E [] tot ?d) (?f ?d)"
    using finish_record_slow [of tot ?d E] assms(6,7) by (simp add: pageleft_def)
  moreover have "agree (?f ?d) (?f d)"
  proof (cases "lsn_add (dec_lsn d) (word_of_nat (unat tot))")
    case (Inr l)
    let ?e = "d\<lparr>inputbuf := drop (unat tot) (inputbuf d), dec_lsn := l\<rparr>"
    have "agree (bindE (complete_record E (take (unat tot) (inputbuf d))) (\<lambda>x. retE (Got x))
                   (?e\<lparr>dec_state := ReassemblingRecord [] tot\<rparr>))
                (bindE (complete_record E (take (unat tot) (inputbuf d))) (\<lambda>x. retE (Got x)) ?e)"
      by (rule agree_bind_Got) (rule complete_record_agree)
    then show ?thesis using Inr by (simp add: finish_record_def decoder_update_order)
  qed (simp add: finish_record_def agree_def)
  ultimately have a: "agree (decode_step E d) (decode_step E ?d)"
    unfolding slow fast by (auto simp: agree_def)
  then show ?thesis
    using finish_record_result [of E "unat tot" _ d] fast
    by (auto simp: poll_decode.simps [of E d] poll_decode.simps [of E ?d] agree_def
        split: prod.splits sum.splits poll_step.splits)
qed

lemma finish_record_frames:
  assumes "n \<le> length (inputbuf d)"
  shows "frames (finish_record E n r) d ys"
proof (cases r)
  case (Inr l)
  have "frames (bindE (complete_record E rb) (\<lambda>x. retE (Got x))) d' ys" for rb d'
    by (auto intro!: frames_bindE)
  from this [of "take n (inputbuf d)" "d\<lparr>dec_lsn := l, inputbuf := drop n (inputbuf d)\<rparr>"] Inr assms
  show ?thesis by (simp add: frames_def finish_record_def feed_bytes_def)
qed (simp add: frames_def finish_record_def)

lemma body_waiting_frames:
  assumes "fst (body_waiting E d) \<noteq> Inr NeedMore" and "fst (body_waiting E d) \<noteq> Inr Again"
  shows "frames (body_waiting E) d ys"
proof -
  define tot where "tot = (le_word (take 4 (inputbuf d)) :: u32)"
  have len: "4 \<le> length (inputbuf d)"
    using assms(1) by (auto simp: body_waiting_def bindE_def [of "getE _"] split: if_splits)
  have tot': "tot = le_word (take 4 (inputbuf (feed_bytes ys d)))" using len by (simp add: tot_def)
  show ?thesis
  proof (cases "24 \<le> unat tot")
    case True
    note run = body_waiting_run [OF len tot_def True, of E]
    note run' = body_waiting_run [OF _ tot' True, of E]
    have fits: "unat tot \<le> length (inputbuf d)" "tot \<le> pageleft d"
      using assms(2) run by (auto split: if_splits)
    then show ?thesis
      using finish_record_frames [OF fits(1)] run run' len by (simp add: frames_def)
  next
    case False
    then show ?thesis using len
      by (simp add: frames_def body_waiting_def bindE_def tot_def Let_def XLOG_SIZE_OF_XLOG_RECORD_def)
  qed
qed

lemma body_waiting_again:
  assumes "body_waiting E d = (Inr Again, d')" and "dec_state d = WaitingForRecord"
    and "decode_header E (feed_bytes ys d) = (Inr True, feed_bytes ys d)"
  shows "body_waiting E (feed_bytes ys d) = (Inr Again, feed_bytes ys d') \<or>
         agree (poll_decode E (feed_bytes ys d)) (poll_decode E (feed_bytes ys d'))"
proof -
  define tot where "tot = (le_word (take 4 (inputbuf d)) :: u32)"
  have len: "4 \<le> length (inputbuf d)" and ge: "24 \<le> unat tot"
    using assms(1) by (auto simp: body_waiting_def bindE_def [of "getE _"] Let_def tot_def
        XLOG_SIZE_OF_XLOG_RECORD_def split: if_splits)
  have tot': "tot = le_word (take 4 (inputbuf (feed_bytes ys d)))" using len by (simp add: tot_def)
  have d': "d' = d\<lparr>dec_state := ReassemblingRecord [] tot\<rparr>"
    using assms(1) body_waiting_run [OF len tot_def ge, of E] finish_record_result(2)
    by (auto split: if_splits) (metis fst_conv)
  have run: "body_waiting E (feed_bytes ys d) =
     (if unat tot \<le> length (inputbuf d @ ys) \<and> tot \<le> pageleft d
      then finish_record E (unat tot) (lsn_add (dec_lsn d) (word_of_nat (unat tot))) (feed_bytes ys d)
      else (Inr Again, feed_bytes ys d'))"
    using body_waiting_run [OF _ tot' ge, of E] len by (simp add: d' feed_bytes_commute)
  show ?thesis
  proof (cases "unat tot \<le> length (inputbuf d @ ys) \<and> tot \<le> pageleft d")
    case True
    then show ?thesis
      using fast_path_agrees [OF _ assms(3) _ tot' ge] assms(2) len by (simp add: d' feed_bytes_commute)
  next
    case False
    then show ?thesis using run unfolding if_not_P [OF False] by simp
  qed
qed

lemma decode_step_fed:
  assumes "decode_step E d = (r, d')"
  shows "case r of
      Inl _ \<Rightarrow> decode_step E (feed_bytes ys d) = (r, feed_bytes ys d')
    | Inr NeedMore \<Rightarrow> decode_step E (feed_bytes ys d) = decode_step E (feed_bytes ys d')
    | Inr (Got _) \<Rightarrow> decode_step E (feed_bytes ys d) = (r, feed_bytes ys d')
    | Inr Again \<Rightarrow> decode_step E (feed_bytes ys d) = (r, feed_bytes ys d') \<or>
        agree (poll_decode E (feed_bytes ys d)) (poll_decode E (feed_bytes ys d'))"
proof -
  obtain h d1 where h: "decode_header E d = (h, d1)" by fastforce
  consider (err) e where "h = Inl e" | (more) "h = Inr False" | (go) "h = Inr True" by (cases h) auto
  then show ?thesis
  proof cases
    case err
    then show ?thesis using assms h decode_header_frames(2) [of E d ys]
      by (auto simp: decode_step_def bindE_def frames_def)
  next
    case more
    then show ?thesis using assms h decode_header_frames(1) [of E d d1] by (auto simp: decode_step_def bindE_def)
  next
    case go
    have hy: "decode_header E (feed_bytes ys d) = (Inr True, feed_bytes ys d1)"
      using decode_header_frames(2) [of E d ys] h go by (simp add: frames_def)
    have hd: "decode_header E (feed_bytes ys d1) = (Inr True, feed_bytes ys d1)"
      using decode_header_done h go by blast
    have st: "decode_step E (feed_bytes ys d) = decode_body E (feed_bytes ys d1)"
      using hy by (simp add: decode_step_def bindE_def)
    have st1: "decode_step E (feed_bytes ys d1) = decode_body E (feed_bytes ys d1)"
      by (rule decode_step_body [OF hd])
    have poll: "poll_decode E (feed_bytes ys d) = poll_decode E (feed_bytes ys d1)"
      using st st1 by (simp add: poll_decode.simps)
    have b: "decode_body E d1 = (r, d')" using assms h go by (simp add: decode_step_def bindE_def)
    show ?thesis
    proof (cases "r = Inr NeedMore \<or> (r = Inr Again \<and> dec_state d1 = WaitingForRecord)")
      case True
      then show ?thesis
        using b st st1 poll decode_body_needmore [of E d1 d'] body_waiting_again [OF _ _ hd]
        by (auto simp: decode_body_run)
    next
      case False
      then have "frames (decode_body E) d1 ys"
        using b body_waiting_frames [of E d1 ys] body_reassembling_frames [of E _ _ d1 ys]
          body_skipping_frames [of _ d1 ys]
        by (cases "dec_state d1") (auto simp: decode_body_run frames_def)
      then show ?thesis using b st False
        by (auto simp: frames_def split: sum.splits poll_step.splits)
    qed
  qed
qed

lemma poll_decode_fed:
  "case poll_decode E d of
     (Inl e, _) \<Rightarrow> fst (poll_decode E (feed_bytes ys d)) = Inl e
   | (Inr None, d') \<Rightarrow> agree (poll_decode E (feed_bytes ys d)) (poll_decode E (feed_bytes ys d'))
   | (Inr (Some x), d') \<Rightarrow> poll_decode E (feed_bytes ys d) = (Inr (Some x), feed_bytes ys d')"
proof (induction E d rule: poll_decode.induct)
  case (1 E d)
  obtain r d1 where st: "decode_step E d = (r, d1)" by fastforce
  note fed = decode_step_fed [OF st, of ys]
  show ?case
  proof (cases r)
    case (Inl e)
    then show ?thesis using st fed by (simp add: poll_decode.simps [of E d] poll_decode.simps [of E "feed_bytes ys d"])
  next
    case (Inr q)
    show ?thesis
    proof (cases q)
      case NeedMore
      then show ?thesis using st fed Inr
        by (simp add: poll_decode.simps [of E d] poll_decode.simps [of E "feed_bytes ys d"]
            poll_decode.simps [of E "feed_bytes ys d1"])
    next
      case (Got x)
      then show ?thesis using st fed Inr
        by (simp add: poll_decode.simps [of E d] poll_decode.simps [of E "feed_bytes ys d"])
    next
      case Again
      have p: "poll_decode E d = poll_decode E d1" using st Inr Again by (simp add: poll_decode.simps [of E d])
      have IH: "case poll_decode E d1 of
          (Inl e, _) \<Rightarrow> fst (poll_decode E (feed_bytes ys d1)) = Inl e
        | (Inr None, d') \<Rightarrow> agree (poll_decode E (feed_bytes ys d1)) (poll_decode E (feed_bytes ys d'))
        | (Inr (Some x), d') \<Rightarrow> poll_decode E (feed_bytes ys d1) = (Inr (Some x), feed_bytes ys d')"
        by (rule 1 [OF st [symmetric] Inr Again])
      have a: "agree (poll_decode E (feed_bytes ys d)) (poll_decode E (feed_bytes ys d1))"
        using fed Inr Again by (auto simp: poll_decode.simps [of E "feed_bytes ys d"])
      show ?thesis unfolding p using IH a
        by (auto simp: agree_def prod_eq_iff split: prod.splits sum.splits option.splits)
    qed
  qed
qed

lemma drain_agree:
  assumes "agree (poll_decode E a) (poll_decode E b)"
  shows "fst (drain E a) = fst (drain E b) \<and> fst (snd (drain E a)) = fst (snd (drain E b)) \<and>
         (fst (snd (drain E a)) = None \<longrightarrow> drain E a = drain E b)"
  using assms unfolding drain.simps [of E a] drain.simps [of E b]
  by (cases "poll_decode E a"; cases "poll_decode E b")
    (auto simp: agree_def split: sum.splits option.splits prod.splits)

lemma drain_fed:
  "drain E d = (rs, None, d') \<Longrightarrow>
     fst (drain E (feed_bytes ys d)) = rs @ fst (drain E (feed_bytes ys d')) \<and>
     fst (snd (drain E (feed_bytes ys d))) = fst (snd (drain E (feed_bytes ys d'))) \<and>
     (fst (snd (drain E (feed_bytes ys d'))) = None \<longrightarrow>
        snd (snd (drain E (feed_bytes ys d))) = snd (snd (drain E (feed_bytes ys d'))))"
  "drain E d = (rs, Some e, d') \<Longrightarrow>
     fst (drain E (feed_bytes ys d)) = rs \<and> fst (snd (drain E (feed_bytes ys d))) = Some e"
proof (induction E d arbitrary: rs rule: drain.induct)
  case (1 E d)
  obtain r d1 where p: "poll_decode E d = (r, d1)" by fastforce
  note fed = poll_decode_fed [of E ys d, unfolded p]
  {
    case 1
    then show ?case
    proof (cases "\<exists>x. r = Inr (Some x)")
      case True
      then obtain x where r: "r = Inr (Some x)" by blast
      obtain rs' where d1: "drain E d1 = (rs', None, d')" and rs: "rs = x # rs'"
        using 1 p r by (auto simp: drain.simps [of E d] split: prod.splits)
      have "poll_decode E (feed_bytes ys d) = (Inr (Some x), feed_bytes ys d1)" using fed r by simp
      then show ?thesis using "1.IH"(1) [OF p [symmetric] r refl d1] rs
        by (auto simp: drain.simps [of E "feed_bytes ys d"] split: prod.splits)
    next
      case False
      then have r: "r = Inr None" "rs = []" "d' = d1"
        using 1 p by (auto simp: drain.simps [of E d] split: prod.splits sum.splits option.splits)
      then have "agree (poll_decode E (feed_bytes ys d)) (poll_decode E (feed_bytes ys d'))" using fed by simp
      from drain_agree [OF this] show ?thesis unfolding r(2) append_Nil by metis
    qed
  next
    case 2
    then show ?case
    proof (cases "\<exists>x. r = Inr (Some x)")
      case True
      then obtain x where r: "r = Inr (Some x)" by blast
      obtain rs' where d1: "drain E d1 = (rs', Some e, d')" and rs: "rs = x # rs'"
        using 2 p r by (auto simp: drain.simps [of E d] split: prod.splits)
      have "poll_decode E (feed_bytes ys d) = (Inr (Some x), feed_bytes ys d1)" using fed r by simp
      then show ?thesis using "1.IH"(2) [OF p [symmetric] r refl d1] rs
        by (auto simp: drain.simps [of E "feed_bytes ys d"] split: prod.splits)
    next
      case False
      then have r: "r = Inl e" "rs = []"
        using 2 p by (auto simp: drain.simps [of E d] split: prod.splits sum.splits option.splits)
      then show ?thesis using fed by (auto simp: drain.simps [of E "feed_bytes ys d"] split: prod.splits sum.splits)
    qed
  }
qed

text \<open>How the callers use the decoder: feed a piece, take all records it completes, go on.\<close>

fun decode_pieces ::
  "wal_env \<Rightarrow> WalStreamDecoder \<Rightarrow> bytes list \<Rightarrow> (lsn \<times> bytes) list \<times> err option \<times> WalStreamDecoder" where
  "decode_pieces E d [] = ([], None, d)"
| "decode_pieces E d (c # cs) =
     (case drain E (feed_bytes c d) of
        (rs, Some e, d') \<Rightarrow> (rs, Some e, d')
      | (rs, None, d') \<Rightarrow> (case decode_pieces E d' cs of (rs', e, d'') \<Rightarrow> (rs @ rs', e, d'')))"

lemma feed_bytes_append: "feed_bytes ys (feed_bytes xs d) = feed_bytes (xs @ ys) d"
  by (simp add: feed_bytes_def)

lemma drain_idle:
  assumes "drain E d = (rs, None, d')"
  shows "drain E d' = ([], None, d')"
proof -
  have "fst (drain E d) = rs @ fst (drain E d') \<and> fst (snd (drain E d)) = fst (snd (drain E d')) \<and>
    (fst (snd (drain E d')) = None \<longrightarrow> snd (snd (drain E d)) = snd (snd (drain E d')))"
    using drain_fed(1) [OF assms, of "[]"] by (simp add: feed_bytes_def)
  then show ?thesis using assms by (auto simp: prod_eq_iff)
qed

text \<open>C9: Decoding does not depend on how the WAL stream is cut into pieces: feeding it piece by piece
  and taking every completed record after each piece yields the same records with the same end
  positions, and the same error if there is one, as feeding the whole stream at once; if there is
  none the decoder is left in the same state, its position and its unfinished record included.\<close>

theorem decode_pieces_concat:
  "case decode_pieces E d (c # cs) of
     (rs, None, d') \<Rightarrow> drain E (feed_bytes (concat (c # cs)) d) = (rs, None, d')
   | (rs, Some e, _) \<Rightarrow> \<exists>d'. drain E (feed_bytes (concat (c # cs)) d) = (rs, Some e, d')"
proof (induction cs arbitrary: c d)
  case Nil
  show ?case by (cases "drain E (feed_bytes c d)") (auto split: option.splits)
next
  case (Cons c' cs)
  obtain rs o1 d' where dr: "drain E (feed_bytes c d) = (rs, o1, d')" by (metis prod_cases3)
  have f: "feed_bytes (concat (c # c' # cs)) d = feed_bytes (concat (c' # cs)) (feed_bytes c d)"
    by (simp add: feed_bytes_append)
  show ?case
  proof (cases o1)
    case None
    obtain rs' o2 d2 where p: "decode_pieces E d' (c' # cs) = (rs', o2, d2)" by (metis prod_cases3)
    then have "decode_pieces E d (c # c' # cs) = (rs @ rs', o2, d2)" using dr None by simp
    then show ?thesis
      using drain_fed(1) [OF dr [unfolded None], of "concat (c' # cs)"] Cons.IH [of c' d', unfolded p]
      unfolding f by (auto simp del: concat.simps simp: prod_eq_iff split: option.splits)
  next
    case (Some e)
    then have "decode_pieces E d (c # c' # cs) = (rs, Some e, d')" using dr by simp
    then show ?thesis
      using drain_fed(2) [OF dr [unfolded Some], of "concat (c' # cs)"] unfolding f
      by (auto simp del: concat.simps simp: prod_eq_iff)
  qed
qed

text \<open>
  Polling never loses or invents input: the position up to which the decoder has been fed is
  unchanged, and it is what \<open>available\<close> reports.
\<close>

lemma available_fed_pos: "fed_pos d < 2 ^ 64 \<Longrightarrow> available d = Inr (word_of_nat (fed_pos d))"
  by (simp add: available_def fed_pos_def lsn_add_def checked_add_def unat_of_nat)

lemma available_Inr: "available d = Inr a \<Longrightarrow> length (inputbuf d) < 2 ^ 64 \<Longrightarrow> unat a = fed_pos d"
  by (simp add: available_def lsn_add_Inr fed_pos_def unat_word_ariths unat_of_nat)

lemma drain_fed_pos: "drain E d = (rs, None, d') \<Longrightarrow> fed_pos d' = fed_pos d"
proof (induction E d arbitrary: rs rule: drain.induct)
  case (1 E d)
  obtain r d1 where p: "poll_decode E d = (r, d1)" by fastforce
  show ?case
  proof (cases "\<exists>x. r = Inr (Some x)")
    case True
    then obtain x where r: "r = Inr (Some x)" by blast
    obtain rs' where "drain E d1 = (rs', None, d')"
      using 1(2) p r by (auto simp: drain.simps [of E d] split: prod.splits)
    then show ?thesis using 1(1) [OF p [symmetric] r refl] poll_decode_progress [of E d "Some x" d1] p r by simp
  next
    case False
    then have "r = Inr None" "d' = d1"
      using 1(2) p by (auto simp: drain.simps [of E d] split: prod.splits sum.splits option.splits)
    then show ?thesis using poll_decode_progress [of E d None d1] p by simp
  qed
qed

end
