(* ===== verification/Wal_Generator.thy ===== *)
theory Wal_Generator
  imports Wal_Decoder
begin

text \<open>
  The WAL generator (\<open>libs/postgres_ffi/src/wal_generator.rs\<close>): record encoding, page headers
  at page and segment boundaries, padding; and that the streaming decoder reads back exactly the
  records it writes.
\<close>

unbundle bit_operations_syntax

section \<open>Generator\<close>

record Record =
  rec_rmid :: u8
  rec_info :: u8
  rec_data :: bytes

definition XLR_BLOCK_ID_DATA_SHORT :: u8 where
  "XLR_BLOCK_ID_DATA_SHORT = 255"

definition XLR_BLOCK_ID_DATA_LONG :: u8 where
  "XLR_BLOCK_ID_DATA_LONG = 254"

definition data_header :: "bytes \<Rightarrow> bytes" where
  "data_header data =
     (if data = [] then []
      else if length data \<le> 255 then [XLR_BLOCK_ID_DATA_SHORT, word_of_nat (length data)]
      else XLR_BLOCK_ID_DATA_LONG # word_le 4 (word_of_nat (length data) :: u32))"

definition record_encode :: "wal_env \<Rightarrow> lsn \<Rightarrow> Record \<Rightarrow> bytes" where
  "record_encode E prev_lsn r =
     (let dh = data_header (rec_data r);
          header = \<lparr>xl_tot_len = word_of_nat (XLOG_SIZE_OF_XLOG_RECORD + length dh + length (rec_data r)),
                    xl_xid = 0, xl_prev = prev_lsn, xl_info = rec_info r, xl_rmid = rec_rmid r,
                    xl_padding = 0, xl_crc = 0\<rparr>;
          crc = crc32c_append E (crc32c_append E (crc32c_append E 0 dh) (rec_data r))
                  (take XLOG_RECORD_CRC_OFFS (xlog_record_encode header))
      in xlog_record_encode (header\<lparr>xl_crc := crc\<rparr>) @ dh @ rec_data r)"

definition page_header_at :: "wal_env \<Rightarrow> PgMajorVersion \<Rightarrow> bool \<Rightarrow> nat \<Rightarrow> lsn \<Rightarrow> bytes" where
  "page_header_at E ver cont rem l =
     (let info = XLP_BKP_REMOVABLE OR (if cont then XLP_FIRST_IS_CONTRECORD else 0);
          hdr = \<lparr>xlp_magic = ucast (xlog_page_magic E ver), xlp_info = info, xlp_tli = 1,
                 xlp_pageaddr = l, xlp_rem_len = (if cont then word_of_nat rem else 0),
                 xlp_padding = 0\<rparr>
      in if segment_offset l wal_seg = 0
         then long_page_header_encode
                \<lparr>xlp_std = hdr\<lparr>xlp_info := info OR XLP_LONG_HEADER\<rparr>, xlp_sysid = 0,
                 xlp_seg_size = word_of_nat WAL_SEGMENT_SIZE, xlp_xlog_blcksz = 8192\<rparr>
         else page_header_encode hdr)"

text \<open>The loop: a header at a page boundary, then as much of the record as the page holds.\<close>

function (sequential) insert_pages_loop ::
  "wal_env \<Rightarrow> PgMajorVersion \<Rightarrow> nat \<Rightarrow> bytes \<Rightarrow> lsn \<Rightarrow> bytes res" where
  "insert_pages_loop E ver reclen remaining l =
     (if remaining = [] then Inr []
      else
        let hdr = (if block_offset l = 0
                   then page_header_at E ver (length remaining < reclen) (length remaining) l else [])
        in bind_res (lsn_add l (word_of_nat (length hdr))) (\<lambda>l1.
           let k = min (unat (remaining_in_block l1)) (length remaining)
           in bind_res (lsn_add l1 (word_of_nat k)) (\<lambda>l2.
              map_res (\<lambda>pages. hdr @ take k remaining @ pages)
                (insert_pages_loop E ver reclen (drop k remaining) l2))))"
  by pat_completeness auto
termination
proof (relation "measure (\<lambda>(E, ver, reclen, remaining, l). length remaining)")
  fix E ver reclen l x xa xb xc
  fix remaining :: bytes
  assume "remaining \<noteq> []" and "xb = min (unat (remaining_in_block xa)) (length remaining)"
  then show "((E, ver, reclen, drop xb remaining, xc), E, ver, reclen, remaining, l)
      \<in> measure (\<lambda>(E, ver, reclen, remaining, l). length remaining)"
    by (simp add: unat_remaining_in_block min_def)
qed simp

declare insert_pages_loop.simps [simp del]

definition insert_pages :: "wal_env \<Rightarrow> PgMajorVersion \<Rightarrow> bytes \<Rightarrow> lsn \<Rightarrow> bytes res" where
  "insert_pages E ver rb l =
     (if length rb \<le> unat (remaining_in_block l) \<and> 0 < block_offset l then Inr rb
      else insert_pages_loop E ver (length rb) rb l)"

definition pad_record :: "bytes \<Rightarrow> lsn \<Rightarrow> bytes res" where
  "pad_record rb l =
     map_res (\<lambda>l'. rb @ replicate (unat (calc_padding l' 8)) 0)
       (lsn_add l (word_of_nat (length rb)))"

record WalGenerator =
  gen_lsn :: lsn
  gen_prev_lsn :: lsn

definition append_record ::
  "wal_env \<Rightarrow> PgMajorVersion \<Rightarrow> Record \<Rightarrow> (WalGenerator, lsn \<times> bytes) prog" where
  "append_record E ver r =
     bindE (getE id) (\<lambda>g.
     bindE (liftR (insert_pages E ver (record_encode E (gen_prev_lsn g) r) (gen_lsn g))) (\<lambda>pages.
     bindE (liftR (pad_record pages (gen_lsn g))) (\<lambda>wal.
     thenE (modifyE (\<lambda>g. g\<lparr>gen_prev_lsn := gen_lsn g\<rparr>))
     (bindE (liftR (lsn_add (gen_lsn g) (word_of_nat (length wal)))) (\<lambda>l'.
     thenE (modifyE (\<lambda>g. g\<lparr>gen_lsn := l'\<rparr>))
     (retE (gen_lsn g, wal)))))))"

text \<open>Iterating over a list of records.\<close>

primrec generate :: "wal_env \<Rightarrow> PgMajorVersion \<Rightarrow> Record list \<Rightarrow> (WalGenerator, bytes) prog" where
  "generate E ver [] = retE []"
| "generate E ver (r # rs) =
     bindE (append_record E ver r) (\<lambda>(_, wal).
     bindE (generate E ver rs) (\<lambda>more. retE (wal @ more)))"

section \<open>Decoding generated WAL\<close>

text \<open>What the crate documents of \<open>crc32c_append\<close>: it continues a checksum.\<close>

definition crc_continues :: "wal_env \<Rightarrow> bool" where
  "crc_continues E \<longleftrightarrow>
     (\<forall>c a b. crc32c_append E (crc32c_append E c a) b = crc32c_append E c (a @ b))"

definition is_switch :: "Record \<Rightarrow> bool" where
  "is_switch r \<longleftrightarrow> rec_info r = XLOG_SWITCH \<and> rec_rmid r = RM_XLOG_ID"

lemma length_record_encode [simp]:
  "length (record_encode E p r) = 24 + length (data_header (rec_data r)) + length (rec_data r)"
  by (simp add: record_encode_def Let_def)

lemma field_0_4: "le_word (take 4 b) = field 0 4 b"
  by (simp add: field_def)

lemma record_encode_tot_len:
  "le_word (take 4 (record_encode E p r @ b)) = (word_of_nat (length (record_encode E p r)) :: u32)"
  by (simp add: field_0_4 record_encode_def Let_def xlog_record_encode_def field_layout
      XLOG_SIZE_OF_XLOG_RECORD_def)

lemma take_20_header: "take 20 (xlog_record_encode (h\<lparr>xl_crc := c\<rparr>)) = take 20 (xlog_record_encode h)"
  by (simp add: xlog_record_encode_def)

lemma complete_record_generated:
  assumes "crc_continues E" and "\<not> is_switch r"
  shows "complete_record E (record_encode E p r) d =
    (Inr (align (dec_lsn d), record_encode E p r), d\<lparr>dec_state := SkippingEverything (align (dec_lsn d))\<rparr>)"
proof -
  let ?dh = "data_header (rec_data r)"
  define h where "h = \<lparr>xl_tot_len = word_of_nat (24 + length ?dh + length (rec_data r)),
      xl_xid = 0, xl_prev = p, xl_info = rec_info r, xl_rmid = rec_rmid r, xl_padding = 0, xl_crc = 0\<rparr>"
  define c where "c = crc32c_append E (crc32c_append E (crc32c_append E 0 ?dh) (rec_data r))
                  (take 20 (xlog_record_encode h))"
  have enc: "record_encode E p r = xlog_record_encode (h\<lparr>xl_crc := c\<rparr>) @ ?dh @ rec_data r"
    by (simp add: record_encode_def Let_def h_def c_def XLOG_SIZE_OF_XLOG_RECORD_def XLOG_RECORD_CRC_OFFS_def)
  have parts: "take 24 (record_encode E p r) = xlog_record_encode (h\<lparr>xl_crc := c\<rparr>)"
    "drop 24 (record_encode E p r) = ?dh @ rec_data r"
    "take 20 (record_encode E p r) = take 20 (xlog_record_encode h)"
    by (simp_all add: enc take_20_header)
  have rec: "xlog_record_from_slice (xlog_record_encode (h\<lparr>xl_crc := c\<rparr>)) = h\<lparr>xl_crc := c\<rparr>"
    using xlog_record_roundtrip [of "h\<lparr>xl_crc := c\<rparr>" "[]"] by simp
  have crc: "crc32c_append E (crc32c_append E 0 (?dh @ rec_data r)) (take 20 (xlog_record_encode h)) = c"
    using assms(1) by (simp add: c_def crc_continues_def)
  have sw: "\<not> is_xlog_switch_record (h\<lparr>xl_crc := c\<rparr>)"
    using assms(2) by (simp add: is_switch_def is_xlog_switch_record_def h_def)
  show ?thesis
    by (simp add: complete_record_def XLOG_SIZE_OF_XLOG_RECORD_def XLOG_RECORD_CRC_OFFS_def parts rec crc sw
        Let_def bindE_def thenE_def)
qed

lemma page_header_roundtrip_end: "page_header_from_bytes (page_header_encode h) = h"
  using page_header_roundtrip [of h "[]"] by simp

lemma page_header_at_parse:
  "page_header_from_bytes (page_header_at E ver cont n l) =
     \<lparr>xlp_magic = ucast (xlog_page_magic E ver),
      xlp_info = XLP_BKP_REMOVABLE OR (if cont then XLP_FIRST_IS_CONTRECORD else 0)
                 OR (if segment_offset l wal_seg = 0 then XLP_LONG_HEADER else 0),
      xlp_tli = 1, xlp_pageaddr = l, xlp_rem_len = (if cont then word_of_nat n else 0), xlp_padding = 0\<rparr>"
  by (simp add: page_header_at_def Let_def page_header_roundtrip_end long_page_header_encode_def or.assoc)

lemma length_page_header_at:
  "length (page_header_at E ver cont n l) = (if segment_offset l wal_seg = 0 then 40 else 24)"
  by (simp add: page_header_at_def Let_def)

lemma info_flags:
  "(XLP_BKP_REMOVABLE OR XLP_FIRST_IS_CONTRECORD OR x) AND XLP_FIRST_IS_CONTRECORD \<noteq> 0"
  "(XLP_BKP_REMOVABLE OR (if b then XLP_LONG_HEADER else 0)) AND XLP_FIRST_IS_CONTRECORD = 0"
proof -
  have "bit ((XLP_BKP_REMOVABLE OR XLP_FIRST_IS_CONTRECORD OR x) AND XLP_FIRST_IS_CONTRECORD) 0"
    by (simp add: XLP_FIRST_IS_CONTRECORD_def bit_and_iff bit_or_iff bit_1_iff)
  then show "(XLP_BKP_REMOVABLE OR XLP_FIRST_IS_CONTRECORD OR x) AND XLP_FIRST_IS_CONTRECORD \<noteq> 0"
    by (metis bit_0_eq bot_apply bot_bool_def)
  show "(XLP_BKP_REMOVABLE OR (if b then XLP_LONG_HEADER else 0)) AND XLP_FIRST_IS_CONTRECORD = 0"
    by (cases b) (simp_all add: XLP_BKP_REMOVABLE_def XLP_LONG_HEADER_def XLP_FIRST_IS_CONTRECORD_def)
qed

text \<open>The decoder accepts the generator's page headers.\<close>

lemma read_generated_header:
  assumes "dec_lsn d = l" and "dec_pg_version d = ver"
    and "inputbuf d = page_header_at E ver cont n l @ x"
    and "dec_state d = (if cont then ReassemblingRecord rb (word_of_nat n) else WaitingForRecord)"
    and "lsn_add l (word_of_nat (length (page_header_at E ver cont n l))) = Inr l1"
    and "block_offset l = 0"
  shows "decode_header E d = (Inr True, d\<lparr>inputbuf := x, dec_lsn := l1\<rparr>)"
proof -
  let ?hb = "page_header_at E ver cont n l"
  have v: "validate_page_header E (d\<lparr>inputbuf := x\<rparr>) (page_header_from_bytes ?hb) = Inr ()"
    using assms(1,2,4) info_flags(1) [of "if segment_offset l wal_seg = 0 then XLP_LONG_HEADER else 0"] info_flags(2)
    by (simp add: validate_page_header_def page_header_at_parse or.assoc)
  have "read_header E (length ?hb) d = (Inr True, d\<lparr>inputbuf := x, dec_lsn := l1\<rparr>)"
    using assms v by (simp add: read_header_def bindE_def thenE_def split_to_def advance_lsn_def)
  then show ?thesis using assms(1,4,6)
    by (auto simp: decode_header_run length_page_header_at split: if_splits)
qed

definition poll_result :: "(lsn \<times> bytes) res \<times> WalStreamDecoder \<Rightarrow> (lsn \<times> bytes) option res \<times> WalStreamDecoder" where
  "poll_result p = (map_res Some (fst p), snd p)"

text \<open>One page's worth of a record being reassembled.\<close>

lemma body_reassembling_piece:
  assumes "0 < n" and "n < 2 ^ 32" and "k = min (unat (remaining_in_block (dec_lsn d))) n"
    and "k \<le> length (inputbuf d)" and "lsn_add (dec_lsn d) (word_of_nat k) = Inr l2"
  shows "body_reassembling E rb (word_of_nat n) d =
    (let d2 = d\<lparr>inputbuf := drop k (inputbuf d), dec_lsn := l2\<rparr>; rb' = rb @ take k (inputbuf d) in
     if k < n then (Inr Again, d2\<lparr>dec_state := ReassemblingRecord rb' (word_of_nat (n - k))\<rparr>)
     else bindE (complete_record E rb') (\<lambda>r. retE (Got r))
            (d2\<lparr>dec_state := ReassemblingRecord [] (word_of_nat n)\<rparr>))"
proof -
  have "unat (remaining_in_block (dec_lsn d)) \<le> 8192" by (simp add: unat_remaining_in_block)
  then have pl: "unat (pageleft d) = unat (remaining_in_block (dec_lsn d))"
    by (simp add: pageleft_def unsigned_ucast_eq take_bit_eq_mod)
  have un: "unat (word_of_nat n :: u32) = n" using assms(2) by (simp add: unat_of_nat)
  have k: "unat (min (word_of_nat n) (pageleft d)) = k"
    using un pl unfolding assms(3) min_def word_le_nat_alt by (cases "n \<le> unat (pageleft d)") simp_all
  have kn: "k \<le> n" by (simp add: assms(3))
  have rest: "(word_of_nat n :: u32) - word_of_nat k = word_of_nat (n - k)"
    using kn by (simp add: of_nat_diff)
  have zero: "(word_of_nat (n - k) :: u32) = 0 \<longleftrightarrow> \<not> k < n"
  proof -
    have "(n - k) mod 2 ^ 32 = n - k" using assms(2) by (intro mod_less) simp
    then have "unat (word_of_nat (n - k) :: u32) = n - k" by (simp add: unat_of_nat del: of_nat_diff)
    then show ?thesis unfolding word_unat_eq_iff by (simp only: unsigned_0) auto
  qed
  show ?thesis
    using assms(4,5)
    by (simp add: body_reassembling_def bindE_def [of "getE _"] bindE_def [of "split_to _"] thenE_def
        bindE_def [of "advance_lsn _"] advance_lsn_def split_to_def Let_def k rest zero del: of_nat_diff)
qed

lemma poll_header_then_body:
  assumes "decode_header E d = (Inr True, d1)"
  shows "poll_decode E d =
    (case decode_body E d1 of
        (Inl e, d') \<Rightarrow> (Inl e, d')
      | (Inr NeedMore, d') \<Rightarrow> (Inr None, d')
      | (Inr (Got r), d') \<Rightarrow> (Inr (Some r), d')
      | (Inr Again, d') \<Rightarrow> poll_decode E d')"
  using assms by (simp add: poll_decode.simps [of E d] decode_step_def bindE_def)

lemma reassemble_generated:
  assumes "insert_pages_loop E ver reclen rem l = Inr out" and "rem \<noteq> []" and "length rem \<le> reclen"
    and "reclen < 2 ^ 32" and "block_offset l = 0 \<longrightarrow> length rem < reclen"
    and "dec_lsn d = l" and "dec_pg_version d = ver" and "inputbuf d = out @ rest"
    and "dec_state d = ReassemblingRecord rb (word_of_nat (length rem))"
  shows "\<exists>c l'. unat l' = unat l + length out \<and>
    poll_decode E d = poll_result (complete_record E (rb @ rem)
      (d\<lparr>inputbuf := rest, dec_lsn := l', dec_state := ReassemblingRecord [] c\<rparr>))"
  using assms
proof (induction E ver reclen rem l arbitrary: d rb out rule: insert_pages_loop.induct)
  case (1 E ver reclen rem l)
  define hdr where "hdr = (if block_offset l = 0
      then page_header_at E ver (length rem < reclen) (length rem) l else [])"
  obtain l1 where l1: "lsn_add l (word_of_nat (length hdr)) = Inr l1"
    using 1(2,3) by (auto simp: insert_pages_loop.simps [of E ver reclen rem l] hdr_def Let_def bind_res_Inr)
  define k where "k = min (unat (remaining_in_block l1)) (length rem)"
  obtain l2 pages where l2: "lsn_add l1 (word_of_nat k) = Inr l2"
    and pages: "insert_pages_loop E ver reclen (drop k rem) l2 = Inr pages"
    and out: "out = hdr @ take k rem @ pages"
    using 1(2,3) l1
    by (auto simp: insert_pages_loop.simps [of E ver reclen rem l] hdr_def [symmetric] Let_def bind_res_Inr
        map_res_Inr k_def)
  define d1 where "d1 = d\<lparr>inputbuf := take k rem @ pages @ rest, dec_lsn := l1\<rparr>"
  have hdr40: "length hdr \<le> 40" by (simp add: hdr_def length_page_header_at)
  have k0: "0 < k" "k \<le> length rem" using 1(3) by (simp_all add: k_def unat_remaining_in_block)
  have head: "decode_header E d = (Inr True, d1)"
  proof (cases "block_offset l = 0")
    case True
    then show ?thesis
      using 1(6-) l1 read_generated_header [of d l ver E True "length rem" "take k rem @ pages @ rest" rb l1]
      by (simp add: hdr_def out d1_def)
  next
    case False
    then have "hdr = []" by (simp add: hdr_def)
    then have "l1 = l" using l1 by (simp add: lsn_add_Inr)
    then have "d1 = d" using 1(7,9) \<open>hdr = []\<close> by (simp add: d1_def out)
    then show ?thesis using False 1(7) by (simp add: decode_header_run)
  qed
  have d1s: "dec_state d1 = ReassemblingRecord rb (word_of_nat (length rem))" using 1(10) by (simp add: d1_def)
  have d1i: "inputbuf d1 = take k rem @ pages @ rest" "dec_lsn d1 = l1" by (simp_all add: d1_def)
  have k1: "k = min (unat (remaining_in_block (dec_lsn d1))) (length rem)" by (simp add: k_def d1_def)
  have n32: "length rem < 2 ^ 32" "0 < length rem" using 1(3-5) by auto
  have body: "decode_body E d1 =
    (let d2 = d1\<lparr>inputbuf := pages @ rest, dec_lsn := l2\<rparr>; rb' = rb @ take k rem in
     if k < length rem then (Inr Again, d2\<lparr>dec_state := ReassemblingRecord rb' (word_of_nat (length rem - k))\<rparr>)
     else bindE (complete_record E rb') (\<lambda>r. retE (Got r))
            (d2\<lparr>dec_state := ReassemblingRecord [] (word_of_nat (length rem))\<rparr>))"
    unfolding decode_body_run(2) [OF d1s]
    using body_reassembling_piece [OF n32(2,1) k1, of l2 E rb] k0 l2 d1i by simp
  have pos: "unat l2 = unat l + length hdr + k"
    using lsn_add_unat_nat [OF l1] lsn_add_unat_nat [OF l2] hdr40 k0 n32 by simp
  show ?case
  proof (cases "k < length rem")
    case True
    define d2 where "d2 = d\<lparr>inputbuf := pages @ rest, dec_lsn := l2,
      dec_state := ReassemblingRecord (rb @ take k rem) (word_of_nat (length rem - k))\<rparr>"
    have "poll_decode E d = poll_decode E d2"
      using True body by (simp add: poll_header_then_body [OF head] d1_def d2_def Let_def)
    moreover have "\<exists>c l'. unat l' = unat l2 + length pages \<and>
      poll_decode E d2 = poll_result (complete_record E ((rb @ take k rem) @ drop k rem)
        (d2\<lparr>inputbuf := rest, dec_lsn := l', dec_state := ReassemblingRecord [] c\<rparr>))"
      by (rule 1(1) [OF 1(3) hdr_def k_def pages])
        (use True k0 1(4,5,8) l1 l2 in \<open>auto simp: d2_def\<close>)
    then obtain c l' where "unat l' = unat l2 + length pages"
      "poll_decode E d2 = poll_result (complete_record E ((rb @ take k rem) @ drop k rem)
        (d2\<lparr>inputbuf := rest, dec_lsn := l', dec_state := ReassemblingRecord [] c\<rparr>))" by blast
    ultimately show ?thesis using pos k0 
      by (intro exI [of _ c] exI [of _ l']) (simp add: d2_def out)
  next
    case False
    then have kk: "k = length rem" using k0 by simp
    then have "pages = []" using pages by (simp add: insert_pages_loop.simps)
    then show ?thesis
      using body kk pos
      by (intro exI [of _ "word_of_nat (length rem)"] exI [of _ l2])
        (auto simp: poll_header_then_body [OF head] d1_def out poll_result_def Let_def bindE_def map_res_def
          split: prod.splits sum.splits)
  qed
qed

lemma insert_pages_as_loop:
  assumes "insert_pages E ver rb l = Inr out" and "lsn_add l (word_of_nat (length out)) = Inr l'" and "rb \<noteq> []"
  shows "insert_pages_loop E ver (length rb) rb l = Inr out"
proof (cases "length rb \<le> unat (remaining_in_block l) \<and> 0 < block_offset l")
  case True
  then have out: "out = rb" and b: "block_offset l \<noteq> 0" using assms(1) by (auto simp: insert_pages_def)
  have "lsn_add l 0 = Inr l" using unat_bounds(4) [of l] by (simp add: lsn_add_Inr)
  moreover have "min (unat (remaining_in_block l)) (length rb) = length rb" using True by simp
  ultimately show ?thesis using assms(2,3) b out
    by (subst insert_pages_loop.simps) (simp add: insert_pages_loop.simps [of _ _ _ "[]"])
next
  case False
  then show ?thesis using assms(1) unfolding insert_pages_def if_not_P [OF False] by simp
qed

lemma loop_first_page:
  assumes "insert_pages_loop E ver (length rb) rb l = Inr out" and "rb \<noteq> []" and "unat l mod 8 = 0"
  obtains hdr l1 body where "out = hdr @ body" and "lsn_add l (word_of_nat (length hdr)) = Inr l1"
    and "insert_pages_loop E ver (length rb) rb l1 = Inr body" and "block_offset l1 \<noteq> 0"
    and "hdr = (if block_offset l = 0 then page_header_at E ver False (length rb) l else [])"
    and "8 \<le> unat (remaining_in_block l1)" and "unat l1 = unat l + length hdr"
proof -
  define hdr where "hdr = (if block_offset l = 0
      then page_header_at E ver (length rb < length rb) (length rb) l else [])"
  have hdr: "hdr = (if block_offset l = 0 then page_header_at E ver False (length rb) l else [])"
    by (simp add: hdr_def)
  obtain l1 where l1: "lsn_add l (word_of_nat (length hdr)) = Inr l1"
    using assms(1,2) by (auto simp: insert_pages_loop.simps [of E ver "length rb" rb l] hdr_def Let_def bind_res_Inr)
  define k where "k = min (unat (remaining_in_block l1)) (length rb)"
  obtain l2 pages where l2: "lsn_add l1 (word_of_nat k) = Inr l2"
    and pages: "insert_pages_loop E ver (length rb) (drop k rb) l2 = Inr pages"
    and out: "out = hdr @ take k rb @ pages"
    using assms(1,2) l1
    by (auto simp: insert_pages_loop.simps [of E ver "length rb" rb l] hdr_def [symmetric] Let_def bind_res_Inr
        map_res_Inr k_def)
  have len: "length hdr = (if block_offset l = 0 then (if segment_offset l wal_seg = 0 then 40 else 24) else 0)"
    by (simp add: hdr_def length_page_header_at)
  have u: "unat l1 = unat l + length hdr" using lsn_add_unat_nat [OF l1] len by simp
  have m: "unat l1 mod 8192 = (unat l mod 8192 + length hdr) mod 8192" by (simp add: u mod_add_left_eq)
  have b: "block_offset l1 \<noteq> 0"
    using len u m by (auto simp: word_unat_eq_iff split: if_splits)
  have m8: "unat l mod 8192 mod 8 = 0" using assms(3) by (simp add: mod_mod_cancel)
  have "unat l mod 8192 \<le> 8184"
  proof -
    obtain q where "unat l mod 8192 = 8 * q" using m8 by (auto simp: mod_eq_0_iff_dvd elim!: dvdE)
    moreover have "unat l mod 8192 < 8192" by simp
    ultimately have "q < 1024" by simp
    then show ?thesis using \<open>unat l mod 8192 = 8 * q\<close> by simp
  qed
  then have r: "8 \<le> unat (remaining_in_block l1)"
    using len m by (auto simp: unat_remaining_in_block word_unat_eq_iff split: if_splits)
  have "lsn_add l1 0 = Inr l1" using unat_bounds(4) [of l1] by (simp add: lsn_add_Inr)
  then have "insert_pages_loop E ver (length rb) rb l1 = Inr (take k rb @ pages)"
    using b l2 pages assms(2) by (subst insert_pages_loop.simps) (simp add: k_def [symmetric])
  then show ?thesis using that [OF out l1 _ b hdr r u] by simp
qed

lemma loop_prefix:
  assumes "insert_pages_loop E ver n rb l = Inr out" and "block_offset l \<noteq> 0" and "m \<le> unat (remaining_in_block l)"
    and "m \<le> length rb" and "rb \<noteq> []"
  shows "take m out = take m rb" and "m \<le> length out"
proof -
  have "lsn_add l 0 = Inr l" using unat_bounds(4) [of l] by (simp add: lsn_add_Inr)
  then obtain pages where "out = take (min (unat (remaining_in_block l)) (length rb)) rb @ pages"
    using assms(1,2,5) by (auto simp: insert_pages_loop.simps [of E ver n rb l] Let_def bind_res_Inr map_res_Inr)
  then show "take m out = take m rb" "m \<le> length out" using assms(3,4) by (auto simp: min_def)
qed

text \<open>A decoder waiting at a record boundary delivers the record it finds there.\<close>

lemma poll_generated_record:
  fixes r E prev
  defines "rb \<equiv> record_encode E prev r"
  assumes E: "crc_continues E" and sw: "\<not> is_switch r" and len: "length rb < 2 ^ 32"
    and al: "unat l mod 8 = 0" and loop: "insert_pages_loop E ver (length rb) rb l = Inr out"
    and d: "dec_lsn d = l" "dec_pg_version d = ver" "dec_state d = WaitingForRecord" "inputbuf d = out @ rest"
  shows "\<exists>l'. unat l' = unat l + length out \<and>
    poll_decode E d = (Inr (Some (align l', rb)),
      d\<lparr>inputbuf := rest, dec_lsn := l', dec_state := SkippingEverything (align l')\<rparr>)"
proof -
  have rb: "rb \<noteq> []" "24 \<le> length rb" by (simp_all add: rb_def flip: length_0_conv)
  obtain hdr l1 body where out: "out = hdr @ body" and l1: "lsn_add l (word_of_nat (length hdr)) = Inr l1"
    and body: "insert_pages_loop E ver (length rb) rb l1 = Inr body" and b1: "block_offset l1 \<noteq> 0"
    and hdr: "hdr = (if block_offset l = 0 then page_header_at E ver False (length rb) l else [])"
    and r8: "8 \<le> unat (remaining_in_block l1)" and u1: "unat l1 = unat l + length hdr"
    using loop_first_page [OF loop rb(1) al] by metis
  define d1 where "d1 = d\<lparr>inputbuf := body @ rest, dec_lsn := l1\<rparr>"
  define tot where "tot = (word_of_nat (length rb) :: u32)"
  define d2 where "d2 = d1\<lparr>dec_state := ReassemblingRecord [] tot\<rparr>"
  have h: "decode_header E d = (Inr True, d1)"
  proof (cases "block_offset l = 0")
    case True
    then show ?thesis using read_generated_header [of d l ver E False "length rb" "body @ rest" "[]" l1] d l1
      by (simp add: hdr out d1_def)
  next
    case False
    then have "hdr = []" by (simp add: hdr)
    then have "l1 = l" using l1 by (simp add: lsn_add_Inr)
    then have "d1 = d" using d \<open>hdr = []\<close> by (simp add: d1_def out)
    then show ?thesis using False d by (simp add: decode_header_run)
  qed
  have h1: "decode_header E d1 = (Inr True, d1)" using b1 by (simp add: decode_header_run d1_def)
  have p1: "poll_decode E d = poll_decode E d1"
    by (simp add: poll_header_then_body [OF h] poll_header_then_body [OF h1])
  have pre: "take 4 (inputbuf d1) = take 4 rb" "4 \<le> length (inputbuf d1)"
    using loop_prefix [OF body b1, of 4] r8 rb by (simp_all add: d1_def)
  have t: "tot = le_word (take 4 (inputbuf d1))"
    using record_encode_tot_len [of E prev r "[]"] by (simp add: pre tot_def rb_def)
  have ut: "unat tot = length rb" using len by (simp add: tot_def unat_of_nat)
  have w: "dec_state d1 = WaitingForRecord" using d by (simp add: d1_def)
  have ag: "agree (poll_decode E d1) (poll_decode E d2)"
  proof (cases "unat tot \<le> length (inputbuf d1) \<and> tot \<le> pageleft d1")
    case True
    then show ?thesis using fast_path_agrees [OF w h1 pre(2) t] ut rb by (simp add: d2_def)
  next
    case False
    have "body_waiting E d1 = (Inr Again, d2)"
      using body_waiting_run [OF pre(2) t, of E] ut rb(2) unfolding d2_def if_not_P [OF False] by simp
    then have "poll_decode E d1 = poll_decode E d2"
      by (simp add: poll_header_then_body [OF h1] decode_body_run(1) [OF w])
    then show ?thesis by simp
  qed
  obtain c l' where l': "unat l' = unat l1 + length body"
    and p2: "poll_decode E d2 = poll_result (complete_record E ([] @ rb)
        (d2\<lparr>inputbuf := rest, dec_lsn := l', dec_state := ReassemblingRecord [] c\<rparr>))"
    using reassemble_generated [OF body rb(1) _ len, of d2 rest "[]"] b1 d
    by (auto simp: d2_def d1_def tot_def)
  have "poll_decode E d2 = (Inr (Some (align l', rb)),
      d\<lparr>inputbuf := rest, dec_lsn := l', dec_state := SkippingEverything (align l')\<rparr>)"
    using p2 complete_record_generated [OF E sw, of prev]
    by (simp add: poll_result_def rb_def d2_def d1_def)
  then show ?thesis using ag p1 l' u1 out by (intro exI [of _ l']) (auto simp: agree_def prod_eq_iff)
qed

lemma length_insert_pages_loop:
  "insert_pages_loop E ver n rb l = Inr out \<Longrightarrow> length out \<le> 41 * length rb"
proof (induction E ver n rb l arbitrary: out rule: insert_pages_loop.induct)
  case (1 E ver n rb l)
  show ?case
  proof (cases "rb = []")
    case False
    define hdr where "hdr = (if block_offset l = 0 then page_header_at E ver (length rb < n) (length rb) l else [])"
    obtain l1 where l1: "lsn_add l (word_of_nat (length hdr)) = Inr l1"
      using 1(2) False by (auto simp: insert_pages_loop.simps [of E ver n rb l] hdr_def Let_def bind_res_Inr)
    define k where "k = min (unat (remaining_in_block l1)) (length rb)"
    obtain l2 pages where pages: "insert_pages_loop E ver n (drop k rb) l2 = Inr pages"
      and out: "out = hdr @ take k rb @ pages"
      using 1(2) False l1
      by (auto simp: insert_pages_loop.simps [of E ver n rb l] hdr_def [symmetric] Let_def bind_res_Inr
          map_res_Inr k_def)
    have "length pages \<le> 41 * length (drop k rb)" by (rule 1(1) [OF False hdr_def k_def pages])
    moreover have "length hdr \<le> 40" by (simp add: hdr_def length_page_header_at)
    moreover have "0 < k" "k \<le> length rb" using False by (simp_all add: k_def unat_remaining_in_block)
    ultimately show ?thesis by (simp add: out)
  qed (use 1(2) in \<open>simp add: insert_pages_loop.simps\<close>)
qed

lemma align_by_padding:
  assumes "unat l + p < 2 ^ 64" and "p < 8" and "(unat l + p) mod 8 = 0"
  shows "unat (align l) = unat l + p"
proof -
  obtain q where q: "unat l + p = 8 * q" using assms(3) by (auto simp: mod_eq_0_iff_dvd elim!: dvdE)
  then have "q < 2 ^ 61" using assms(1) by simp
  then have "unat l \<le> 2 ^ 64 - 8" using q by simp
  then have "l \<le> LSN_MAX - 7" by (simp add: LSN_MAX_def word_le_nat_alt)
  note b = align_bounds [OF this]
  then obtain q' where "unat (align l) = 8 * q'" by (auto simp: mod_eq_0_iff_dvd elim!: dvdE)
  then show ?thesis using b(1,2) q assms(2) by simp
qed

lemma append_recordE:
  assumes "append_record E ver r g = (Inr (l0, wal), g')"
  obtains pages l' where "insert_pages E ver (record_encode E (gen_prev_lsn g) r) (gen_lsn g) = Inr pages"
    and "lsn_add (gen_lsn g) (word_of_nat (length pages)) = Inr l'"
    and "wal = pages @ replicate (unat (calc_padding l' 8)) 0"
    and "lsn_add (gen_lsn g) (word_of_nat (length wal)) = Inr (gen_lsn g')"
    and "l0 = gen_lsn g" and "gen_prev_lsn g' = gen_lsn g"
proof -
  let ?p = "insert_pages E ver (record_encode E (gen_prev_lsn g) r) (gen_lsn g)"
  obtain pages where pages: "?p = Inr pages"
    using assms by (cases ?p) (simp_all add: append_record_def bindE_def)
  obtain l' where l': "lsn_add (gen_lsn g) (word_of_nat (length pages)) = Inr l'"
    using assms pages by (cases "lsn_add (gen_lsn g) (word_of_nat (length pages))")
      (simp_all add: append_record_def bindE_def pad_record_def)
  let ?w = "pages @ replicate (unat (calc_padding l' 8)) 0"
  obtain l'' where l'': "lsn_add (gen_lsn g) (word_of_nat (length ?w)) = Inr l''"
    using assms pages l' by (cases "lsn_add (gen_lsn g) (word_of_nat (length ?w))")
      (simp_all add: append_record_def bindE_def pad_record_def thenE_def)
  have "wal = ?w \<and> l0 = gen_lsn g \<and> gen_lsn g' = l'' \<and> gen_prev_lsn g' = gen_lsn g"
    using assms pages l' l'' by (auto simp: append_record_def bindE_def pad_record_def thenE_def)
  then show ?thesis using that [OF pages l'] l'' by simp
qed

text \<open>The records a run of the generator writes, each with the position after it.\<close>

primrec generated_records ::
  "wal_env \<Rightarrow> PgMajorVersion \<Rightarrow> Record list \<Rightarrow> WalGenerator \<Rightarrow> (lsn \<times> bytes) list" where
  "generated_records E ver [] g = []"
| "generated_records E ver (r # rs) g =
     (let g' = snd (append_record E ver r g)
      in (gen_lsn g', record_encode E (gen_prev_lsn g) r) # generated_records E ver rs g')"

lemma poll_skip_padding:
  assumes "dec_state d = SkippingEverything u" and "unat u = unat (dec_lsn d) + length pad"
    and "inputbuf d = pad @ x"
  shows "poll_decode E d = poll_decode E (d\<lparr>inputbuf := x, dec_lsn := u, dec_state := WaitingForRecord\<rparr>)"
proof -
  have n: "unat (u - dec_lsn d) = length pad"
    using assms(2) by (simp add: unat_sub word_le_nat_alt)
  have le: "dec_lsn d \<le> u" using assms(2) by (simp add: word_le_nat_alt)
  have len: "length pad < 2 ^ 64" using assms(2) unat_bounds(4) [of u] by simp
  have "u = dec_lsn d + word_of_nat (length pad)"
    using assms(2) len unat_bounds(4) [of u] by (simp add: word_unat_eq_iff unat_word_ariths unat_of_nat)
  then have add: "lsn_add (dec_lsn d) (word_of_nat (length pad)) = Inr u"
    using assms(2) len unat_bounds(4) [of u] by (simp add: lsn_add_Inr unat_of_nat)
  have h: "decode_header E d = (Inr True, d)" using assms(1) by (simp add: decode_header_run)
  have "decode_body E d = (Inr Again, d\<lparr>inputbuf := x, dec_lsn := u, dec_state := WaitingForRecord\<rparr>)"
    using n le add assms(3)
    by (simp add: decode_body_run(3) [OF assms(1)] body_skipping_def bindE_def thenE_def split_to_def
        advance_lsn_def Let_def)
  then show ?thesis by (simp add: poll_header_then_body [OF h])
qed

lemma drain_cong: "poll_decode E d = poll_decode E d' \<Longrightarrow> drain E d = drain E d'"
  by (simp add: drain.simps [of E d] drain.simps [of E d'])

lemma drain_one_generated:
  assumes E: "crc_continues E" and sw: "\<not> is_switch r" and len: "length (rec_data r) < 2 ^ 32 - 29"
    and al: "unat (gen_lsn g) mod 8 = 0" and app: "append_record E ver r g = (Inr (l0, wal), g')"
    and d: "dec_lsn d = gen_lsn g" "dec_pg_version d = ver" "dec_state d = WaitingForRecord" "inputbuf d = wal @ rest"
  shows "unat (gen_lsn g') mod 8 = 0 \<and>
    drain E d = (case drain E (d\<lparr>inputbuf := rest, dec_lsn := gen_lsn g'\<rparr>) of
      (rs, e, d') \<Rightarrow> ((gen_lsn g', record_encode E (gen_prev_lsn g) r) # rs, e, d'))"
proof -
  let ?rb = "record_encode E (gen_prev_lsn g) r"
  have rb32: "length ?rb < 2 ^ 32" using len by (simp add: data_header_def)
  obtain pages l' where pages: "insert_pages E ver ?rb (gen_lsn g) = Inr pages"
    and l': "lsn_add (gen_lsn g) (word_of_nat (length pages)) = Inr l'"
    and wal: "wal = pages @ replicate (unat (calc_padding l' 8)) 0"
    and fin: "lsn_add (gen_lsn g) (word_of_nat (length wal)) = Inr (gen_lsn g')"
    using append_recordE [OF app] by metis
  have rb0: "?rb \<noteq> []" by (simp flip: length_0_conv)
  have loop: "insert_pages_loop E ver (length ?rb) ?rb (gen_lsn g) = Inr pages"
    by (rule insert_pages_as_loop [OF pages l' rb0])
  define p where "p = unat (calc_padding l' 8)"
  have p8: "p < 8" "(unat l' + p) mod 8 = 0"
    using calc_padding_pow2 [of 3 l'] by (simp_all add: p_def)
  have "length pages \<le> 41 * length ?rb" by (rule length_insert_pages_loop [OF loop])
  then have b: "length pages < 2 ^ 63" using rb32 by simp
  have ul': "unat l' = unat (gen_lsn g) + length pages" using lsn_add_unat_nat [OF l'] b by simp
  have lw: "length wal = length pages + p" by (simp add: wal p_def)
  have ug: "unat (gen_lsn g') = unat l' + p" using lsn_add_unat_nat [OF fin] b p8(1) ul' lw by simp
  have al': "align l' = gen_lsn g'"
    using align_by_padding [of l' p] p8 ug unat_bounds(4) [of "gen_lsn g'"] by (simp add: word_unat_eq_iff)
  obtain l'' where "unat l'' = unat (gen_lsn g) + length pages" and
    poll: "poll_decode E d = (Inr (Some (align l'', ?rb)),
      d\<lparr>inputbuf := replicate p 0 @ rest, dec_lsn := l'', dec_state := SkippingEverything (align l'')\<rparr>)"
    using poll_generated_record [OF E sw rb32 al loop d(1-3), of "replicate p 0 @ rest"] d(4)
    by (auto simp: wal p_def)
  then have "l'' = l'" using ul' by (simp add: word_unat_eq_iff)
  with poll al' have poll': "poll_decode E d = (Inr (Some (gen_lsn g', ?rb)),
      d\<lparr>inputbuf := replicate p 0 @ rest, dec_lsn := l', dec_state := SkippingEverything (gen_lsn g')\<rparr>)"
    by simp
  have wait: "d\<lparr>inputbuf := rest, dec_lsn := x, dec_state := WaitingForRecord\<rparr> =
      d\<lparr>inputbuf := rest, dec_lsn := x\<rparr>" for x using d(3) by (cases d) simp
  have "poll_decode E (d\<lparr>inputbuf := replicate p 0 @ rest, dec_lsn := l', dec_state := SkippingEverything (gen_lsn g')\<rparr>)
      = poll_decode E (d\<lparr>inputbuf := rest, dec_lsn := gen_lsn g'\<rparr>)"
    using poll_skip_padding [of "d\<lparr>inputbuf := replicate p 0 @ rest, dec_lsn := l', dec_state := SkippingEverything (gen_lsn g')\<rparr>"
        "gen_lsn g'" "replicate p 0" rest E] ug wait by simp
  from drain_cong [OF this] show ?thesis using poll' p8(2) ug by (simp add: drain.simps [of E d])
qed

lemma drain_empty:
  assumes "dec_state d = WaitingForRecord" and "inputbuf d = []"
  shows "drain E d = ([], None, d)"
proof -
  have "decode_step E d = (Inr NeedMore, d)"
    using assms by (simp add: decode_step_def bindE_def decode_header_run decode_body_run body_waiting_def
        read_header_cases(1))
  then show ?thesis by (simp add: drain.simps [of E d] poll_decode.simps [of E d])
qed

lemma drain_generated:
  assumes "crc_continues E"
    and "\<forall>r \<in> set rs. \<not> is_switch r \<and> length (rec_data r) < 2 ^ 32 - 29"
    and "unat (gen_lsn g) mod 8 = 0" and "generate E ver rs g = (Inr wal, g')"
    and "dec_lsn d = gen_lsn g" and "dec_pg_version d = ver" and "dec_state d = WaitingForRecord"
    and "inputbuf d = wal"
  shows "drain E d = (generated_records E ver rs g, None, d\<lparr>inputbuf := [], dec_lsn := gen_lsn g'\<rparr>)"
  using assms(2-)
proof (induction rs arbitrary: g d wal)
  case Nil
  then show ?case by (simp add: drain_empty)
next
  case (Cons r rs)
  obtain l0 w g1 more where app: "append_record E ver r g = (Inr (l0, w), g1)"
    and gen: "generate E ver rs g1 = (Inr more, g')" and wal: "wal = w @ more"
    using Cons.prems(3) by (auto elim!: bindE_InrE)
  have one: "unat (gen_lsn g1) mod 8 = 0 \<and>
    drain E d = (case drain E (d\<lparr>inputbuf := more, dec_lsn := gen_lsn g1\<rparr>) of
      (rs, e, d') \<Rightarrow> ((gen_lsn g1, record_encode E (gen_prev_lsn g) r) # rs, e, d'))"
    by (rule drain_one_generated [OF assms(1) _ _ Cons.prems(2) app])
      (use Cons.prems wal in auto)
  have "drain E (d\<lparr>inputbuf := more, dec_lsn := gen_lsn g1\<rparr>) =
    (generated_records E ver rs g1, None, d\<lparr>inputbuf := [], dec_lsn := gen_lsn g'\<rparr>)"
    using Cons.IH [OF _ _ gen, of "d\<lparr>inputbuf := more, dec_lsn := gen_lsn g1\<rparr>"] Cons.prems one
    by (simp add: decoder_update_order)
  then show ?case using one app by simp
qed

text \<open>C10: The streaming decoder reads back what the WAL generator writes: started at the
  generator's (8-byte aligned) position and fed the bytes of any list of records, it delivers
  exactly the encoded records in order, each with the position at which the generator continued,
  reports no error, consumes all input, and stops at the generator's final position. This covers
  records that cross page and segment boundaries, with less than \<open>2 ^ 32 - 29\<close> bytes of data;
  segment switch records are excluded.\<close>

theorem decode_generated_wal:
  assumes "crc_continues E"
    and "\<forall>r \<in> set rs. \<not> is_switch r \<and> length (rec_data r) < 2 ^ 32 - 29"
    and "unat (gen_lsn g) mod 8 = 0" and "generate E ver rs g = (Inr wal, g')"
  shows "drain E (feed_bytes wal (decoder_new (gen_lsn g) ver)) =
    (generated_records E ver rs g, None, decoder_new (gen_lsn g') ver)"
  using drain_generated [OF assms, of "feed_bytes wal (decoder_new (gen_lsn g) ver)"]
  by (simp add: decoder_new_def feed_bytes_def)

definition sample_record :: Record where
  "sample_record = \<lparr>rec_rmid = 21, rec_info = 0, rec_data = [1, 2, 3]\<rparr>"

lemma sample_env_crc: "crc_continues sample_env"
  by (simp add: crc_continues_def sample_env_def)

lemma sample_generate:
  "\<exists>wal. generate sample_env PG17 [sample_record] \<lparr>gen_lsn = 80, gen_prev_lsn = 0\<rparr> =
     (Inr wal, \<lparr>gen_lsn = 112, gen_prev_lsn = 80\<rparr>)"
proof -
  have l: "length (rec_data sample_record) = 3" "length (data_header (rec_data sample_record)) = 2"
    by (simp_all add: data_header_def sample_record_def)
  show ?thesis
    by (simp add: l append_record_def bindE_def thenE_def insert_pages_def unat_remaining_in_block
        pad_record_def lsn_add_def checked_add_def calc_padding_def word_less_nat_alt)
qed

theorem decode_generated_wal_witness:
  "\<exists>wal. generate sample_env PG17 [sample_record] \<lparr>gen_lsn = 80, gen_prev_lsn = 0\<rparr> =
           (Inr wal, \<lparr>gen_lsn = 112, gen_prev_lsn = 80\<rparr>) \<and>
         fst (drain sample_env (feed_bytes wal (decoder_new 80 PG17))) =
           [(112, record_encode sample_env 0 sample_record)]"
proof -
  obtain wal where g: "generate sample_env PG17 [sample_record] \<lparr>gen_lsn = 80, gen_prev_lsn = 0\<rparr> =
     (Inr wal, \<lparr>gen_lsn = 112, gen_prev_lsn = 80\<rparr>)" using sample_generate by blast
  have "snd (append_record sample_env PG17 sample_record \<lparr>gen_lsn = 80, gen_prev_lsn = 0\<rparr>) =
     \<lparr>gen_lsn = 112, gen_prev_lsn = 80\<rparr>"
    using g by (auto simp: bindE_def split: prod.splits sum.splits)
  moreover have "\<forall>r \<in> set [sample_record]. \<not> is_switch r \<and> length (rec_data r) < 2 ^ 32 - 29"
    by (simp add: sample_record_def is_switch_def XLOG_SWITCH_def)
  ultimately show ?thesis
    using g decode_generated_wal [OF sample_env_crc _ _ g] by simp
qed

end
