(* ===== verification/Term_History.thy ===== *)
theory Term_History
  imports Lsn
begin

text \<open>
  The acceptor's term history (\<open>safekeeper/src/safekeeper.rs\<close>, \<open>TermHistory\<close> and
  \<open>AcceptorState\<close>): truncation at an LSN and the search for the last point a proposer's
  and a safekeeper's log have in common, with the abstract log it is correct for.
\<close>

section \<open>Definitions\<close>

type_synonym Term = u64

record TermLsn =
  tl_term :: Term
  tl_lsn :: lsn

type_synonym TermHistory = "TermLsn list"

definition term_history_empty :: TermHistory where
  "term_history_empty = []"

text \<open>The loop of \<open>up_to\<close> breaks at the first switch that lies after \<open>up_to\<close>.\<close>

fun th_up_to :: "TermHistory \<Rightarrow> lsn \<Rightarrow> TermHistory" where
  "th_up_to [] up_to = []"
| "th_up_to (e # es) up_to = (if tl_lsn e > up_to then [] else e # th_up_to es up_to)"

fun last_common_idx ::
  "TermLsn list \<Rightarrow> TermLsn list \<Rightarrow> nat \<Rightarrow> nat option \<Rightarrow> nat option res" where
  "last_common_idx (p # ps) (s # ss) i acc =
     (if tl_term p \<noteq> tl_term s then Inr acc
      else if tl_lsn p \<noteq> tl_lsn s then Inl (Panic ''same term has different start LSNs'')
      else last_common_idx ps ss (Suc i) (Some i))"
| "last_common_idx _ _ i acc = Inr acc"

definition find_highest_common_point ::
  "TermHistory \<Rightarrow> TermHistory \<Rightarrow> lsn \<Rightarrow> TermLsn option res" where
  "find_highest_common_point prop_th sk_th sk_wal_end =
     (if sk_th \<noteq> [] \<and> \<not> tl_lsn (last sk_th) \<le> sk_wal_end
      then Inl (Panic ''safekeeper term history end LSN is higher than WAL end'')
      else case last_common_idx prop_th sk_th 0 None of
        Inl e \<Rightarrow> Inl e
      | Inr None \<Rightarrow> Inr None
      | Inr (Some i) \<Rightarrow>
          (if i = length prop_th - 1
           then Inr (Some \<lparr>tl_term = tl_term (prop_th ! i), tl_lsn = sk_wal_end\<rparr>)
           else
             let prop_common_term_end = tl_lsn (prop_th ! (i + 1));
                 sk_common_term_end = (if i + 1 < length sk_th then tl_lsn (sk_th ! (i + 1))
                                       else sk_wal_end)
             in Inr (Some \<lparr>tl_term = tl_term (prop_th ! i),
                           tl_lsn = min prop_common_term_end sk_common_term_end\<rparr>)))"

record AcceptorState =
  acc_term :: Term
  term_history :: TermHistory

definition acceptor_get_last_log_term :: "AcceptorState \<Rightarrow> lsn \<Rightarrow> Term" where
  "acceptor_get_last_log_term a flush_lsn =
     (case th_up_to (term_history a) flush_lsn of [] \<Rightarrow> 0 | th \<Rightarrow> tl_term (last th))"

section \<open>The log a history describes\<close>

text \<open>
  A history says in which term each byte of the log was written: the term of the last
  switch at or before its LSN.
\<close>

fun term_at :: "TermHistory \<Rightarrow> lsn \<Rightarrow> Term option" where
  "term_at [] x = None"
| "term_at (e # es) x =
     (if tl_lsn e \<le> x
      then (case term_at es x of None \<Rightarrow> Some (tl_term e) | Some t \<Rightarrow> Some t)
      else None)"

text \<open>Terms grow strictly and switches never move back.\<close>

definition history_ok :: "TermHistory \<Rightarrow> bool" where
  "history_ok h = (sorted_wrt (\<lambda>a b. tl_term a < tl_term b \<and> tl_lsn a \<le> tl_lsn b) h)"

text \<open>
  Each term has one leader, which fixed the history up to that term: two histories that
  share a term agree up to it.
\<close>

definition histories_match :: "TermHistory \<Rightarrow> TermHistory \<Rightarrow> bool" where
  "histories_match h k =
     (\<forall>i < length h. \<forall>j < length k. tl_term (h ! i) = tl_term (k ! j) \<longrightarrow>
        take (Suc i) h = take (Suc j) k)"


section \<open>Truncation\<close>

lemma th_up_to_takeWhile: "th_up_to h x = takeWhile (\<lambda>e. tl_lsn e \<le> x) h"
  by (induction h x rule: th_up_to.induct) auto

lemma set_th_up_to: "set (th_up_to h x) \<subseteq> set h"
  by (auto simp: th_up_to_takeWhile dest: set_takeWhileD)

lemma th_up_to_le: "e \<in> set (th_up_to h x) \<Longrightarrow> tl_lsn e \<le> x"
  by (auto simp: th_up_to_takeWhile dest: set_takeWhileD)

lemma th_up_to_idem [simp]: "th_up_to (th_up_to h x) x = th_up_to h x"
  by (induction h x rule: th_up_to.induct) auto

lemma history_ok_th_up_to: "history_ok h \<Longrightarrow> history_ok (th_up_to h x)"
  unfolding history_ok_def th_up_to_takeWhile
  by (subst takeWhile_eq_take) (rule sorted_wrt_take)

lemma term_at_up_to:
  "term_at h x = (case th_up_to h x of [] \<Rightarrow> None | l \<Rightarrow> Some (tl_term (last l)))"
  by (induction h x rule: term_at.induct) (auto split: list.splits)

text \<open>Truncation keeps the log below the cut.\<close>

lemma term_at_th_up_to: "x \<le> y \<Longrightarrow> term_at (th_up_to h y) x = term_at h x"
  by (induction h x rule: term_at.induct) auto

lemma get_last_log_term_term_at:
  "acceptor_get_last_log_term a x = (case term_at (term_history a) x of None \<Rightarrow> 0 | Some t \<Rightarrow> t)"
  by (simp add: acceptor_get_last_log_term_def term_at_up_to split: list.splits)

section \<open>The common prefix of two histories\<close>

lemma last_common_idx_prefix:
  "last_common_idx ps ss i acc = Inr r \<Longrightarrow>
     \<exists>c p s. ps = c @ p \<and> ss = c @ s \<and> r = (if c = [] then acc else Some (i + length c - 1)) \<and>
       (p \<noteq> [] \<longrightarrow> s \<noteq> [] \<longrightarrow> tl_term (hd p) \<noteq> tl_term (hd s))"
proof (induction ps ss i acc rule: last_common_idx.induct)
  case (1 p ps s ss i acc)
  show ?case
  proof (cases "tl_term p = tl_term s")
    case False
    with "1.prems" show ?thesis
      by (intro exI [of _ "[]"] exI [of _ "p # ps"] exI [of _ "s # ss"]) auto
  next
    case True
    with "1.prems" have l: "tl_lsn p = tl_lsn s" by (auto split: if_splits)
    with True have eq: "p = s" by simp
    from "1.IH" [of] True l "1.prems" obtain c p' s' where
      c: "ps = c @ p'" "ss = c @ s'" "r = (if c = [] then Some i else Some (Suc i + length c - 1))"
      "p' \<noteq> [] \<longrightarrow> s' \<noteq> [] \<longrightarrow> tl_term (hd p') \<noteq> tl_term (hd s')" by auto
    then show ?thesis using eq
      by (intro exI [of _ "p # c"] exI [of _ p'] exI [of _ s']) auto
  qed
qed auto

lemma last_common_idx_total:
  "(\<And>k. k < length ps \<Longrightarrow> k < length ss \<Longrightarrow> tl_term (ps ! k) = tl_term (ss ! k) \<Longrightarrow>
      tl_lsn (ps ! k) = tl_lsn (ss ! k)) \<Longrightarrow> \<exists>r. last_common_idx ps ss i acc = Inr r"
proof (induction ps ss i acc rule: last_common_idx.induct)
  case (1 p ps s ss i acc)
  from "1.prems" [of 0] have "tl_term p = tl_term s \<Longrightarrow> tl_lsn p = tl_lsn s" by simp
  moreover have "\<exists>r. last_common_idx ps ss (Suc i) (Some i) = Inr r"
    if "tl_term p = tl_term s" "tl_lsn p = tl_lsn s"
    using that "1.prems" [of "Suc k" for k] by (intro "1.IH") auto
  ultimately show ?case by auto
qed auto

lemma histories_match_nth:
  "histories_match h k \<Longrightarrow> i < length h \<Longrightarrow> i < length k \<Longrightarrow> tl_term (h ! i) = tl_term (k ! i) \<Longrightarrow>
     h ! i = k ! i"
  unfolding histories_match_def by (metis lessI nth_take)

text \<open>Past the common prefix, matching histories share no term at all.\<close>

lemma histories_match_disjoint:
  assumes match: "histories_match (c @ p) (c @ s)"
    and diff: "p \<noteq> [] \<longrightarrow> s \<noteq> [] \<longrightarrow> tl_term (hd p) \<noteq> tl_term (hd s)"
  shows "tl_term ` set p \<inter> tl_term ` set s = {}"
proof (rule ccontr)
  assume "\<not> ?thesis"
  then obtain a b where ab: "a < length p" "b < length s" "tl_term (p ! a) = tl_term (s ! b)"
    by (fastforce simp: in_set_conv_nth)
  have "take (Suc (length c + a)) (c @ p) = take (Suc (length c + b)) (c @ s)"
    using match ab unfolding histories_match_def
    by (metis add_less_cancel_left length_append nth_append_length_plus)
  then have eq: "take (Suc a) p = take (Suc b) s" by simp
  with ab have "hd p = hd s" by (metis hd_take zero_less_Suc)
  with diff ab show False by auto
qed

lemma history_ok_append:
  "history_ok (c @ p) \<longleftrightarrow> history_ok c \<and> history_ok p \<and>
     (\<forall>a \<in> set c. \<forall>b \<in> set p. tl_term a < tl_term b \<and> tl_lsn a \<le> tl_lsn b)"
  by (auto simp: history_ok_def sorted_wrt_append)

lemma term_at_below:
  assumes "p \<noteq> [] \<longrightarrow> x < tl_lsn (hd p)"
  shows "term_at (c @ p) x = term_at c x"
proof -
  have "term_at p x = None" using assms by (cases p) auto
  then show ?thesis by (induction c) (auto split: option.splits)
qed

lemma term_at_within:
  assumes "history_ok (c @ p)" and "p \<noteq> []" and "tl_lsn (hd p) \<le> x"
  shows "\<exists>e \<in> set p. term_at (c @ p) x = Some (tl_term e)"
proof -
  have le: "tl_lsn e \<le> x" if "e \<in> set c" for e
    using assms that hd_in_set [OF assms(2)] unfolding history_ok_append by (meson order_trans)
  have "\<exists>e \<in> set p. term_at p x = Some (tl_term e)"
  proof -
    have "th_up_to p x \<noteq> []" using assms(2,3) by (cases p) auto
    then have "term_at p x = Some (tl_term (last (th_up_to p x)))"
      and "last (th_up_to p x) \<in> set p"
      using set_th_up_to [of p x] last_in_set [of "th_up_to p x"]
      by (auto simp: term_at_up_to split: list.splits)
    then show ?thesis by blast
  qed
  then show ?thesis using le by (induction c) auto
qed

lemma term_at_last:
  assumes "c \<noteq> []" and "\<forall>e \<in> set c. tl_lsn e \<le> x"
  shows "term_at c x = Some (tl_term (last c))"
  using assms by (induction c) (auto split: option.splits)

definition split_end :: "TermHistory \<Rightarrow> TermHistory \<Rightarrow> lsn \<Rightarrow> lsn" where
  "split_end p s wal_end =
     (if p = [] then wal_end
      else min (tl_lsn (hd p)) (if s = [] then wal_end else tl_lsn (hd s)))"

lemma find_highest_common_point_split:
  assumes "last_common_idx (c @ p) (c @ s) 0 None = Inr (Some (length c - 1))" and "c \<noteq> []"
    and "\<forall>e \<in> set (c @ s). tl_lsn e \<le> wal_end"
  shows "find_highest_common_point (c @ p) (c @ s) wal_end =
           Inr (Some \<lparr>tl_term = tl_term (last c), tl_lsn = split_end p s wal_end\<rparr>)"
proof -
  have "tl_lsn (last (c @ s)) \<le> wal_end" using assms(2,3) last_in_set [of "c @ s"] by blast
  then have w: "\<not> (c @ s \<noteq> [] \<and> \<not> tl_lsn (last (c @ s)) \<le> wal_end)" by simp
  have l: "(c @ p) ! (length c - 1) = last c"
    using assms(2) by (simp add: nth_append last_conv_nth)
  have n: "(c @ q) ! (length c - 1 + 1) = hd q" if "q \<noteq> []" for q
    using that assms(2) by (simp add: nth_append hd_conv_nth)
  have e: "(length c - 1 = length (c @ p) - 1) = (p = [])" using assms(2) by (cases c) auto
  have g: "(length c - 1 + 1 < length (c @ s)) = (s \<noteq> [])" using assms(2) by (cases c) auto
  show ?thesis
    unfolding find_highest_common_point_def assms(1) if_not_P [OF w] sum.case option.case l e g Let_def
    using n [of p] n [of s] by (cases "p = []"; cases "s = []") (simp_all add: split_end_def)
qed

lemma split_end_le:
  assumes "history_ok (c @ s)" and "\<forall>e \<in> set (c @ s). tl_lsn e \<le> wal_end"
  shows "split_end p s wal_end \<le> wal_end"
  using assms(2) by (auto simp: split_end_def min_le_iff_disj)

lemma split_end_agree:
  assumes "x < split_end p s wal_end" and "p = [] \<longrightarrow> s = []"
  shows "term_at (c @ p) x = term_at (c @ s) x"
proof -
  have "p \<noteq> [] \<longrightarrow> x < tl_lsn (hd p)" and "s \<noteq> [] \<longrightarrow> x < tl_lsn (hd s)"
    using assms by (auto simp: split_end_def split: if_splits)
  then show ?thesis by (simp add: term_at_below)
qed

lemma term_at_Some_set: "term_at h x = Some t \<Longrightarrow> t \<in> tl_term ` set h"
  by (induction h x rule: term_at.induct) (auto split: if_splits option.splits)

lemma split_end_differ:
  assumes ok: "history_ok (c @ p)" "history_ok (c @ s)"
    and disj: "tl_term ` set p \<inter> tl_term ` set s = {}"
    and lt: "split_end p s wal_end < wal_end" and ps: "p = [] \<longrightarrow> s = []"
  shows "term_at (c @ p) (split_end p s wal_end) \<noteq> term_at (c @ s) (split_end p s wal_end)"
proof -
  let ?L = "split_end p s wal_end"
  have p: "p \<noteq> []" using lt ps by (auto simp: split_end_def)
  have cp: "tl_term ` set c \<inter> tl_term ` set p = {}" and cs: "tl_term ` set c \<inter> tl_term ` set s = {}"
    using ok by (fastforce simp: history_ok_append)+
  have inP: "\<exists>e \<in> set p. term_at (c @ p) ?L = Some (tl_term e)" if "tl_lsn (hd p) \<le> ?L"
    using term_at_within [OF ok(1) p that] .
  have inS: "\<exists>e \<in> set s. term_at (c @ s) ?L = Some (tl_term e)" if "s \<noteq> []" "tl_lsn (hd s) \<le> ?L"
    using term_at_within [OF ok(2) that] .
  have inCp: "term_at (c @ p) ?L = term_at c ?L" if "?L < tl_lsn (hd p)"
    using that by (simp add: term_at_below)
  have inCs: "term_at (c @ s) ?L = term_at c ?L" if "s \<noteq> [] \<longrightarrow> ?L < tl_lsn (hd s)"
    using that by (simp add: term_at_below)
  show ?thesis
  proof (cases "tl_lsn (hd p) \<le> ?L")
    case True
    show ?thesis
    proof (cases "s \<noteq> [] \<and> tl_lsn (hd s) \<le> ?L")
      case True': True
      then show ?thesis using inP [OF True] inS disj by fastforce
    next
      case False
      then have "term_at (c @ s) ?L = term_at c ?L" by (intro inCs) auto
      then show ?thesis using inP [OF True] cp term_at_Some_set [of c ?L] by force
    qed
  next
    case False
    then have "s \<noteq> [] \<and> tl_lsn (hd s) \<le> ?L"
      using p lt by (auto simp: split_end_def min_def split: if_splits)
    with False show ?thesis using inS inCp cs term_at_Some_set [of c ?L] by force
  qed
qed

text \<open>C8: For well-formed histories that agree up to every term they share and start in the same
  term, where the safekeeper's switches lie within its WAL and are not of a later term than the
  proposer's, \<open>find_highest_common_point\<close> does not panic and returns exactly the point of
  divergence: below it both logs were written in the same terms, and either it is the end of the
  safekeeper's WAL or the byte at it was written in different terms.
\<close>

theorem find_highest_common_point_correct:
  assumes "history_ok prop_th" and "history_ok sk_th" and "histories_match prop_th sk_th"
    and "prop_th \<noteq> []" and "sk_th \<noteq> []" and "tl_term (hd prop_th) = tl_term (hd sk_th)"
    and "\<forall>e \<in> set sk_th. tl_lsn e \<le> wal_end"
    and "\<forall>e \<in> set sk_th. tl_term e \<le> tl_term (last prop_th)"
  shows "\<exists>p. find_highest_common_point prop_th sk_th wal_end = Inr (Some p) \<and>
           tl_lsn p \<le> wal_end \<and>
           (\<forall>x < tl_lsn p. term_at prop_th x = term_at sk_th x) \<and>
           (tl_lsn p < wal_end \<longrightarrow> term_at prop_th (tl_lsn p) \<noteq> term_at sk_th (tl_lsn p))"
proof -
  obtain r where r: "last_common_idx prop_th sk_th 0 None = Inr r"
    using last_common_idx_total [of prop_th sk_th 0 None] histories_match_nth [OF assms(3)] by metis
  obtain c p s where c: "prop_th = c @ p" "sk_th = c @ s"
    "r = (if c = [] then None else Some (0 + length c - 1))"
    and diff: "p \<noteq> [] \<longrightarrow> s \<noteq> [] \<longrightarrow> tl_term (hd p) \<noteq> tl_term (hd s)"
    using last_common_idx_prefix [OF r] by blast
  have cne: "c \<noteq> []" using c diff assms(4,5,6) by auto
  have disj: "tl_term ` set p \<inter> tl_term ` set s = {}"
    using histories_match_disjoint [OF _ diff] assms(3) c by blast
  have ps: "p = [] \<longrightarrow> s = []"
  proof
    assume "p = []"
    then have "\<forall>e \<in> set s. tl_term e \<le> tl_term (last c)" using assms(8) c by simp
    moreover have "\<forall>e \<in> set s. tl_term (last c) < tl_term e"
      using assms(2) c cne last_in_set [OF cne] by (auto simp: history_ok_append)
    ultimately show "s = []" by (metis leD list.set_intros(1) neq_Nil_conv)
  qed
  have f: "find_highest_common_point prop_th sk_th wal_end =
      Inr (Some \<lparr>tl_term = tl_term (last c), tl_lsn = split_end p s wal_end\<rparr>)"
    unfolding c(1,2) by (rule find_highest_common_point_split) (use r c cne assms(7) in auto)
  have "split_end p s wal_end \<le> wal_end"
    using split_end_le assms(2,7) unfolding c(2) by blast
  moreover have "\<forall>x < split_end p s wal_end. term_at prop_th x = term_at sk_th x"
    unfolding c(1,2) using split_end_agree [OF _ ps] by blast
  moreover have "split_end p s wal_end < wal_end \<longrightarrow>
      term_at prop_th (split_end p s wal_end) \<noteq> term_at sk_th (split_end p s wal_end)"
    using split_end_differ [OF _ _ disj _ ps] assms(1,2) unfolding c(1,2) by blast
  ultimately show ?thesis unfolding f by (intro exI conjI) (rule refl, simp_all)
qed

theorem find_highest_common_point_correct_witness:
  "\<exists>p. find_highest_common_point
         [\<lparr>tl_term = 1, tl_lsn = 10\<rparr>, \<lparr>tl_term = 2, tl_lsn = 20\<rparr>, \<lparr>tl_term = 4, tl_lsn = 40\<rparr>]
         [\<lparr>tl_term = 1, tl_lsn = 10\<rparr>, \<lparr>tl_term = 2, tl_lsn = 20\<rparr>, \<lparr>tl_term = 3, tl_lsn = 30\<rparr>] 35
       = Inr (Some p) \<and> p = \<lparr>tl_term = 2, tl_lsn = 30\<rparr> \<and>
       term_at [\<lparr>tl_term = 1, tl_lsn = 10\<rparr>, \<lparr>tl_term = 2, tl_lsn = 20\<rparr>, \<lparr>tl_term = 4, tl_lsn = 40\<rparr>] (tl_lsn p)
       \<noteq> term_at [\<lparr>tl_term = 1, tl_lsn = 10\<rparr>, \<lparr>tl_term = 2, tl_lsn = 20\<rparr>, \<lparr>tl_term = 3, tl_lsn = 30\<rparr>] (tl_lsn p)"
proof -
  let ?p_hist = "[\<lparr>tl_term = 1, tl_lsn = 10\<rparr>, \<lparr>tl_term = 2, tl_lsn = 20\<rparr>, \<lparr>tl_term = 4, tl_lsn = 40\<rparr>]"
  let ?sk = "[\<lparr>tl_term = 1, tl_lsn = 10\<rparr>, \<lparr>tl_term = 2, tl_lsn = 20\<rparr>, \<lparr>tl_term = 3, tl_lsn = 30\<rparr>]"
  have "histories_match ?p_hist ?sk"
    unfolding histories_match_def by (simp add: All_less_Suc numeral_3_eq_3)
  then have "\<exists>p. find_highest_common_point ?p_hist ?sk 35 = Inr (Some p) \<and> tl_lsn p \<le> 35 \<and>
      (\<forall>x < tl_lsn p. term_at ?p_hist x = term_at ?sk x) \<and>
      (tl_lsn p < 35 \<longrightarrow> term_at ?p_hist (tl_lsn p) \<noteq> term_at ?sk (tl_lsn p))"
    by (intro find_highest_common_point_correct) (simp_all add: history_ok_def)
  then show ?thesis by (simp add: find_highest_common_point_def)
qed

end
