(* ===== verification/Membership.thy ===== *)
theory Membership
  imports Prelude
begin

text \<open>
  Safekeeper membership configurations (\<open>libs/safekeeper_api/src/membership.rs\<close>):
  generations, safekeeper identities, member sets without duplicate identities, and joint
  configurations.
\<close>

section \<open>Definitions\<close>

type_synonym Generation = u32
type_synonym NodeId = u64

definition INVALID_GENERATION :: Generation where
  "INVALID_GENERATION = 0"

definition INITIAL_GENERATION :: Generation where
  "INITIAL_GENERATION = 1"

definition generation_previous :: "Generation \<Rightarrow> Generation option" where
  "generation_previous g = checked_sub g 1"

text \<open>\<open>Self(self.0 + 1)\<close>: wraps in a release build.\<close>

definition generation_next :: "Generation \<Rightarrow> Generation" where
  "generation_next g = g + 1"

text \<open>A Rust \<open>String\<close> is its UTF-8 bytes.\<close>

record SafekeeperId =
  sk_id :: NodeId
  sk_host :: bytes
  sk_pg_port :: u16

record MemberSet =
  ms_m :: "SafekeeperId list"

definition member_set_empty :: MemberSet where
  "member_set_empty = \<lparr>ms_m = []\<rparr>"

text \<open>\<open>HashSet::from_iter(ids).len() != members.len()\<close> detects duplicates.\<close>

definition member_set_new :: "SafekeeperId list \<Rightarrow> MemberSet res" where
  "member_set_new members =
     (if card (set (map sk_id members)) \<noteq> length members
      then Inl (Bail ''duplicate safekeeper id in the set'')
      else Inr \<lparr>ms_m = members\<rparr>)"

definition member_set_contains :: "MemberSet \<Rightarrow> NodeId \<Rightarrow> bool" where
  "member_set_contains ms sk = list_ex (\<lambda>m. sk_id m = sk) (ms_m ms)"

definition member_set_add :: "SafekeeperId \<Rightarrow> (MemberSet, unit) prog" where
  "member_set_add sk =
     bindE (getE (\<lambda>ms. member_set_contains ms (sk_id sk))) (\<lambda>present.
     thenE (guardE (\<not> present) (Bail ''sk is already member of the set''))
     (modifyE (\<lambda>ms. ms\<lparr>ms_m := ms_m ms @ [sk]\<rparr>)))"

record Configuration =
  generation :: Generation
  members :: MemberSet
  new_members :: "MemberSet option"

definition configuration_empty :: Configuration where
  "configuration_empty =
     \<lparr>generation = INVALID_GENERATION, members = member_set_empty, new_members = None\<rparr>"

definition configuration_new :: "MemberSet \<Rightarrow> Configuration" where
  "configuration_new ms = \<lparr>generation = INITIAL_GENERATION, members = ms, new_members = None\<rparr>"

definition configuration_contains :: "Configuration \<Rightarrow> NodeId \<Rightarrow> bool" where
  "configuration_contains c sk =
     (member_set_contains (members c) sk \<or>
      (case new_members c of None \<Rightarrow> False | Some m \<Rightarrow> member_set_contains m sk))"

section \<open>Member sets have no duplicate identity\<close>

definition member_set_ok :: "MemberSet \<Rightarrow> bool" where
  "member_set_ok ms = distinct (map sk_id (ms_m ms))"

lemma member_set_contains_iff:
  "member_set_contains ms sk \<longleftrightarrow> sk \<in> sk_id ` set (ms_m ms)"
  by (auto simp: member_set_contains_def list_ex_iff)

lemma member_set_empty_ok [simp]: "member_set_ok member_set_empty"
  by (simp add: member_set_ok_def member_set_empty_def)

lemma member_set_new_ok:
  "member_set_new ids = Inr ms \<longleftrightarrow> distinct (map sk_id ids) \<and> ms = \<lparr>ms_m = ids\<rparr>"
proof -
  have "card (set (map sk_id ids)) = length ids \<longleftrightarrow> distinct (map sk_id ids)"
    using card_distinct [of "map sk_id ids"] distinct_card [of "map sk_id ids"] by auto
  then show ?thesis by (auto simp: member_set_new_def)
qed

text \<open>\<open>add\<close> refuses exactly the identities already present and keeps the set duplicate free.\<close>

lemma member_set_add_run:
  "member_set_add sk ms =
     (if member_set_contains ms (sk_id sk)
      then (Inl (Bail ''sk is already member of the set''), ms)
      else (Inr (), ms\<lparr>ms_m := ms_m ms @ [sk]\<rparr>))"
  by (simp add: member_set_add_def bindE_def thenE_def)

lemma member_set_add_preserves:
  "member_set_ok ms \<Longrightarrow> member_set_ok (snd (member_set_add sk ms))"
  by (simp add: member_set_add_run member_set_ok_def member_set_contains_iff)

end
