(* ===== verification/Timeline_State.thy ===== *)
theory Timeline_State
  imports Term_History Membership Pg_Version Wal_Format
begin

text \<open>
  The persistent state of a timeline and its in-memory layer (\<open>safekeeper/src/state.rs\<close>). The
  control file storage the Rust code is generic over (\<open>trait control_file::Storage\<close>) is a
  record of operations; the locale \<open>ctrl_storage\<close> states what it promises and carries the
  lemmas on the transactional updates.
\<close>

section \<open>Persistent state\<close>

record ServerInfo =
  pg_version :: PgVersionId
  system_id :: u64
  wal_seg_size :: u32

datatype UploadStatus = InProgress | Uploaded | Deleting

record PartialRemoteSegment =
  prs_status :: UploadStatus
  prs_name :: bytes
  prs_commit_lsn :: lsn
  prs_flush_lsn :: lsn
  prs_term :: Term

type_synonym PartialBackupState = "PartialRemoteSegment list"

datatype EvictionState = Present | Offloaded lsn

text \<open>Identifiers are 16 bytes; a \<open>SystemTime\<close> counts from the Unix epoch.\<close>

type_synonym Id16 = bytes
type_synonym SystemTime = int

definition UNIX_EPOCH :: SystemTime where
  "UNIX_EPOCH = 0"

definition INITIAL_TERM :: Term where
  "INITIAL_TERM = 0"

record TenantTimelineId =
  tt_tenant_id :: Id16
  tt_timeline_id :: Id16

record TimelinePersistentState =
  tenant_id :: Id16
  timeline_id :: Id16
  mconf :: Configuration
  acceptor_state :: AcceptorState
  server :: ServerInfo
  proposer_uuid :: Id16
  timeline_start_lsn :: lsn
  local_start_lsn :: lsn
  commit_lsn :: lsn
  backup_lsn :: lsn
  peer_horizon_lsn :: lsn
  remote_consistent_lsn :: lsn
  partial_backup :: PartialBackupState
  eviction_state :: EvictionState
  creation_ts :: SystemTime

definition tps_new ::
  "SystemTime \<Rightarrow> TenantTimelineId \<Rightarrow> Configuration \<Rightarrow> ServerInfo \<Rightarrow> lsn \<Rightarrow> lsn
     \<Rightarrow> TimelinePersistentState res" where
  "tps_new now ttid conf server_info start_lsn c_lsn =
     (if wal_seg_size server_info = 0 then Inl (Bail ''UninitializedWalSegSize'')
      else if pg_version server_info = UNKNOWN_SERVER_VERSION
      then Inl (Bail ''UninitialinzedPgVersion'')
      else if c_lsn < start_lsn then Inl (Bail ''commit_lsn is smaller than start_lsn'')
      else
        let th = (if c_lsn \<noteq> LSN_INVALID
                  then [\<lparr>tl_term = INITIAL_TERM, tl_lsn = start_lsn\<rparr>]
                  else term_history_empty)
        in Inr \<lparr>tenant_id = tt_tenant_id ttid, timeline_id = tt_timeline_id ttid, mconf = conf,
                acceptor_state = \<lparr>acc_term = INITIAL_TERM, term_history = th\<rparr>,
                server = server_info, proposer_uuid = replicate 16 0,
                timeline_start_lsn = start_lsn, local_start_lsn = start_lsn,
                commit_lsn = c_lsn, backup_lsn = start_lsn, peer_horizon_lsn = start_lsn,
                remote_consistent_lsn = 0, partial_backup = [], eviction_state = Present,
                creation_ts = now\<rparr>)"

definition tps_empty :: "SystemTime \<Rightarrow> TimelinePersistentState res" where
  "tps_empty now =
     tps_new now \<lparr>tt_tenant_id = replicate 16 0, tt_timeline_id = replicate 16 0\<rparr>
       configuration_empty
       \<lparr>pg_version = version_of_major PG17, system_id = 0,
        wal_seg_size = word_of_nat WAL_SEGMENT_SIZE\<rparr>
       LSN_INVALID LSN_INVALID"

section \<open>In-memory layer\<close>

record TimelineMemState =
  mem_commit_lsn :: lsn
  mem_backup_lsn :: lsn
  mem_peer_horizon_lsn :: lsn
  mem_remote_consistent_lsn :: lsn
  mem_proposer_uuid :: Id16

record 'c TimelineState =
  inmem :: TimelineMemState
  pers :: 'c

text \<open>\<open>trait Storage\<close> of the control file: \<open>Deref\<close> to the persistent state, and \<open>persist\<close>.\<close>

record 'c ctrl_ops =
  ctrl_state :: "'c \<Rightarrow> TimelinePersistentState"
  ctrl_persist :: "TimelinePersistentState \<Rightarrow> ('c, unit) prog"

definition mem_of :: "TimelinePersistentState \<Rightarrow> TimelineMemState" where
  "mem_of s =
     \<lparr>mem_commit_lsn = commit_lsn s, mem_backup_lsn = backup_lsn s,
      mem_peer_horizon_lsn = peer_horizon_lsn s,
      mem_remote_consistent_lsn = remote_consistent_lsn s,
      mem_proposer_uuid = proposer_uuid s\<rparr>"

definition timeline_state_new :: "'c ctrl_ops \<Rightarrow> 'c \<Rightarrow> 'c TimelineState" where
  "timeline_state_new C state = \<lparr>inmem = mem_of (ctrl_state C state), pers = state\<rparr>"

text \<open>\<open>Deref for TimelineState\<close> reads the persistent part.\<close>

definition ts_deref :: "'c ctrl_ops \<Rightarrow> 'c TimelineState \<Rightarrow> TimelinePersistentState" where
  "ts_deref C ts = ctrl_state C (pers ts)"

definition start_change :: "'c ctrl_ops \<Rightarrow> 'c TimelineState \<Rightarrow> TimelinePersistentState" where
  "start_change C ts =
     (let s = ctrl_state C (pers ts); m = inmem ts in
      s\<lparr>commit_lsn := mem_commit_lsn m, backup_lsn := mem_backup_lsn m,
        peer_horizon_lsn := mem_peer_horizon_lsn m,
        remote_consistent_lsn := mem_remote_consistent_lsn m,
        proposer_uuid := mem_proposer_uuid m\<rparr>)"

definition pers_update :: "'c \<Rightarrow> 'c TimelineState \<Rightarrow> 'c TimelineState" where
  "pers_update c ts = ts\<lparr>pers := c\<rparr>"

definition finish_change ::
  "'c ctrl_ops \<Rightarrow> TimelinePersistentState \<Rightarrow> ('c TimelineState, unit) prog" where
  "finish_change C s =
     bindE (getE (ts_deref C)) (\<lambda>cur.
     thenE (if s = cur then retE () else zoomE pers pers_update (ctrl_persist C s))
     (modifyE (\<lambda>ts. ts\<lparr>inmem := (inmem ts)\<lparr>mem_commit_lsn := commit_lsn s,
        mem_backup_lsn := backup_lsn s, mem_peer_horizon_lsn := peer_horizon_lsn s,
        mem_remote_consistent_lsn := remote_consistent_lsn s,
        mem_proposer_uuid := proposer_uuid s\<rparr>\<rparr>)))"

definition ts_flush :: "'c ctrl_ops \<Rightarrow> ('c TimelineState, unit) prog" where
  "ts_flush C = bindE (getE (start_change C)) (finish_change C)"

record TimelineTermBumpResponse =
  previous_term :: Term
  current_term :: Term

definition with_term :: "Term \<Rightarrow> TimelinePersistentState \<Rightarrow> TimelinePersistentState" where
  "with_term t s = s\<lparr>acceptor_state := (acceptor_state s)\<lparr>acc_term := t\<rparr>\<rparr>"

definition deref_term :: "'c ctrl_ops \<Rightarrow> 'c TimelineState \<Rightarrow> Term" where
  "deref_term C ts = acc_term (acceptor_state (ts_deref C ts))"

text \<open>\<open>state.acceptor_state.term + 1\<close> wraps in a release build.\<close>

definition term_bump ::
  "'c ctrl_ops \<Rightarrow> Term option \<Rightarrow> ('c TimelineState, TimelineTermBumpResponse) prog" where
  "term_bump C target =
     bindE (getE (deref_term C)) (\<lambda>before.
     bindE (getE (start_change C)) (\<lambda>state.
     let cur = acc_term (acceptor_state state);
         new = (case target of Some t \<Rightarrow> max cur t | None \<Rightarrow> cur + 1)
     in thenE (if cur < new then finish_change C (with_term new state) else retE ())
        (bindE (getE (deref_term C)) (\<lambda>after.
         retE \<lparr>previous_term = before, current_term = after\<rparr>))))"

record MembershipSwitchResult =
  previous_conf :: Configuration
  current_conf :: Configuration

definition membership_switch ::
  "'c ctrl_ops \<Rightarrow> Configuration \<Rightarrow> ('c TimelineState, MembershipSwitchResult) prog" where
  "membership_switch C target =
     bindE (getE (\<lambda>ts. mconf (ts_deref C ts))) (\<lambda>before.
     thenE (if generation target \<le> generation before then retE ()
            else bindE (getE (start_change C)) (\<lambda>state.
                 finish_change C (state\<lparr>mconf := target\<rparr>)))
     (bindE (getE (\<lambda>ts. mconf (ts_deref C ts))) (\<lambda>after.
      retE \<lparr>previous_conf = before, current_conf = after\<rparr>)))"

section \<open>What a control file storage promises\<close>

text \<open>
  \<open>persist\<close> replaces the state when it succeeds and leaves it alone when it fails; both keep
  the storage's own invariant. The contract may be restricted to the changes \<open>allowed\<close> from
  the current state.
\<close>

lemma ts_deref_simps [simp]:
  "ts_deref C (ts\<lparr>inmem := m\<rparr>) = ts_deref C ts"
  "ts_deref C (pers_update c ts) = ctrl_state C c"
  "inmem (pers_update c ts) = inmem ts" "pers (pers_update c ts) = c"
  by (simp_all add: ts_deref_def pers_update_def)

lemma mem_of_updates:
  "m\<lparr>mem_commit_lsn := commit_lsn s, mem_backup_lsn := backup_lsn s,
     mem_peer_horizon_lsn := peer_horizon_lsn s,
     mem_remote_consistent_lsn := remote_consistent_lsn s,
     mem_proposer_uuid := proposer_uuid s\<rparr> = mem_of s"
  by (simp add: mem_of_def)

text \<open>How the persistent state of one timeline evolves.\<close>

definition state_le :: "TimelinePersistentState \<Rightarrow> TimelinePersistentState \<Rightarrow> bool" where
  "state_le s v \<longleftrightarrow>
     acc_term (acceptor_state s) \<le> acc_term (acceptor_state v) \<and>
     generation (mconf s) \<le> generation (mconf v) \<and> commit_lsn s \<le> commit_lsn v \<and>
     wal_seg_size (server v) = wal_seg_size (server s) \<and>
     (timeline_start_lsn s \<noteq> 0 \<longrightarrow> timeline_start_lsn v = timeline_start_lsn s) \<and>
     tenant_id v = tenant_id s \<and> timeline_id v = timeline_id s"

lemma state_le_refl [simp]: "state_le s s"
  by (simp add: state_le_def)

lemma state_le_trans: "state_le a b \<Longrightarrow> state_le b c \<Longrightarrow> state_le a c"
  by (auto simp: state_le_def)

locale ctrl_storage =
  fixes C :: "'c ctrl_ops" and inv :: "'c \<Rightarrow> bool"
    and allowed :: "TimelinePersistentState \<Rightarrow> TimelinePersistentState \<Rightarrow> bool"
  assumes persist_ok: "inv c \<Longrightarrow> allowed (ctrl_state C c) s \<Longrightarrow> ctrl_persist C s c = (Inr (), c') \<Longrightarrow>
      ctrl_state C c' = s \<and> inv c'"
    and persist_err: "inv c \<Longrightarrow> allowed (ctrl_state C c) s \<Longrightarrow> ctrl_persist C s c = (Inl e, c') \<Longrightarrow>
      ctrl_state C c' = ctrl_state C c \<and> inv c'"
begin

lemma wp_persist:
  assumes "inv c" and "allowed (ctrl_state C c) s"
    and "\<And>c'. ctrl_state C c' = s \<Longrightarrow> inv c' \<Longrightarrow> Q () c'"
    and "\<And>e c'. ctrl_state C c' = ctrl_state C c \<Longrightarrow> inv c' \<Longrightarrow> E e c'"
  shows "wp (ctrl_persist C s) Q E c"
proof (rule wp_runI)
  fix e c' assume "ctrl_persist C s c = (Inl e, c')"
  then show "E e c'" using persist_err [OF assms(1,2)] assms(4) by blast
next
  fix x c' assume "ctrl_persist C s c = (Inr x, c')"
  then show "Q x c'" using persist_ok [OF assms(1,2)] assms(3) by (cases x) blast
qed

text \<open>A change is all or nothing in memory: on success both layers hold it, on failure neither does.\<close>

lemma finish_change_wp:
  assumes "inv (pers ts)" and "allowed (ts_deref C ts) s"
  shows "wp (finish_change C s)
           (\<lambda>_ ts'. ts_deref C ts' = s \<and> inmem ts' = mem_of s \<and> inv (pers ts'))
           (\<lambda>_ ts'. ts_deref C ts' = ts_deref C ts \<and> inmem ts' = inmem ts \<and> inv (pers ts')) ts"
proof (cases "s = ts_deref C ts")
  case True
  then show ?thesis using assms
    by (simp add: finish_change_def wp_simps mem_of_updates)
next
  case False
  then show ?thesis
    by (simp add: finish_change_def wp_simps mem_of_updates)
      (rule wp_persist [OF assms [unfolded ts_deref_def]]; simp add: ts_deref_def)
qed

lemma finish_change_okD:
  assumes "inv (pers ts)" and "allowed (ts_deref C ts) s" and "finish_change C s ts = (Inr (), ts')"
  shows "ts_deref C ts' = s" "inmem ts' = mem_of s" "inv (pers ts')"
  using wp_runD [OF finish_change_wp [OF assms(1,2)] assms(3)] by simp_all

lemma finish_change_errD:
  assumes "inv (pers ts)" and "allowed (ts_deref C ts) s" and "finish_change C s ts = (Inl e, ts')"
  shows "ts_deref C ts' = ts_deref C ts" "inmem ts' = inmem ts" "inv (pers ts')"
  using wp_runD [OF finish_change_wp [OF assms(1,2)] assms(3)] by simp_all

text \<open>After a change the two layers agree, so a following change starts from exactly that state.\<close>

lemma start_change_synced: "inmem ts = mem_of (ts_deref C ts) \<Longrightarrow> start_change C ts = ts_deref C ts"
  by (simp add: start_change_def mem_of_def ts_deref_def Let_def)

lemma finish_then_start:
  assumes "inv (pers ts)" and "allowed (ts_deref C ts) s" and "finish_change C s ts = (Inr (), ts')"
  shows "start_change C ts' = s"
  using finish_change_okD [OF assms] start_change_synced [of ts'] by simp

lemma term_bump_wp:
  assumes "inv (pers ts)" and "\<And>s. allowed (ts_deref C ts) s"
  shows "wp (term_bump C target)
      (\<lambda>r ts'. previous_term r = deref_term C ts \<and> current_term r = deref_term C ts' \<and>
         deref_term C ts' = (case target of Some t \<Rightarrow> max (deref_term C ts) t
                             | None \<Rightarrow> max (deref_term C ts) (deref_term C ts + 1)) \<and>
         inv (pers ts'))
      (\<lambda>_ ts'. ts_deref C ts' = ts_deref C ts \<and> inmem ts' = inmem ts \<and> inv (pers ts')) ts"
proof -
  have cur: "acc_term (acceptor_state (start_change C ts)) = deref_term C ts"
    by (simp add: start_change_def deref_term_def ts_deref_def Let_def)
  show ?thesis
    by (auto simp: term_bump_def wp_simps cur Let_def assms deref_term_def with_term_def max_def
        split: option.splits intro!: wp_mono [OF finish_change_wp [OF assms]])
qed

lemma membership_switch_wp:
  assumes "inv (pers ts)" and "\<And>s. allowed (ts_deref C ts) s"
  shows "wp (membership_switch C target)
      (\<lambda>r ts'. previous_conf r = mconf (ts_deref C ts) \<and> current_conf r = mconf (ts_deref C ts') \<and>
         mconf (ts_deref C ts') =
           (if generation target \<le> generation (mconf (ts_deref C ts))
            then mconf (ts_deref C ts) else target) \<and>
         inv (pers ts'))
      (\<lambda>_ ts'. ts_deref C ts' = ts_deref C ts \<and> inmem ts' = inmem ts \<and> inv (pers ts')) ts"
  by (auto simp: membership_switch_def wp_simps assms
      intro!: wp_mono [OF finish_change_wp [OF assms]])

end

end
