(* ===== verification/Fs.thy ===== *)
theory Fs
  imports Prelude "HOL-Library.AList"
begin

text \<open>
  The file system calls of \<open>std::fs\<close> and \<open>tokio::fs\<close> the safekeeper makes in a timeline
  directory, with the durability they give, and \<open>durable_rename\<close> of
  \<open>libs/utils/src/crashsafe.rs\<close>. Every call may fail: the outcomes are a script in the state,
  so a statement for all scripts covers every sequence of failures, and a crash after any call.
\<close>

section \<open>Files, directories and outcomes\<close>

type_synonym path = string

text \<open>
  A file carries its identity (inode), its bytes, and the length of the prefix known to be on
  stable storage.
\<close>

record fnode =
  f_ino :: nat
  f_data :: bytes
  f_synced :: nat

type_synonym dir = "(path \<times> fnode) list"

text \<open>
  \<open>IoFail n\<close>: the call reports an error; for a write \<open>n\<close> bytes reached the file, for any
  other call the effect took place if \<open>n\<close> is not zero.
\<close>

datatype io_outcome = IoOk | IoFail nat

text \<open>
  The directory as processes see it, the earlier directories a crash may still fall back to
  because the directory was not synced since, and the outcomes of the coming calls (all
  succeed once the script is used up).
\<close>

record fs =
  fs_cur :: dir
  fs_prev :: "dir list"
  fs_next :: nat
  fs_io :: "io_outcome list"

definition fs_file :: "fs \<Rightarrow> path \<Rightarrow> fnode option" where
  "fs_file s p = map_of (fs_cur s) p"

definition io_step :: "(fs, nat option) prog" where
  "io_step s =
     (case fs_io s of
        [] \<Rightarrow> (Inr None, s)
      | IoOk # r \<Rightarrow> (Inr None, s\<lparr>fs_io := r\<rparr>)
      | IoFail n # r \<Rightarrow> (Inr (Some n), s\<lparr>fs_io := r\<rparr>))"

definition io_effect :: "(fs \<Rightarrow> fs) \<Rightarrow> (nat \<Rightarrow> fs \<Rightarrow> fs) \<Rightarrow> (fs, unit) prog" where
  "io_effect full part =
     bindE io_step (\<lambda>out. case out of
        None \<Rightarrow> modifyE full
      | Some n \<Rightarrow> thenE (modifyE (part n)) (failE IoError))"

section \<open>Effects of the calls\<close>

text \<open>Bytes and metadata of one file change in every directory that knows the file.\<close>

definition update_ino :: "nat \<Rightarrow> (fnode \<Rightarrow> fnode) \<Rightarrow> dir \<Rightarrow> dir" where
  "update_ino i g d = map (\<lambda>(p, f). (p, if f_ino f = i then g f else f)) d"

definition change_file :: "path \<Rightarrow> (fnode \<Rightarrow> fnode) \<Rightarrow> fs \<Rightarrow> fs" where
  "change_file p g s =
     (case fs_file s p of
        None \<Rightarrow> s
      | Some f \<Rightarrow> s\<lparr>fs_cur := AList.update p (g f) (fs_cur s),
                    fs_prev := map (update_ino (f_ino f) g) (fs_prev s)\<rparr>)"

definition change_dir :: "(dir \<Rightarrow> dir) \<Rightarrow> fs \<Rightarrow> fs" where
  "change_dir h s = s\<lparr>fs_cur := h (fs_cur s), fs_prev := fs_cur s # fs_prev s\<rparr>"

definition write_at :: "nat \<Rightarrow> bytes \<Rightarrow> fnode \<Rightarrow> fnode" where
  "write_at off buf f =
     f\<lparr>f_data := take off (f_data f) @ replicate (off - length (f_data f)) 0 @ buf
                 @ drop (off + length buf) (f_data f),
       f_synced := min (f_synced f) off\<rparr>"

definition resize :: "nat \<Rightarrow> fnode \<Rightarrow> fnode" where
  "resize n f =
     f\<lparr>f_data := take n (f_data f) @ replicate (n - length (f_data f)) 0,
       f_synced := min (f_synced f) n\<rparr>"

definition synced :: "fnode \<Rightarrow> fnode" where
  "synced f = f\<lparr>f_synced := length (f_data f)\<rparr>"

definition new_entry :: "path \<Rightarrow> fs \<Rightarrow> fs" where
  "new_entry p s =
     (change_dir (AList.update p \<lparr>f_ino = fs_next s, f_data = [], f_synced = 0\<rparr>) s)
        \<lparr>fs_next := Suc (fs_next s)\<rparr>"

definition move_entry :: "path \<Rightarrow> path \<Rightarrow> fnode \<Rightarrow> dir \<Rightarrow> dir" where
  "move_entry a b f d = AList.update b f (AList.delete a d)"

section \<open>The calls\<close>

text \<open>\<open>File::create\<close> truncates an existing file.\<close>

definition fs_create :: "path \<Rightarrow> (fs, unit) prog" where
  "fs_create p =
     (let eff = (\<lambda>s. case fs_file s p of None \<Rightarrow> new_entry p s | Some _ \<Rightarrow> change_file p (resize 0) s)
      in io_effect eff (\<lambda>n. if n = 0 then id else eff))"

text \<open>\<open>OpenOptions::open\<close> of an existing file; \<open>Inr None\<close> is \<open>NotFound\<close>.\<close>

definition fs_open :: "path \<Rightarrow> (fs, fnode option) prog" where
  "fs_open p = bindE io_step (\<lambda>out. case out of
      None \<Rightarrow> getE (\<lambda>s. fs_file s p)
    | Some _ \<Rightarrow> failE IoError)"

definition fs_write :: "path \<Rightarrow> nat \<Rightarrow> bytes \<Rightarrow> (fs, unit) prog" where
  "fs_write p off buf =
     io_effect (change_file p (write_at off buf)) (\<lambda>n. change_file p (write_at off (take n buf)))"

text \<open>\<open>flush\<close> of an asynchronous file and \<open>seek\<close> move no bytes; they may report an error.\<close>

definition fs_nop :: "(fs, unit) prog" where
  "fs_nop = io_effect id (\<lambda>_. id)"

definition fs_set_len :: "path \<Rightarrow> nat \<Rightarrow> (fs, unit) prog" where
  "fs_set_len p n =
     io_effect (change_file p (resize n)) (\<lambda>k. if k = 0 then id else change_file p (resize n))"

definition fs_sync_file :: "path \<Rightarrow> (fs, unit) prog" where
  "fs_sync_file p = io_effect (change_file p synced) (\<lambda>_. id)"

definition fs_sync_dir :: "(fs, unit) prog" where
  "fs_sync_dir = io_effect (\<lambda>s. s\<lparr>fs_prev := []\<rparr>) (\<lambda>_. id)"

definition fs_rename :: "path \<Rightarrow> path \<Rightarrow> (fs, unit) prog" where
  "fs_rename a b = bindE (getE (\<lambda>s. fs_file s a)) (\<lambda>fo. case fo of
      None \<Rightarrow> failE IoError
    | Some f \<Rightarrow> io_effect (change_dir (move_entry a b f))
                  (\<lambda>n. if n = 0 then id else change_dir (move_entry a b f)))"

text \<open>\<open>remove_file\<close>: \<open>Inr False\<close> is \<open>NotFound\<close>.\<close>

definition fs_remove :: "path \<Rightarrow> (fs, bool) prog" where
  "fs_remove p = bindE (getE (\<lambda>s. fs_file s p)) (\<lambda>fo. case fo of
      None \<Rightarrow> retE False
    | Some _ \<Rightarrow> thenE (io_effect (change_dir (AList.delete p))
                              (\<lambda>n. if n = 0 then id else change_dir (AList.delete p)))
                      (retE True))"

section \<open>Crash-safe renaming\<close>

text \<open>\<open>fsync_async\<close> opens the file and syncs it.\<close>

definition fsync_async_opt :: "path \<Rightarrow> bool \<Rightarrow> (fs, unit) prog" where
  "fsync_async_opt p do_fsync =
     (if do_fsync
      then bindE (fs_open p) (\<lambda>fo. case fo of None \<Rightarrow> failE IoError | Some _ \<Rightarrow> fs_sync_file p)
      else retE ())"

definition fsync_dir_opt :: "bool \<Rightarrow> (fs, unit) prog" where
  "fsync_dir_opt do_fsync = (if do_fsync then thenE fs_nop fs_sync_dir else retE ())"

definition durable_rename :: "path \<Rightarrow> path \<Rightarrow> bool \<Rightarrow> (fs, unit) prog" where
  "durable_rename old_path new_path do_fsync =
     thenE (fsync_async_opt old_path do_fsync)
     (thenE (fs_rename old_path new_path)
     (fsync_dir_opt do_fsync))"

section \<open>Crashes\<close>

text \<open>
  A crash keeps the current or an earlier not yet superseded directory. Of each file only the
  synced prefix is certain; a completely synced file survives as it is.
\<close>

definition survives :: "fnode \<Rightarrow> fnode \<Rightarrow> bool" where
  "survives f g \<longleftrightarrow>
     f_ino g = f_ino f \<and> f_synced g = length (f_data g) \<and>
     take (f_synced f) (f_data g) = take (f_synced f) (f_data f) \<and>
     (f_synced f = length (f_data f) \<longrightarrow> f_data g = f_data f)"

definition crash_of :: "fs \<Rightarrow> fs \<Rightarrow> bool" where
  "crash_of s s' \<longleftrightarrow>
     (\<exists>d \<in> set (fs_cur s # fs_prev s). \<forall>p. rel_option survives (map_of d p) (fs_file s' p))"

section \<open>Reasoning about the calls\<close>

lemma wp_io_step:
  assumes "\<And>io. Q None (s\<lparr>fs_io := io\<rparr>)" and "\<And>n io. Q (Some n) (s\<lparr>fs_io := io\<rparr>)"
  shows "wp io_step Q E s"
proof (cases "fs_io s")
  case Nil
  then have "s = s\<lparr>fs_io := []\<rparr>" by simp
  then have "Q None s" using assms(1) by metis
  then show ?thesis using Nil by (simp add: wp_def io_step_def)
next
  case (Cons x xs)
  then show ?thesis using assms by (cases x) (simp_all add: wp_def io_step_def)
qed

lemma wp_io_effect:
  assumes "\<And>io. Q () (full (s\<lparr>fs_io := io\<rparr>))" and "\<And>n io. E IoError (part n (s\<lparr>fs_io := io\<rparr>))"
  shows "wp (io_effect full part) Q E s"
  unfolding io_effect_def wp_bindE by (rule wp_io_step) (simp_all add: wp_simps assms)

lemma wp_fs_open:
  assumes "\<And>io. Q (fs_file s p) (s\<lparr>fs_io := io\<rparr>)" and "\<And>io. E IoError (s\<lparr>fs_io := io\<rparr>)"
  shows "wp (fs_open p) Q E s"
  unfolding fs_open_def wp_bindE
  by (rule wp_io_step) (use assms in \<open>simp_all add: wp_simps fs_file_def\<close>)

lemma fs_file_simps [simp]:
  "fs_file (s\<lparr>fs_io := io\<rparr>) = fs_file s"
  "fs_file (s\<lparr>fs_prev := ds\<rparr>) = fs_file s"
  "fs_file (s\<lparr>fs_next := n\<rparr>) = fs_file s"
  by (simp_all add: fs_file_def fun_eq_iff)

lemma fs_file_change_file [simp]:
  "fs_file (change_file p g s) q = (if q = p then map_option g (fs_file s p) else fs_file s q)"
  by (auto simp: change_file_def fs_file_def update_conv' split: option.splits)

lemma fs_file_change_dir [simp]: "fs_file (change_dir h s) q = map_of (h (fs_cur s)) q"
  by (simp add: change_dir_def fs_file_def)

lemma fs_file_new_entry [simp]:
  "fs_file (new_entry p s) q =
     (if q = p then Some \<lparr>f_ino = fs_next s, f_data = [], f_synced = 0\<rparr> else fs_file s q)"
  by (simp add: new_entry_def update_conv') (simp add: fs_file_def)

lemma map_of_move_entry [simp]:
  "map_of (move_entry a b f d) q = (if q = b then Some f else if q = a then None else map_of d q)"
  by (auto simp: move_entry_def update_conv' delete_conv')

lemma map_of_update_ino:
  "map_of (update_ino i g d) p = map_option (\<lambda>f. if f_ino f = i then g f else f) (map_of d p)"
  by (simp add: update_ino_def map_of_map)

lemma write_at_simps [simp]:
  "f_ino (write_at off buf f) = f_ino f" "f_ino (resize n f) = f_ino f" "f_ino (synced f) = f_ino f"
  "f_data (synced f) = f_data f" "f_synced (synced f) = length (f_data f)"
  by (simp_all add: write_at_def resize_def synced_def)

lemma length_write_at [simp]:
  "length (f_data (write_at off buf f)) = max (length (f_data f)) (off + length buf)"
  by (auto simp: write_at_def max_def)

lemma length_resize [simp]: "length (f_data (resize n f)) = n"
  by (simp add: resize_def)

lemma write_at_synced_le: "f_synced f \<le> length (f_data f) \<Longrightarrow> f_synced (write_at off buf f) \<le> length (f_data f)"
  by (simp add: write_at_def)

text \<open>Bytes below the write position, and bytes after the written range, are kept.\<close>

lemma write_at_nth:
  assumes "i < length (f_data f)" and "i < off \<or> off + length buf \<le> i"
  shows "f_data (write_at off buf f) ! i = f_data f ! i"
  using assms by (auto simp: write_at_def nth_append min_def)

lemma write_at_nth_new:
  assumes "off \<le> length (f_data f)" and "off \<le> i" and "i < off + length buf"
  shows "f_data (write_at off buf f) ! i = buf ! (i - off)"
  using assms by (auto simp: write_at_def nth_append min_def)

end
