(* ===== verification/Wal_Storage.thy ===== *)
theory Wal_Storage
  imports Wal_Decoder Timeline_State Fs
begin

text \<open>
  WAL storage on disk (\<open>safekeeper/src/wal_storage.rs\<close> and \<open>find_end_of_wal\<close> of
  \<open>libs/postgres_ffi/src/xlog_utils.rs\<close>): segment files, sequential writes, flushing,
  truncation and removal of segments, and the restoration of the end of WAL on start. The trait
  \<open>wal_storage::Storage\<close> the consensus code is generic over is a record of operations.
\<close>

section \<open>The storage\<close>

text \<open>An open file is the name it was opened under with its write position.\<close>

type_synonym fhandle = "path \<times> nat"

record PhysicalStorage =
  ps_timeline_dir :: fs
  ps_no_sync :: bool
  ps_wal_seg_size :: u64
  ps_pg_version :: PgVersionId
  ps_system_id :: u64
  write_lsn :: lsn
  write_record_lsn :: lsn
  flush_lsn :: lsn
  flush_record_lsn :: lsn
  decoder :: WalStreamDecoder
  wal_file :: "fhandle option"
  pending_wal_truncation :: bool

definition ps_dir :: "(fs, 'a) prog \<Rightarrow> (PhysicalStorage, 'a) prog" where
  "ps_dir = zoomE ps_timeline_dir (\<lambda>d st. st\<lparr>ps_timeline_dir := d\<rparr>)"

definition wal_file_paths :: "u64 \<Rightarrow> u64 \<Rightarrow> path \<times> path" where
  "wal_file_paths segno sz =
     (let wal_file_name = XLogFileName PG_TLI segno (unat sz) in (wal_file_name, wal_file_name @ ''.partial''))"

subsection \<open>Restoring the end of WAL\<close>

text \<open>\<open>.partial\<close> first, then the complete segment.\<close>

definition open_wal_segment :: "path \<Rightarrow> (fs, fnode option) prog" where
  "open_wal_segment p =
     bindE (fs_open (p @ ''.partial'')) (\<lambda>fo. case fo of
        Some f \<Rightarrow> retE (Some f)
      | None \<Rightarrow> fs_open p)"

text \<open>
  Reads of up to one page (short only at the end of the file, as for a regular file); the inner
  loop ends at the segment's end, the outer at a missing segment. A round that continues has read
  at least one byte.
\<close>

definition read_page :: "fnode \<Rightarrow> nat \<Rightarrow> (fs, bytes) prog" where
  "read_page f off = thenE fs_nop (retE (take 8192 (drop off (f_data f))))"

datatype ('a, 'b) loop = Stop 'a | Next 'b

type_synonym find_end_state = "lsn \<times> lsn \<times> WalStreamDecoder"

definition find_end_round ::
  "wal_env \<Rightarrow> find_end_state \<Rightarrow> bytes \<Rightarrow> (lsn, find_end_state) loop res" where
  "find_end_round E s buf =
     (case s of (result, curr_lsn, d) \<Rightarrow>
        if buf = [] then Inr (Stop result)
        else map_res (\<lambda>curr'.
               case drain E (feed_bytes buf d) of
                 (rs, e, d') \<Rightarrow>
                   let result' = (if rs = [] then result else fst (last rs))
                   in if e = None then Next (result', curr', d') else Stop result')
             (lsn_add curr_lsn (word_of_nat (length buf))))"

definition find_end_step ::
  "wal_env \<Rightarrow> u64 \<Rightarrow> fnode option \<Rightarrow> find_end_state \<Rightarrow>
     (fs, (lsn, fnode option \<times> find_end_state) loop) prog" where
  "find_end_step E sz fo st =
     (case st of (result, curr_lsn, d) \<Rightarrow>
        bindE (case fo of
                 Some f \<Rightarrow> retE (Some f)
               | None \<Rightarrow> open_wal_segment (XLogFileName PG_TLI (segment_number curr_lsn sz) (unat sz)))
          (\<lambda>fo'. case fo' of
             None \<Rightarrow> retE (Stop result)
           | Some f \<Rightarrow>
               bindE (read_page f (unat (segment_offset curr_lsn sz))) (\<lambda>buf.
               bindE (liftR (find_end_round E st buf)) (\<lambda>l. retE (case l of
                   Stop r \<Rightarrow> Stop r
                 | Next st' \<Rightarrow>
                     Next (if segment_number (fst (snd st')) sz = segment_number curr_lsn sz
                           then Some f else None, st'))))))"

lemma find_end_round_Next:
  assumes "find_end_round E st buf = Inr (Next st')" and "length buf < 2 ^ 64"
  shows "unat (fst (snd st)) < unat (fst (snd st'))"
proof -
  obtain r c d where st: "st = (r, c, d)" by (cases st)
  obtain rs e d' where dr: "drain E (feed_bytes buf d) = (rs, e, d')" by (cases "drain E (feed_bytes buf d)")
  have ne: "buf \<noteq> []" using assms(1) unfolding find_end_round_def st by (auto split: if_splits)
  then obtain c' where c': "lsn_add c (word_of_nat (length buf)) = Inr c'" and "fst (snd st') = c'"
    using assms(1) unfolding find_end_round_def st
    by (auto simp: map_res_Inr dr Let_def split: if_splits)
  moreover have "unat c' = unat c + length buf" by (rule lsn_add_unat_nat [OF c' assms(2)])
  ultimately show ?thesis using ne by (simp add: st)
qed

lemma find_end_step_Next:
  assumes "find_end_step E sz fo st s = (Inr (Next (fo', st')), s')"
  shows "unat (fst (snd st)) < unat (fst (snd st'))"
proof -
  obtain r c d where st: "st = (r, c, d)" by (cases st)
  obtain fo1 s1 where "(case fo1 of None \<Rightarrow> retE (Stop r)
     | Some f \<Rightarrow> bindE (read_page f (unat (segment_offset c sz))) (\<lambda>buf.
         bindE (liftR (find_end_round E st buf)) (\<lambda>l. retE (case l of Stop r \<Rightarrow> Stop r
           | Next st' \<Rightarrow> Next (if segment_number (fst (snd st')) sz = segment_number c sz
                           then Some f else None, st'))))) s1 = (Inr (Next (fo', st')), s')"
    using assms unfolding find_end_step_def st prod.case by (rule bindE_InrE)
  then obtain f s1 where "bindE (read_page f (unat (segment_offset c sz))) (\<lambda>buf.
         bindE (liftR (find_end_round E st buf)) (\<lambda>l. retE (case l of Stop r \<Rightarrow> Stop r
           | Next st' \<Rightarrow> Next (if segment_number (fst (snd st')) sz = segment_number c sz
                           then Some f else None, st')))) s1 = (Inr (Next (fo', st')), s')"
    by (cases fo1) auto
  then obtain buf s2 l where buf: "read_page f (unat (segment_offset c sz)) s1 = (Inr buf, s2)"
    and l: "find_end_round E st buf = Inr l"
    and next_l: "(case l of Stop r \<Rightarrow> Stop r | Next st' \<Rightarrow> Next (if segment_number (fst (snd st')) sz
      = segment_number c sz then Some f else None, st')) = Next (fo', st')"
    by (elim bindE_InrE) simp
  have "length buf \<le> 8192"
    using buf by (auto simp: read_page_def thenE_def elim!: bindE_InrE)
  moreover have "l = Next st'" using next_l by (cases l) simp_all
  ultimately show ?thesis using find_end_round_Next [of E st buf st'] l by simp
qed

function find_end_loop ::
  "wal_env \<Rightarrow> u64 \<Rightarrow> fnode option \<Rightarrow> find_end_state \<Rightarrow> (fs, lsn) prog" where
  "find_end_loop E sz fo st s =
     (case find_end_step E sz fo st s of
        (Inl e, s') \<Rightarrow> (Inl e, s')
      | (Inr l, s') \<Rightarrow>
          (case l of Stop r \<Rightarrow> (Inr r, s') | Next x \<Rightarrow> find_end_loop E sz (fst x) (snd x) s'))"
  by pat_completeness auto
termination
proof (relation "measure (\<lambda>(E, sz, fo, st, s). 2 ^ 64 - unat (fst (snd st)))", goal_cases)
  case (2 E sz fo st s r s' l x)
  then have "find_end_step E sz fo st s = (Inr (Next (fst x, snd x)), s')" by (simp only: prod.collapse)
  then have "unat (fst (snd st)) < unat (fst (snd (snd x)))" by (rule find_end_step_Next)
  then have "2 ^ 64 - unat (fst (snd (snd x))) < 2 ^ 64 - unat (fst (snd st))"
    using unat_bounds(4) [of "fst (snd (snd x))"] by (intro diff_less_mono2) (simp_all only: less_trans)
  then show ?case by (simp only: in_measure prod.case)
qed (rule wf_measure)

definition find_end_of_wal :: "wal_env \<Rightarrow> PgMajorVersion \<Rightarrow> u64 \<Rightarrow> lsn \<Rightarrow> (fs, lsn) prog" where
  "find_end_of_wal E ver sz start_lsn =
     thenE (guardE (sz \<noteq> 0) (Panic ''attempt to divide by zero''))
     (find_end_loop E sz None (start_lsn, start_lsn, decoder_new start_lsn ver))"

text \<open>
  \<open>PgMajorVersion::try_from(..).unwrap()\<close> panics for an unknown version. The directory is part
  of the storage's state.
\<close>

definition major_version :: "PgVersionId \<Rightarrow> PgMajorVersion res" where
  "major_version v = (case major_of_version v of Some m \<Rightarrow> Inr m | None \<Rightarrow> Inl (Panic ''unwrap''))"

definition storage_new :: "wal_env \<Rightarrow> TimelinePersistentState \<Rightarrow> bool \<Rightarrow> (fs, PhysicalStorage) prog" where
  "storage_new E st no_sync =
     (let wal_seg_size = ucast (wal_seg_size (server st)) in
      bindE (if commit_lsn st = 0 then retE 0
             else bindE (liftR (major_version (pg_version (server st)))) (\<lambda>version.
                  find_end_of_wal E version wal_seg_size (commit_lsn st))) (\<lambda>w.
      thenE (guardE (commit_lsn st \<le> w) (Bail ''potential data loss''))
      (bindE (liftR (major_version (pg_version (server st)))) (\<lambda>version.
      getE (\<lambda>d. \<lparr>ps_timeline_dir = d, ps_no_sync = no_sync, ps_wal_seg_size = wal_seg_size,
                  ps_pg_version = pg_version (server st), ps_system_id = system_id (server st),
                  write_lsn = w, write_record_lsn = w, flush_lsn = w, flush_record_lsn = w,
                  decoder = decoder_new w version, wal_file = None,
                  pending_wal_truncation = True\<rparr>)))))"

definition internal_state :: "PhysicalStorage \<Rightarrow> lsn \<times> lsn \<times> lsn \<times> bool" where
  "internal_state st =
     (write_lsn st, write_record_lsn st, flush_record_lsn st, wal_file st \<noteq> None)"

subsection \<open>Segment files\<close>

definition fsync_file :: "path \<Rightarrow> (PhysicalStorage, unit) prog" where
  "fsync_file p = bindE (getE ps_no_sync) (\<lambda>ns. if ns then retE () else ps_dir (fs_sync_file p))"

definition fdatasync_file :: "path \<Rightarrow> (PhysicalStorage, unit) prog" where
  "fdatasync_file p = bindE (getE ps_no_sync) (\<lambda>ns. if ns then retE () else ps_dir (fs_sync_file p))"

text \<open>\<open>if let Ok(file) = open\<close>: an error of the call counts as absence.\<close>

definition try_open :: "path \<Rightarrow> (fs, bool) prog" where
  "try_open p = (\<lambda>s. case fs_open p s of
      (Inl _, s') \<Rightarrow> (Inr False, s')
    | (Inr fo, s') \<Rightarrow> (Inr (fo \<noteq> None), s'))"

definition create_segment :: "path \<Rightarrow> u64 \<Rightarrow> bool \<Rightarrow> (fs, unit) prog" where
  "create_segment partial sz no_sync =
     thenE (fs_create ''waltmp'')
     (thenE (fs_set_len ''waltmp'' (unat sz))
     (catchE (durable_rename ''waltmp'' partial (\<not> no_sync))
        (\<lambda>e. thenE (fs_remove partial) (failE e))))"

definition open_or_create :: "u64 \<Rightarrow> (PhysicalStorage, path \<times> bool) prog" where
  "open_or_create segno =
     bindE (getE (\<lambda>st. (ps_wal_seg_size st, ps_no_sync st))) (\<lambda>(sz, ns).
     case wal_file_paths segno sz of (full, partial) \<Rightarrow>
       ps_dir
         (bindE (try_open full) (\<lambda>found. if found then retE (full, False) else
          bindE (try_open partial) (\<lambda>found. if found then retE (partial, True) else
          thenE (create_segment partial sz ns) (retE (partial, True))))))"

definition take_file :: "(PhysicalStorage, fhandle option) prog" where
  "take_file =
     bindE (getE wal_file) (\<lambda>fo. thenE (modifyE (\<lambda>st. st\<lparr>wal_file := None\<rparr>)) (retE fo))"

subsection \<open>Writing\<close>

definition segment_handle :: "u64 \<Rightarrow> nat \<Rightarrow> (PhysicalStorage, fhandle) prog" where
  "segment_handle segno xlogoff =
     bindE take_file (\<lambda>fo. case fo of
        Some h \<Rightarrow> retE h
      | None \<Rightarrow>
          bindE (open_or_create segno) (\<lambda>(p, is_partial).
          thenE (guardE is_partial (Panic ''unexpected write into non-partial segment file''))
          (thenE (ps_dir fs_nop) (retE (p, xlogoff)))))"

definition write_in_segment :: "u64 \<Rightarrow> nat \<Rightarrow> bytes \<Rightarrow> (PhysicalStorage, bool) prog" where
  "write_in_segment segno xlogoff buf =
     bindE (segment_handle segno xlogoff) (\<lambda>(p, pos).
     thenE (ps_dir (fs_write p pos buf))
     (thenE (ps_dir fs_nop)
     (bindE (getE ps_wal_seg_size) (\<lambda>sz.
      if xlogoff + length buf = unat sz
      then thenE (fdatasync_file p)
           (case wal_file_paths segno sz of (full, partial) \<Rightarrow>
              thenE (ps_dir (fs_rename partial full)) (retE True))
      else thenE (modifyE (\<lambda>st. st\<lparr>wal_file := Some (p, pos + length buf)\<rparr>)) (retE False)))))"

text \<open>The segment and the offset in it; the division panics for segment size zero.\<close>

definition locate :: "lsn \<Rightarrow> (PhysicalStorage, u64 \<times> nat) prog" where
  "locate l =
     bindE (getE ps_wal_seg_size) (\<lambda>sz.
     thenE (guardE (sz \<noteq> 0) (Panic ''attempt to divide by zero''))
     (retE (segment_number l sz, unat (segment_offset l sz))))"

text \<open>One round of the loop of \<open>write_exact\<close>; returns how many bytes it wrote.\<close>

definition write_round :: "bytes \<Rightarrow> (PhysicalStorage, nat) prog" where
  "write_round buf =
     bindE (getE write_lsn) (\<lambda>w.
     bindE (locate w) (\<lambda>(segno, xlogoff).
     bindE (getE (\<lambda>st. unat (ps_wal_seg_size st))) (\<lambda>sz.
     let bytes_write = (if sz < xlogoff + length buf then sz - xlogoff else length buf) in
     bindE (write_in_segment segno xlogoff (take bytes_write buf)) (\<lambda>flushed.
     bindE (liftR (lsn_add w (word_of_nat bytes_write))) (\<lambda>w'.
     thenE (modifyE (\<lambda>st. st\<lparr>write_lsn := w'\<rparr>))
     (thenE (if flushed then modifyE (\<lambda>st. st\<lparr>flush_lsn := write_lsn st\<rparr>) else retE ())
     (retE bytes_write)))))))"

lemma wp_locate:
  "wp (locate l)
     (\<lambda>x st'. st' = st \<and> x = (segment_number l (ps_wal_seg_size st), unat (segment_offset l (ps_wal_seg_size st)))
        \<and> snd x < unat (ps_wal_seg_size st))
     (\<lambda>_ st'. st' = st) st"
  by (simp add: locate_def wp_simps unat_gt_0)

lemma wp_write_round_progress:
  assumes "buf \<noteq> []"
  shows "wp (write_round buf) (\<lambda>n _. 0 < n) (\<lambda>_ _. True) st"
proof -
  have rest: "wp (write_in_segment segno off b) (\<lambda>flushed.
      wp (bindE (liftR r) (\<lambda>w'. thenE (modifyE (\<lambda>st. st\<lparr>write_lsn := w'\<rparr>))
         (thenE (if flushed then modifyE (\<lambda>st. st\<lparr>flush_lsn := write_lsn st\<rparr>) else retE ()) (retE n))))
        (\<lambda>n _. 0 < n) (\<lambda>_ _. True)) (\<lambda>_ _. True) s"
    if "0 < n" for segno off b n s and r :: "lsn res"
    by (rule wp_any) (use that in \<open>auto simp: wp_simps split: sum.splits\<close>)
  show ?thesis
    unfolding write_round_def wp_bindE [of "getE f" for f] wp_bindE [of "locate l" for l] wp_getE
    by (rule wp_mono [OF wp_locate])
      (use assms in \<open>auto simp: wp_bindE [of "write_in_segment a b c" for a b c] wp_bindE [of "getE f" for f]
        wp_getE Let_def intro!: rest\<close>)
qed

function write_loop :: "bytes \<Rightarrow> (PhysicalStorage, unit) prog" where
  "write_loop buf st =
     (if buf = [] then (Inr (), st)
      else case write_round buf st of
        (Inl e, st') \<Rightarrow> (Inl e, st')
      | (Inr n, st') \<Rightarrow> write_loop (drop n buf) st')"
  by pat_completeness auto
termination
proof (relation "measure (\<lambda>(buf, st). length buf)", goal_cases)
  case (2 buf st r st' n)
  then have "write_round buf st = (Inr n, st')" by simp
  then have "0 < n" using wp_runD [OF wp_write_round_progress [OF 2(1)]] by fastforce
  then show ?case using 2(1) by simp
qed (rule wf_measure)

declare write_loop.simps [simp del]

text \<open>Syncs and closes the cached file, if there is one.\<close>

definition close_synced :: "(PhysicalStorage, unit) prog" where
  "close_synced = bindE take_file (\<lambda>fo. case fo of
      None \<Rightarrow> retE ()
    | Some h \<Rightarrow> fdatasync_file (fst h))"

definition write_exact :: "lsn \<Rightarrow> bytes \<Rightarrow> (PhysicalStorage, unit) prog" where
  "write_exact pos buf =
     bindE (getE write_lsn) (\<lambda>w.
     thenE (if w \<noteq> pos then thenE close_synced (modifyE (\<lambda>st. st\<lparr>write_lsn := pos\<rparr>)) else retE ())
     (write_loop buf))"

text \<open>One record the decoder reports.\<close>

definition record_written :: "lsn \<Rightarrow> PhysicalStorage \<Rightarrow> PhysicalStorage" where
  "record_written l st =
     st\<lparr>write_record_lsn := l,
        flush_record_lsn := (if l \<le> flush_lsn st then l else flush_record_lsn st)\<rparr>"

definition restart_decoder :: "lsn \<Rightarrow> (PhysicalStorage, unit) prog" where
  "restart_decoder startpos =
     bindE (bindE (getE (\<lambda>st. available (decoder st))) liftR) (\<lambda>avail.
     if avail \<noteq> startpos
     then modifyE (\<lambda>st. st\<lparr>decoder := decoder_new startpos (dec_pg_version (decoder st))\<rparr>)
     else retE ())"

definition poll_records :: "wal_env \<Rightarrow> (PhysicalStorage, unit) prog" where
  "poll_records E =
     bindE (getE (\<lambda>st. drain E (decoder st))) (\<lambda>(rs, e, d).
     thenE (modifyE (\<lambda>st. fold (\<lambda>r. record_written (fst r)) rs (st\<lparr>decoder := d\<rparr>)))
     (case e of None \<Rightarrow> retE () | Some x \<Rightarrow> failE x))"

text \<open>The second half of \<open>write_wal\<close>: the ends of the records just written.\<close>

definition decode_written :: "wal_env \<Rightarrow> lsn \<Rightarrow> bytes \<Rightarrow> (PhysicalStorage, unit) prog" where
  "decode_written E startpos buf =
     thenE (restart_decoder startpos)
     (thenE (modifyE (\<lambda>st. st\<lparr>decoder := feed_bytes buf (decoder st)\<rparr>))
     (thenE (modifyE (\<lambda>st. if write_record_lsn st \<le> flush_lsn st
                           then st\<lparr>flush_record_lsn := write_record_lsn st\<rparr> else st))
     (poll_records E)))"

definition write_wal :: "wal_env \<Rightarrow> lsn \<Rightarrow> bytes \<Rightarrow> (PhysicalStorage, unit) prog" where
  "write_wal E startpos buf =
     bindE (getE write_lsn) (\<lambda>w.
     thenE (guardE (w \<le> startpos) (Bail ''write_wal rewrites WAL written before''))
     (thenE (guardE (\<not> (w < startpos \<and> w \<noteq> 0)) (Bail ''write_wal creates gap in written WAL''))
     (bindE (getE pending_wal_truncation) (\<lambda>pending.
      thenE (guardE (\<not> pending) (Bail ''write_wal called with pending WAL truncation''))
      (thenE (write_exact startpos buf)
      (decode_written E startpos buf))))))"

subsection \<open>Flushing, truncating and removing\<close>

definition flush_wal :: "(PhysicalStorage, unit) prog" where
  "flush_wal =
     bindE (getE (\<lambda>st. flush_record_lsn st = write_record_lsn st)) (\<lambda>clean.
     if clean then retE ()
     else bindE take_file (\<lambda>fo. case fo of
        None \<Rightarrow> failE (Bail ''unexpected unflushed data with no open file'')
      | Some h \<Rightarrow>
          thenE (fdatasync_file (fst h))
          (modifyE (\<lambda>st. st\<lparr>wal_file := Some h, flush_lsn := write_lsn st,
                             flush_record_lsn := write_record_lsn st\<rparr>))))"

definition remove_entry :: "u64 \<Rightarrow> (u64 \<Rightarrow> bool) \<Rightarrow> path \<Rightarrow> (fs, unit) prog" where
  "remove_entry sz remove_predicate fname =
     thenE fs_nop
     (if \<not> IsXLogFileName fname \<and> \<not> IsPartialXLogFileName fname then retE ()
      else bindE (liftR (XLogFromFileName fname (unat sz))) (\<lambda>(segno, _).
        if remove_predicate segno
        then bindE (fs_remove fname) (\<lambda>found. if found then retE () else failE IoError)
        else retE ()))"

text \<open>The listing is the one at the time of the call; reading each entry may fail.\<close>

definition remove_segments_from_disk :: "u64 \<Rightarrow> (u64 \<Rightarrow> bool) \<Rightarrow> (fs, unit) prog" where
  "remove_segments_from_disk sz remove_predicate =
     thenE fs_nop
     (bindE (getE (\<lambda>s. map fst (fs_cur s))) (\<lambda>names.
     thenE (forE names (remove_entry sz remove_predicate)) fs_nop))"

definition truncate_segment :: "u64 \<Rightarrow> nat \<Rightarrow> (PhysicalStorage, unit) prog" where
  "truncate_segment segno xlogoff =
     bindE (getE ps_wal_seg_size) (\<lambda>sz.
     bindE (open_or_create segno) (\<lambda>(p, is_partial).
     thenE (ps_dir (fs_set_len p xlogoff))
     (thenE (ps_dir (fs_set_len p (unat sz)))
     (thenE (fsync_file p)
     (if is_partial then retE ()
      else case wal_file_paths segno sz of (full, partial) \<Rightarrow> ps_dir (fs_rename full partial))))))"

text \<open>The part of \<open>truncate_wal\<close> that works on files.\<close>

definition truncate_files :: "lsn \<Rightarrow> (PhysicalStorage, unit) prog" where
  "truncate_files end_pos =
     thenE close_synced
     (bindE (locate end_pos) (\<lambda>(segno, xlogoff).
      bindE (getE ps_wal_seg_size) (\<lambda>sz.
      thenE (ps_dir (remove_segments_from_disk sz (\<lambda>x. segno < x)))
      (truncate_segment segno xlogoff))))"

definition truncate_wal :: "lsn \<Rightarrow> (PhysicalStorage, unit) prog" where
  "truncate_wal end_pos =
     bindE (getE id) (\<lambda>st.
     thenE (guardE (\<not> (write_record_lsn st \<noteq> 0 \<and> write_record_lsn st < end_pos))
              (Bail ''truncate_wal called on non-written WAL''))
     (if \<not> pending_wal_truncation st \<and> end_pos = write_lsn st \<and> end_pos = flush_record_lsn st
      then retE ()
      else
        thenE (modifyE (\<lambda>st. st\<lparr>pending_wal_truncation := True, write_lsn := end_pos, flush_lsn := end_pos,
                                  write_record_lsn := end_pos, flush_record_lsn := end_pos\<rparr>))
        (thenE (truncate_files end_pos)
        (modifyE (\<lambda>st. st\<lparr>pending_wal_truncation := False\<rparr>)))))"

definition remove_up_to :: "u64 \<Rightarrow> (PhysicalStorage, unit) prog" where
  "remove_up_to segno_up_to =
     bindE (getE ps_wal_seg_size) (\<lambda>sz.
     ps_dir (remove_segments_from_disk sz (\<lambda>x. x \<le> segno_up_to)))"

definition storage_close :: "(PhysicalStorage, unit) prog" where
  "storage_close = thenE take_file (retE ())"

definition initialize_first_segment :: "wal_env \<Rightarrow> lsn \<Rightarrow> (PhysicalStorage, unit) prog" where
  "initialize_first_segment E init_lsn =
     bindE (locate init_lsn) (\<lambda>(segno, _).
     bindE (open_or_create segno) (\<lambda>(p, _).
     bindE (getE id) (\<lambda>st.
     bindE (liftR (major_version (ps_pg_version st))) (\<lambda>major.
     bindE (liftR (generate_wal_segment E major segno (ps_system_id st) init_lsn)) (\<lambda>wal_seg_bytes.
     ps_dir (thenE fs_nop (thenE (fs_write p 0 wal_seg_bytes) fs_nop)))))))"

end
