(* ===== verification/Wal_Storage_Inv.thy ===== *)
theory Wal_Storage_Inv
  imports Wal_Storage
begin

text \<open>
  The order of the storage's LSNs. For every sequence of file system failures the operations keep
  the invariant \<open>ps_inv\<close>, the reported flush position never moves back except by truncation, and
  truncation sets every position to its argument or leaves all of them. These are the laws of the
  interface \<open>wal_storage\<close> the consensus code relies on.
\<close>

section \<open>Positions of the decoder\<close>

text \<open>The position up to which the decoder has accounted for the stream.\<close>

definition dec_pos :: "WalStreamDecoder \<Rightarrow> nat" where
  "dec_pos d = (case dec_state d of SkippingEverything u \<Rightarrow> unat u | _ \<Rightarrow> unat (dec_lsn d))"

text \<open>A decoder that skips does so forward, and not past a segment boundary.\<close>

definition skips_to :: "lsn \<Rightarrow> lsn \<Rightarrow> bool" where
  "skips_to l u \<longleftrightarrow> l \<le> u \<and> (\<forall>b. WAL_SEGMENT_SIZE dvd b \<longrightarrow> unat l \<le> b \<longrightarrow> unat u \<le> b)"

definition dec_wf :: "WalStreamDecoder \<Rightarrow> bool" where
  "dec_wf d \<longleftrightarrow> (case dec_state d of SkippingEverything u \<Rightarrow> skips_to (dec_lsn d) u | _ \<Rightarrow> True)"

definition moved :: "WalStreamDecoder \<Rightarrow> WalStreamDecoder \<Rightarrow> bool" where
  "moved d d' \<longleftrightarrow> dec_wf d' \<and> dec_pos d \<le> dec_pos d' \<and> fed_pos d' \<le> fed_pos d"

definition settled :: "WalStreamDecoder \<Rightarrow> bool" where
  "settled d \<longleftrightarrow> (\<forall>u. dec_state d \<noteq> SkippingEverything u)"

definition settled_or_same :: "WalStreamDecoder \<Rightarrow> WalStreamDecoder \<Rightarrow> bool" where
  "settled_or_same d d' \<longleftrightarrow> settled d' \<or> dec_state d' = dec_state d"

lemma settled_or_same_trans: "settled_or_same a b \<Longrightarrow> settled_or_same b c \<Longrightarrow> settled_or_same a c"
  by (auto simp: settled_or_same_def settled_def)

lemma moved_trans: "moved a b \<Longrightarrow> moved b c \<Longrightarrow> moved a c"
  by (simp add: moved_def)

lemma moved_refl: "dec_wf d \<Longrightarrow> moved d d"
  by (simp add: moved_def)

lemma dec_pos_settled: "settled d \<Longrightarrow> dec_pos d = unat (dec_lsn d)"
  by (simp add: settled_def dec_pos_def split: decoder_state.splits)

lemma dec_wf_settled: "settled d \<Longrightarrow> dec_wf d"
  by (simp add: settled_def dec_wf_def split: decoder_state.splits)

lemma settled_fed_pos: "settled d \<Longrightarrow> dec_pos d \<le> fed_pos d"
  by (simp add: dec_pos_settled fed_pos_def)

lemma skips_to_align:
  assumes "unat l \<le> 2 ^ 64 - 8"
  shows "skips_to l (align l)"
proof -
  have l: "l \<le> LSN_MAX - 7" using assms by (simp add: LSN_MAX_def word_le_nat_alt)
  have "unat (align l) \<le> b" if "WAL_SEGMENT_SIZE dvd b" "unat l \<le> b" for b
  proof -
    have "8 dvd b" by (rule dvd_trans [OF _ that(1)]) (simp add: WAL_SEGMENT_SIZE_def)
    then show ?thesis using that(2) align_bounds [OF l] by presburger
  qed
  then show ?thesis using align_bounds(1) [OF l] by (simp add: skips_to_def word_le_nat_alt)
qed

lemma skips_to_padding:
  assumes "lsn_add l (calc_padding l wal_seg) = Inr u"
  shows "skips_to l u"
proof -
  have u: "unat u = unat l + unat (calc_padding l wal_seg)" by (rule lsn_add_unat [OF assms])
  have z: "(unat l + unat (calc_padding l wal_seg)) mod WAL_SEGMENT_SIZE = 0"
    and lt: "unat (calc_padding l wal_seg) < WAL_SEGMENT_SIZE"
    using calc_padding_pow2 [of 24 l] by (simp_all add: WAL_SEGMENT_SIZE_def)
  have "unat u \<le> b" if b: "WAL_SEGMENT_SIZE dvd b" "unat l \<le> b" for b
  proof -
    have "WAL_SEGMENT_SIZE dvd unat u" using z u by (simp add: mod_eq_0_iff_dvd)
    then obtain i j where ij: "unat u = WAL_SEGMENT_SIZE * i" "b = WAL_SEGMENT_SIZE * j"
      using b(1) by (elim dvdE)
    have "WAL_SEGMENT_SIZE * i < WAL_SEGMENT_SIZE * (j + 1)"
      using u lt b(2) ij by (simp add: WAL_SEGMENT_SIZE_def)
    then have "i < j + 1" by (simp only: mult_less_cancel1)
    then show ?thesis using ij by (simp add: WAL_SEGMENT_SIZE_def)
  qed
  then show ?thesis using u by (simp add: skips_to_def word_le_nat_alt)
qed

lemma wp_complete_record_pos:
  assumes "fed_pos d \<le> 2 ^ 64 - 8"
  shows "wp (complete_record E rb)
    (\<lambda>r d'. d' = d\<lparr>dec_state := SkippingEverything (fst r)\<rparr> \<and> skips_to (dec_lsn d) (fst r))
    (\<lambda>_ d'. d' = d) d"
proof -
  have "unat (dec_lsn d) \<le> 2 ^ 64 - 8" using assms by (simp add: fed_pos_def)
  note a = skips_to_align [OF this]
  show ?thesis
    unfolding complete_record_def
    using a skips_to_padding by (auto simp: wp_simps Let_def split: sum.splits)
qed


definition step_ok :: "WalStreamDecoder \<Rightarrow> poll_step \<Rightarrow> WalStreamDecoder \<Rightarrow> bool" where
  "step_ok d r d' \<longleftrightarrow> moved d d' \<and> 
     (case r of Got x \<Rightarrow> dec_state d' = SkippingEverything (fst x)
      | _ \<Rightarrow> settled_or_same d d')"

definition step_err :: "WalStreamDecoder \<Rightarrow> WalStreamDecoder \<Rightarrow> bool" where
  "step_err d d' \<longleftrightarrow> moved d d' \<and> settled d'"

lemma settled_update [simp]:
  "settled (d\<lparr>inputbuf := b\<rparr>) = settled d" "settled (d\<lparr>dec_lsn := l\<rparr>) = settled d"
  "settled (d\<lparr>dec_state := WaitingForRecord\<rparr>)" "settled (d\<lparr>dec_state := ReassemblingRecord x y\<rparr>)"
  by (simp_all add: settled_def)

lemma moved_settled:
  assumes "settled d" and "settled d'" and "unat (dec_lsn d) \<le> unat (dec_lsn d')" and "fed_pos d' \<le> fed_pos d"
  shows "moved d d'"
  using assms by (simp add: moved_def dec_wf_settled dec_pos_settled)

lemma wp_read_header_pos:
  assumes "settled d" and "h < 2 ^ 64"
  shows "wp (read_header E h) (\<lambda>_. step_err d) (\<lambda>_. step_err d) d"
proof -
  have "unat l = unat (dec_lsn d) + h" if "lsn_add (dec_lsn d) (word_of_nat h) = Inr l" for l
    using lsn_add_unat_nat [OF that assms(2)] .
  then show ?thesis
    unfolding read_header_def wp_simps
    using assms(1) by (auto simp: step_err_def fed_pos_def split: sum.splits intro!: moved_settled)
qed

lemma wp_decode_header_pos:
  assumes "dec_wf d"
  shows "wp (decode_header E) (\<lambda>_ d'. moved d d' \<and> settled_or_same d d')
           (\<lambda>_. step_err d) d"
proof (cases "settled d")
  case True
  have h: "wp (read_header E n) (\<lambda>_ d'. moved d d' \<and> settled_or_same d d') (\<lambda>_. step_err d) d"
    if "n < 2 ^ 64" for n
    by (rule wp_mono [OF wp_read_header_pos [OF True that]]) (simp_all add: step_err_def settled_or_same_def)
  show ?thesis
    unfolding decode_header_def
    using True h [of 24] h [of 40] assms
    by (auto simp: wp_simps XLOG_SIZE_OF_XLOG_LONG_PHD_def XLOG_SIZE_OF_XLOG_SHORT_PHD_def moved_refl
        settled_or_same_def
        split: decoder_state.splits)
next
  case False
  then obtain u where "dec_state d = SkippingEverything u" by (auto simp: settled_def)
  then show ?thesis using False assms by (simp add: decode_header_def wp_simps moved_refl settled_or_same_def)
qed

lemma dec_pos_skipping [simp]: "dec_pos (d\<lparr>dec_state := SkippingEverything u\<rparr>) = unat u"
  by (simp add: dec_pos_def)

lemma completed_ok:
  assumes "settled d0" and "unat (dec_lsn d0) \<le> unat (dec_lsn d)" and "fed_pos d \<le> fed_pos d0"
    and "skips_to (dec_lsn d) (fst r)"
  shows "step_ok d0 (Got r) (d\<lparr>dec_state := SkippingEverything (fst r)\<rparr>)"
  using assms
  by (auto simp: step_ok_def moved_def dec_wf_def dec_pos_settled fed_pos_def skips_to_def word_le_nat_alt)

lemma wp_finish_pos:
  assumes "settled d0" and "settled d" and "unat (dec_lsn d0) \<le> unat (dec_lsn d)"
    and "fed_pos d \<le> fed_pos d0" and "fed_pos d0 \<le> 2 ^ 64 - 8"
  shows "wp (bindE (complete_record E rb) (\<lambda>r. retE (Got r))) (step_ok d0) (\<lambda>_. step_err d0) d"
proof -
  have "fed_pos d \<le> 2 ^ 64 - 8" using assms(4,5) by (rule le_trans)
  from wp_complete_record_pos [OF this] show ?thesis
    unfolding wp_bindE wp_retE
    by (rule wp_mono) (use assms in \<open>auto simp: step_err_def intro: completed_ok moved_settled\<close>)
qed

lemma wp_body_waiting_pos:
  assumes "dec_state d = WaitingForRecord" and b: "fed_pos d \<le> 2 ^ 64 - 8"
  shows "wp (body_waiting E) (step_ok d) (\<lambda>_. step_err d) d"
proof -
  have se: "settled d" using assms(1) by (simp add: settled_def)
  then have rf: "moved d d" by (intro moved_refl dec_wf_settled)
  have lt: "unat (w :: u32) < 2 ^ 64" for w using unat_bounds(3) [of w] by simp
  have c: "wp (bindE (complete_record E rb) (\<lambda>r. retE (Got r))) (step_ok d) (\<lambda>_. step_err d)
      (d\<lparr>dec_lsn := l, inputbuf := drop n (inputbuf d)\<rparr>)"
    if "lsn_add (dec_lsn d) (word_of_nat n) = Inr l" "n < 2 ^ 64" "n \<le> length (inputbuf d)" for n l rb
    by (rule wp_finish_pos [OF se]) (use lsn_add_unat_nat [OF that(1,2)] that se b in \<open>simp_all add: fed_pos_def\<close>)
  define n where "n = unat (le_word (take 4 (inputbuf d)) :: u32)"
  show ?thesis
    unfolding body_waiting_def Let_def n_def [symmetric] wp_bindE [of "getE f" for f] wp_getE id_apply
    using c [of n] lt se rf
    by (auto simp: wp_thenE wp_bindE [of "split_to m" for m] wp_split_to wp_advance_lsn wp_if wp_failE wp_modifyE
          wp_retE step_err_def step_ok_def settled_or_same_def n_def fed_pos_def split: sum.splits intro: moved_settled)
qed

lemma wp_body_reassembling_pos:
  assumes "dec_state d = ReassemblingRecord rb contlen" and b: "fed_pos d \<le> 2 ^ 64 - 8"
  shows "wp (body_reassembling E rb contlen) (step_ok d) (\<lambda>_. step_err d) d"
proof -
  have se: "settled d" using assms(1) by (simp add: settled_def)
  then have rf: "moved d d" by (intro moved_refl dec_wf_settled)
  define n where "n = unat (min contlen (pageleft d))"
  have n64: "n < 2 ^ 64" using unat_bounds(3) [of "min contlen (pageleft d)"] by (simp add: n_def)
  have c: "wp (bindE (complete_record E r) (\<lambda>r. retE (Got r))) (step_ok d) (\<lambda>_. step_err d)
      (d\<lparr>inputbuf := drop n (inputbuf d), dec_lsn := l, dec_state := ReassemblingRecord x y\<rparr>)"
    if "lsn_add (dec_lsn d) (word_of_nat n) = Inr l" "n \<le> length (inputbuf d)" for l r x y
    by (rule wp_finish_pos [OF se]) (use lsn_add_unat_nat [OF that(1) n64] that b in \<open>simp_all add: fed_pos_def\<close>)
  show ?thesis
    unfolding body_reassembling_def Let_def n_def [symmetric] wp_bindE [of "getE f" for f] wp_getE id_apply
    using c lsn_add_unat_nat [OF _ n64] se rf
    by (auto simp: wp_thenE wp_bindE [of "split_to m" for m] wp_split_to wp_advance_lsn wp_if wp_failE wp_modifyE
        wp_retE step_err_def step_ok_def settled_or_same_def fed_pos_def split: sum.splits intro!: moved_settled)
qed

lemma wp_body_skipping_pos:
  assumes u: "dec_state d = SkippingEverything u" and wf: "dec_wf d"
  shows "wp (body_skipping u) (step_ok d) (\<lambda>_. step_err d) d"
proof -
  have le: "dec_lsn d \<le> u" using assms by (simp add: dec_wf_def skips_to_def)
  then have sub: "unat (u - dec_lsn d) = unat u - unat (dec_lsn d)" "unat (dec_lsn d) \<le> unat u"
    by (simp_all add: unat_sub word_le_nat_alt)
  then have "lsn_add (dec_lsn d) (word_of_nat (unat (u - dec_lsn d))) = Inr u"
    using unat_bounds(4) [of u] by (simp add: lsn_add_Inr)
  then have adv: "lsn_add (dec_lsn d) (u - dec_lsn d) = Inr u" by simp
  have p: "dec_pos d = unat u" using u by (simp add: dec_pos_def)
  show ?thesis
    unfolding body_skipping_def
    using le adv sub p wf
    by (auto simp: wp_simps Let_def step_ok_def settled_or_same_def moved_refl moved_def dec_wf_settled dec_pos_settled fed_pos_def)
qed

lemma wp_decode_step_pos:
  assumes "dec_wf d" and b: "fed_pos d \<le> 2 ^ 64 - 8"
  shows "wp (decode_step E) (step_ok d) (\<lambda>_. step_err d) d"
proof -
  have body: "wp (decode_body E) (step_ok d) (\<lambda>_. step_err d) d'" if m: "moved d d'" "settled_or_same d d'" for d'
  proof -
    have "dec_wf d'" "fed_pos d' \<le> 2 ^ 64 - 8" using m(1) b by (simp_all add: moved_def)
    then have "wp (decode_body E) (step_ok d') (\<lambda>_. step_err d') d'"
      by (auto simp: decode_body_def wp_simps split: decoder_state.splits
          intro: wp_body_waiting_pos wp_body_reassembling_pos wp_body_skipping_pos)
    then show ?thesis
      by (rule wp_mono) (auto simp: step_ok_def step_err_def split: poll_step.splits
          intro: moved_trans [OF m(1)] settled_or_same_trans [OF m(2)])
  qed
  show ?thesis
    unfolding decode_step_def wp_bindE
    by (rule wp_mono [OF wp_decode_header_pos [OF assms(1)]]) (auto simp: wp_simps step_ok_def intro: body)
qed

text \<open>Polling and draining.\<close>

lemma poll_decode_pos:
  assumes "dec_wf d" and "fed_pos d \<le> 2 ^ 64 - 8" and "poll_decode E d = (r, d')"
  shows "moved d d' \<and> (case r of Inl _ \<Rightarrow> settled d'
           | Inr None \<Rightarrow> settled_or_same d d'
           | Inr (Some x) \<Rightarrow> dec_state d' = SkippingEverything (fst x))"
  using assms
proof (induction E d rule: poll_decode.induct)
  case (1 E d)
  obtain q d1 where st: "decode_step E d = (q, d1)" by fastforce
  note w = wp_runD [OF wp_decode_step_pos [OF 1(2,3)] st]
  show ?case
  proof (cases q)
    case (Inl e)
    then show ?thesis using 1(4) st w by (auto simp: poll_decode.simps [of E d] step_err_def)
  next
    case (Inr s)
    show ?thesis
    proof (cases s)
      case Again
      have m: "moved d d1" "settled_or_same d d1" using w Inr Again by (simp_all add: step_ok_def)
      then have pre: "dec_wf d1" "fed_pos d1 \<le> 2 ^ 64 - 8" using 1(3) by (simp_all add: moved_def)
      have "poll_decode E d1 = (r, d')" using 1(4) st Inr Again by (simp add: poll_decode.simps [of E d])
      from 1(1) [OF st [symmetric] Inr Again pre this] show ?thesis
        using moved_trans [OF m(1)] settled_or_same_trans [OF m(2)] by (auto split: sum.splits option.splits)
    qed (use 1(4) st Inr w in \<open>auto simp: poll_decode.simps [of E d] step_ok_def\<close>)
  qed
qed

definition covers :: "lsn \<Rightarrow> WalStreamDecoder \<Rightarrow> bool" where
  "covers r d \<longleftrightarrow> unat r \<le> fed_pos d \<or> dec_state d = SkippingEverything r"

text \<open>What the loop over the decoder's records keeps, for a flush position \<open>F\<close>.\<close>

definition rec_inv :: "lsn \<Rightarrow> PhysicalStorage \<Rightarrow> WalStreamDecoder \<Rightarrow> bool" where
  "rec_inv fr0 st d \<longleftrightarrow>
     dec_wf d \<and> unat (write_record_lsn st) \<le> dec_pos d \<and> fr0 \<le> flush_record_lsn st \<and>
     flush_record_lsn st \<le> write_record_lsn st \<and>
     (write_record_lsn st \<le> flush_lsn st \<longrightarrow> flush_record_lsn st = write_record_lsn st)"

lemma rec_inv_step:
  assumes "rec_inv fr0 st d" and "moved d d'" and "dec_state d' = SkippingEverything l"
  shows "rec_inv fr0 (record_written l st) d'" and "write_record_lsn st \<le> l"
proof -
  have "unat (write_record_lsn st) \<le> dec_pos d'" using assms(1,2) by (simp add: rec_inv_def moved_def)
  also have p: "dec_pos d' = unat l" using assms(3) by (simp add: dec_pos_def)
  finally show l: "write_record_lsn st \<le> l" by (simp add: word_le_nat_alt)
  have "flush_record_lsn st \<le> l" using l assms(1) by (auto simp: rec_inv_def)
  then show "rec_inv fr0 (record_written l st) d'"
    using assms l p by (auto simp: rec_inv_def record_written_def moved_def)
qed

lemma rec_inv_moved: "rec_inv fr0 st d \<Longrightarrow> moved d d' \<Longrightarrow> rec_inv fr0 st d'"
  by (auto simp: rec_inv_def moved_def)

lemma record_written_flush [simp]: "flush_lsn (record_written l st) = flush_lsn st"
  "write_record_lsn (record_written l st) = l"
  by (simp_all add: record_written_def)

lemma drain_records:
  assumes "rec_inv fr0 st d" and "fed_pos d \<le> 2 ^ 64 - 8" and "covers (write_record_lsn st) d"
    and "drain E d = (rs, e, d')" and "st' = fold (\<lambda>r. record_written (fst r)) rs st"
  shows "rec_inv fr0 st' d' \<and> write_record_lsn st \<le> write_record_lsn st' \<and> fed_pos d' \<le> fed_pos d \<and>
     (case e of None \<Rightarrow> fed_pos d' = fed_pos d \<and> covers (write_record_lsn st') d'
      | Some _ \<Rightarrow> unat (write_record_lsn st') \<le> fed_pos d)"
  using assms
proof (induction E d arbitrary: st rs e d' rule: drain.induct)
  case (1 E d)
  obtain q d1 where pd: "poll_decode E d = (q, d1)" by fastforce
  have wf: "dec_wf d" using 1(2) by (simp add: rec_inv_def)
  note pos = poll_decode_pos [OF wf 1(3) pd]
  then have ri: "rec_inv fr0 st d1" using rec_inv_moved [OF 1(2)] by blast
  consider (err) x where "q = Inl x" | (none) "q = Inr None" | (got) r where "q = Inr (Some r)"
    by (cases q; cases "projr q") auto
  then show ?case
  proof cases
    case err
    then have "settled d1" "moved d d1" using pos by simp_all
    then have "dec_pos d1 \<le> fed_pos d" using settled_fed_pos [of d1] by (simp add: moved_def)
    then show ?thesis using err pd 1(5,6) ri \<open>moved d d1\<close>
      by (auto simp: drain.simps [of E d] rec_inv_def moved_def)
  next
    case none
    then have "settled_or_same d d1" "fed_pos d1 = fed_pos d" using pos poll_decode_progress pd by simp_all
    moreover from this have "covers (write_record_lsn st) d1"
      using 1(4) settled_fed_pos [of d1] ri by (auto simp: covers_def settled_or_same_def rec_inv_def)
    ultimately show ?thesis using none pd 1(5,6) ri by (auto simp: drain.simps [of E d])
  next
    case got
    obtain rs1 where dr: "drain E d1 = (rs1, e, d')" and rs: "rs = r # rs1"
      using 1(5) pd got by (auto simp: drain.simps [of E d] split: prod.splits)
    have st: "dec_state d1 = SkippingEverything (fst r)" "moved d d1" using pos got by simp_all
    have fp: "fed_pos d1 = fed_pos d" using poll_decode_progress pd got by blast
    note step = rec_inv_step [OF 1(2) st(2,1)]
    have fb: "fed_pos d1 \<le> 2 ^ 64 - 8" using 1(3) fp by simp
    have cv: "covers (write_record_lsn (record_written (fst r) st)) d1" using st(1) by (simp add: covers_def)
    have fo: "st' = fold (\<lambda>r. record_written (fst r)) rs1 (record_written (fst r) st)" using 1(6) rs by simp
    from 1(1) [OF pd [symmetric] got refl step(1) fb cv dr fo] step(2) fp show ?thesis
      by (auto split: option.splits intro: order_trans)
  qed
qed

section \<open>Operations on files keep the LSNs\<close>

definition same_lsns :: "PhysicalStorage \<Rightarrow> PhysicalStorage \<Rightarrow> bool" where
  "same_lsns st st' \<longleftrightarrow> st' = st\<lparr>ps_timeline_dir := ps_timeline_dir st', wal_file := wal_file st'\<rparr>"

lemma same_lsns_refl [simp]: "same_lsns st st"
  by (simp add: same_lsns_def)

lemma same_lsns_fields:
  assumes "same_lsns st st'"
  shows "ps_no_sync st' = ps_no_sync st" "ps_wal_seg_size st' = ps_wal_seg_size st"
    "ps_pg_version st' = ps_pg_version st" "ps_system_id st' = ps_system_id st"
    "write_lsn st' = write_lsn st" "write_record_lsn st' = write_record_lsn st"
    "flush_lsn st' = flush_lsn st" "flush_record_lsn st' = flush_record_lsn st"
    "decoder st' = decoder st" "pending_wal_truncation st' = pending_wal_truncation st"
  using assms by (cases st; cases st'; simp add: same_lsns_def)+

lemma same_lsns_update [simp]:
  "same_lsns st (st'\<lparr>ps_timeline_dir := d\<rparr>) = same_lsns st st'"
  "same_lsns st (st'\<lparr>wal_file := f\<rparr>) = same_lsns st st'"
  by (cases st; cases st'; simp add: same_lsns_def)+

lemma keeps_ps_dir [keeps_intros]: "keeps (same_lsns st) (ps_dir m)"
  unfolding keeps_def ps_dir_def wp_zoomE by (auto intro!: wp_any)

lemma keeps_wal_file [keeps_intros]:
  "keeps (same_lsns st) (modifyE (\<lambda>st. st\<lparr>wal_file := f\<rparr>))"
  by (rule keeps_modifyE) simp

lemma keeps_file_ops [keeps_intros]:
  "keeps (same_lsns st) (fsync_file p)" "keeps (same_lsns st) (fdatasync_file p)"
  "keeps (same_lsns st) take_file" "keeps (same_lsns st) (locate l)"
  unfolding fsync_file_def fdatasync_file_def take_file_def locate_def
  by (intro keeps_intros)+

lemma keeps_segment_ops [keeps_intros]:
  "keeps (same_lsns st) (open_or_create segno)" "keeps (same_lsns st) close_synced"
  unfolding open_or_create_def close_synced_def
  by (intro keeps_intros)+

lemma keeps_write_in_segment [keeps_intros]: "keeps (same_lsns st) (write_in_segment segno off buf)"
  unfolding write_in_segment_def segment_handle_def by (intro keeps_intros)

lemma keeps_truncate_segment [keeps_intros]: "keeps (same_lsns st) (truncate_segment segno off)"
  unfolding truncate_segment_def by (intro keeps_intros)

lemma keeps_whole_ops [keeps_intros]:
  "keeps (same_lsns st) (remove_up_to n)" "keeps (same_lsns st) storage_close"
  "keeps (same_lsns st) (initialize_first_segment E l)"
  unfolding remove_up_to_def storage_close_def initialize_first_segment_def by (intro keeps_intros)+

lemma wp_same: "keeps (same_lsns st) m \<Longrightarrow> wp m (\<lambda>_. same_lsns st) (\<lambda>_. same_lsns st) st"
  by (rule keepsD) simp_all

section \<open>Writing\<close>

definition advanced :: "PhysicalStorage \<Rightarrow> PhysicalStorage \<Rightarrow> bool" where
  "advanced st st' \<longleftrightarrow>
     same_lsns (st\<lparr>write_lsn := write_lsn st', flush_lsn := flush_lsn st'\<rparr>) st' \<and>
     write_lsn st \<le> write_lsn st' \<and>
     (flush_lsn st' = flush_lsn st \<or> write_lsn st \<le> flush_lsn st' \<and> flush_lsn st' \<le> write_lsn st')"

lemma advanced_same: "same_lsns st st' \<Longrightarrow> advanced st st'"
  unfolding advanced_def by (frule same_lsns_fields(5), frule same_lsns_fields(7)) (cases st; simp)

lemma same_lsns_trans: "same_lsns a b \<Longrightarrow> same_lsns b c \<Longrightarrow> same_lsns a c"
  by (cases a; cases b; cases c) (simp add: same_lsns_def)

lemma advanced_trans: "advanced a b \<Longrightarrow> advanced b c \<Longrightarrow> advanced a c"
  unfolding advanced_def
  by (cases a; cases b; cases c) (auto simp: same_lsns_def)

lemma next_boundary:
  fixes w z :: nat
  assumes "0 < z"
  shows "z dvd w + (z - w mod z)"
proof -
  have "w mod z < z" "z * (w div z) + w mod z = w" using assms by simp_all
  then have "w + (z - w mod z) = z * (w div z) + z" by linarith
  then show ?thesis by simp
qed

lemma wp_write_round:
  "wp (write_round buf)
     (\<lambda>n st'. advanced st st' \<and> n \<le> length buf \<and> unat (write_lsn st') = unat (write_lsn st) + n \<and>
        (n < length buf \<longrightarrow> unat (ps_wal_seg_size st) dvd unat (write_lsn st')))
     (\<lambda>_. same_lsns st) st"
proof -
  let ?z = "unat (ps_wal_seg_size st)" and ?w = "unat (write_lsn st)"
  define n where "n = (if ?z < ?w mod ?z + length buf then ?z - ?w mod ?z else length buf)"
  have n64: "n < 2 ^ 64" using unat_bounds(4) [of "ps_wal_seg_size st"] by (auto simp: n_def)
  let ?Q = "\<lambda>k st'. advanced st st' \<and> k \<le> length buf \<and> unat (write_lsn st') = ?w + k \<and>
        (k < length buf \<longrightarrow> ?z dvd unat (write_lsn st'))"
  let ?rest = "\<lambda>flushed. bindE (liftR (lsn_add (write_lsn st) (word_of_nat n)))
      (\<lambda>w'. thenE (modifyE (\<lambda>st. st\<lparr>write_lsn := w'\<rparr>))
         (thenE (if flushed then modifyE (\<lambda>st. st\<lparr>flush_lsn := write_lsn st\<rparr>) else retE ()) (retE n)))"
  have rest: "wp (?rest flushed) ?Q (\<lambda>_. same_lsns st) st1" if s1: "same_lsns st st1" and z: "0 < ?z" for flushed st1
  proof (cases "lsn_add (write_lsn st) (word_of_nat n)")
    case (Inl e)
    then show ?thesis using s1 by (simp add: wp_simps)
  next
    case (Inr w')
    have w': "unat w' = ?w + n" by (rule lsn_add_unat_nat [OF Inr n64])
    then have "n < length buf \<longrightarrow> ?z dvd unat w'" "n \<le> length buf" "write_lsn st \<le> w'"
      using next_boundary [OF z, of ?w] by (auto simp: n_def word_le_nat_alt)
    moreover have "advanced st (st1\<lparr>write_lsn := w'\<rparr>)" "advanced st (st1\<lparr>write_lsn := w', flush_lsn := w'\<rparr>)"
      using s1 calculation(3) by (cases st; cases st1; auto simp: advanced_def same_lsns_def)+
    ultimately show ?thesis using w' by (simp add: Inr wp_simps)
  qed
  have wi: "wp (bindE (write_in_segment a off b) ?rest) ?Q (\<lambda>_. same_lsns st) st" if "0 < ?z" for a b off
    unfolding wp_bindE [of "write_in_segment x y z" for x y z]
    by (rule wp_mono [OF wp_same [OF keeps_write_in_segment]]) (erule rest [OF _ that] | assumption)+
  show ?thesis
    unfolding write_round_def wp_bindE [of "getE f" for f] wp_bindE [of "locate l" for l] wp_getE
    by (rule wp_mono [OF wp_locate])
      (auto simp: wp_bindE [of "getE f" for f] wp_getE Let_def n_def [symmetric] wi simp del: wp_bindE)
qed

text \<open>A write that fails stops at the position it started from or at a segment boundary.\<close>

lemma wp_write_loop:
  "wp (write_loop buf)
     (\<lambda>_ st'. advanced st st' \<and> unat (write_lsn st') = unat (write_lsn st) + length buf)
     (\<lambda>_ st'. advanced st st' \<and> (write_lsn st' = write_lsn st \<or> unat (ps_wal_seg_size st) dvd unat (write_lsn st')))
     st"
proof (induction buf st rule: write_loop.induct)
  case (1 buf st)
  show ?case
  proof (cases "buf = []")
    case True
    then show ?thesis by (simp add: wp_def write_loop.simps advanced_same)
  next
    case ne: False
    obtain q st1 where wr: "write_round buf st = (q, st1)" by fastforce
    note w = wp_runD [OF wp_write_round wr]
    show ?thesis
    proof (cases q)
      case (Inl e)
      then have "same_lsns st st1" using w by simp
      then show ?thesis using Inl wr ne
        by (auto simp: wp_def write_loop.simps [of buf st] advanced_same same_lsns_fields)
    next
      case (Inr n)
      have adv: "advanced st st1" and n: "n \<le> length buf" "unat (write_lsn st1) = unat (write_lsn st) + n"
        and dv: "n < length buf \<longrightarrow> unat (ps_wal_seg_size st) dvd unat (write_lsn st1)"
        using w Inr by auto
      have sz: "ps_wal_seg_size st1 = ps_wal_seg_size st"
        using adv same_lsns_fields(2) by (fastforce simp: advanced_def)
      have run: "write_loop buf st = write_loop (drop n buf) st1"
        using Inr wr ne by (simp add: write_loop.simps [of buf st])
      have full: "n < length buf" if "write_loop (drop n buf) st1 = (Inl e, st2)" for e st2
        using that n(1) by (cases "n = length buf") (simp_all add: write_loop.simps)
      from 1 [OF ne wr [symmetric] Inr] show ?thesis
        unfolding wp_def run
        using n dv sz full by (auto split: prod.splits sum.splits intro: advanced_trans [OF adv])
    qed
  qed
qed

lemma wp_write_exact:
  assumes "write_lsn st = pos"
  shows "wp (write_exact pos buf)
     (\<lambda>_ st'. advanced st st' \<and> unat (write_lsn st') = unat pos + length buf)
     (\<lambda>_ st'. advanced st st' \<and> (write_lsn st' = pos \<or> unat (ps_wal_seg_size st) dvd unat (write_lsn st')))
     st"
  using wp_write_loop [of buf st] by (simp add: write_exact_def wp_simps assms)

section \<open>The invariant\<close>

text \<open>
  The record position may lie ahead of the written position only while the decoder skips to it
  (after a segment switch, or over alignment padding). Before the first truncation nothing has
  been written.
\<close>

definition ps_inv :: "PhysicalStorage \<Rightarrow> bool" where
  "ps_inv st \<longleftrightarrow>
     ps_wal_seg_size st = wal_seg \<and>
     flush_record_lsn st \<le> write_record_lsn st \<and> flush_lsn st \<le> write_lsn st \<and>
     dec_wf (decoder st) \<and> fed_pos (decoder st) < 2 ^ 64 \<and>
     (unat (write_record_lsn st) \<le> dec_pos (decoder st) \<or> fed_pos (decoder st) = 0) \<and>
     (write_record_lsn st \<le> write_lsn st \<or>
      fed_pos (decoder st) = unat (write_lsn st) \<and> dec_state (decoder st) = SkippingEverything (write_record_lsn st)) \<and>
     (write_record_lsn st = 0 \<longrightarrow>
      write_lsn st = 0 \<and> fed_pos (decoder st) = 0 \<and> pending_wal_truncation st)"

lemma ps_inv_same:
  assumes "same_lsns st st'" and "ps_inv st"
  shows "ps_inv st'"
  using assms(2) unfolding ps_inv_def same_lsns_fields [OF assms(1)] .

lemma dec_wf_skip:
  assumes "dec_wf d" and "dec_state d = SkippingEverything u" and "WAL_SEGMENT_SIZE dvd b" and "fed_pos d \<le> b"
  shows "unat u \<le> b"
  using assms by (auto simp: dec_wf_def skips_to_def fed_pos_def)

lemma ps_inv_nonzero:
  assumes "ps_inv st" and "\<not> pending_wal_truncation st"
  shows "write_lsn st \<noteq> 0"
proof
  assume "write_lsn st = 0"
  moreover have "write_record_lsn st \<noteq> 0" using assms by (auto simp: ps_inv_def)
  ultimately have "dec_state (decoder st) = SkippingEverything (write_record_lsn st)"
    "fed_pos (decoder st) = 0" "dec_wf (decoder st)"
    using assms(1) by (auto simp: ps_inv_def)
  then have "unat (write_record_lsn st) \<le> 0" using dec_wf_skip [of "decoder st" _ 0] by simp
  then show False using \<open>write_record_lsn st \<noteq> 0\<close> by (simp add: unat_eq_0)
qed

lemma ps_inv_advanced:
  assumes inv: "ps_inv st" and adv: "advanced st st'" and np: "\<not> pending_wal_truncation st"
    and stop: "write_lsn st' = write_lsn st \<or> unat (ps_wal_seg_size st) dvd unat (write_lsn st')"
  shows "ps_inv st'"
proof -
  have s: "same_lsns (st\<lparr>write_lsn := write_lsn st', flush_lsn := flush_lsn st'\<rparr>) st'"
    and le: "write_lsn st \<le> write_lsn st'"
    and fl: "flush_lsn st' = flush_lsn st \<or> write_lsn st \<le> flush_lsn st' \<and> flush_lsn st' \<le> write_lsn st'"
    using adv by (simp_all add: advanced_def)
  have rec: "write_record_lsn st \<le> write_lsn st'" if "write_lsn st' \<noteq> write_lsn st"
  proof (cases "write_record_lsn st \<le> write_lsn st")
    case False
    then have "dec_state (decoder st) = SkippingEverything (write_record_lsn st)"
      "fed_pos (decoder st) \<le> unat (write_lsn st')" "dec_wf (decoder st)" "ps_wal_seg_size st = wal_seg"
      using inv le by (auto simp: ps_inv_def word_le_nat_alt)
    then have "unat (write_record_lsn st) \<le> unat (write_lsn st')"
      using dec_wf_skip [of "decoder st"] stop that by (simp add: WAL_SEGMENT_SIZE_def)
    then show ?thesis by (simp add: word_le_nat_alt)
  qed (use le in simp)
  have nz: "write_record_lsn st \<noteq> 0" using inv np by (auto simp: ps_inv_def)
  have "write_record_lsn st \<le> write_lsn st' \<or> fed_pos (decoder st) = unat (write_lsn st') \<and>
      dec_state (decoder st) = SkippingEverything (write_record_lsn st)"
    using inv rec by (cases "write_lsn st' = write_lsn st") (auto simp: ps_inv_def)
  moreover have "flush_lsn st' \<le> write_lsn st'" using inv fl le by (auto simp: ps_inv_def)
  ultimately show ?thesis
    by (intro ps_inv_same [OF s]) (use inv nz in \<open>simp add: ps_inv_def\<close>)
qed

lemma fold_record_written [simp]:
  "write_lsn (fold (\<lambda>r. record_written (fst r)) rs st) = write_lsn st"
  "flush_lsn (fold (\<lambda>r. record_written (fst r)) rs st) = flush_lsn st"
  "decoder (fold (\<lambda>r. record_written (fst r)) rs st) = decoder st"
  "ps_wal_seg_size (fold (\<lambda>r. record_written (fst r)) rs st) = ps_wal_seg_size st"
  "pending_wal_truncation (fold (\<lambda>r. record_written (fst r)) rs st) = pending_wal_truncation st"
  by (induction rs arbitrary: st) (simp_all add: record_written_def)

text \<open>The decoder the new bytes are fed to: the old one, or a fresh one if it lags behind.\<close>

definition next_decoder :: "lsn \<Rightarrow> WalStreamDecoder \<Rightarrow> WalStreamDecoder" where
  "next_decoder startpos d = (if fed_pos d = unat startpos then d else decoder_new startpos (dec_pg_version d))"

lemma wp_restart_decoder:
  assumes "fed_pos (decoder st) < 2 ^ 64"
  shows "wp (restart_decoder startpos) Q X st = Q () (st\<lparr>decoder := next_decoder startpos (decoder st)\<rparr>)"
proof -
  have "available (decoder st) = Inr (word_of_nat (fed_pos (decoder st)))"
    by (rule available_fed_pos [OF assms])
  moreover have "word_of_nat (fed_pos (decoder st)) = startpos \<longleftrightarrow> fed_pos (decoder st) = unat startpos"
    using assms by (auto simp: word_unat_eq_iff unat_of_nat)
  ultimately show ?thesis by (auto simp: restart_decoder_def wp_simps next_decoder_def)
qed

lemma next_decoder_pos:
  assumes "ps_inv st" and "\<not> pending_wal_truncation st"
  defines "d \<equiv> next_decoder (write_lsn st) (decoder st)"
  shows "dec_wf d" and "unat (write_record_lsn st) \<le> dec_pos d" and "fed_pos d = unat (write_lsn st)"
    and "covers (write_record_lsn st) d"
proof -
  have nz: "unat (write_lsn st) \<noteq> 0" using ps_inv_nonzero [OF assms(1,2)] by (simp add: unat_eq_0)
  have new: "dec_wf (decoder_new l v)" "dec_pos (decoder_new l v) = unat l" "fed_pos (decoder_new l v) = unat l" for l v
    by (simp_all add: dec_wf_def dec_pos_def fed_pos_def decoder_new_def)
  show "dec_wf d" "unat (write_record_lsn st) \<le> dec_pos d" "fed_pos d = unat (write_lsn st)"
    "covers (write_record_lsn st) d"
    using assms(1) nz new by (auto simp: d_def next_decoder_def ps_inv_def covers_def word_le_nat_alt)
qed

lemma dec_pos_feed [simp]:
  "dec_pos (feed_bytes b d) = dec_pos d" "dec_wf (feed_bytes b d) = dec_wf d"
  "fed_pos (feed_bytes b d) = fed_pos d + length b"
  by (simp_all add: dec_pos_def dec_wf_def fed_pos_def split: decoder_state.splits)

definition flushed_upto :: "lsn \<Rightarrow> PhysicalStorage \<Rightarrow> bool" where
  "flushed_upto fr st \<longleftrightarrow> ps_inv st \<and> fr \<le> flush_record_lsn st"

lemma wp_poll_records:
  assumes "rec_inv fr0 st (decoder st)" and "covers (write_record_lsn st) (decoder st)"
    and "fed_pos (decoder st) = unat (write_lsn st)" and "unat (write_lsn st) \<le> 2 ^ 64 - 8"
    and "ps_wal_seg_size st = wal_seg" and "flush_lsn st \<le> write_lsn st" and "write_record_lsn st \<noteq> 0"
  shows "wp (poll_records E) (\<lambda>_ st'. flushed_upto fr0 st' \<and> write_lsn st' = write_lsn st)
     (\<lambda>_ st'. flushed_upto fr0 st' \<and> write_lsn st' = write_lsn st) st"
proof -
  obtain rs e d where dr: "drain E (decoder st) = (rs, e, d)" by (cases "drain E (decoder st)") auto
  define st' where "st' = fold (\<lambda>r. record_written (fst r)) rs (st\<lparr>decoder := d\<rparr>)"
  have ri: "rec_inv fr0 (st\<lparr>decoder := d\<rparr>) (decoder st)" using assms(1) by (simp add: rec_inv_def)
  have r: "rec_inv fr0 st' d" and fd: "fed_pos d \<le> fed_pos (decoder st)" and le: "write_record_lsn st \<le> write_record_lsn st'"
    and c: "case e of None \<Rightarrow> fed_pos d = fed_pos (decoder st) \<and> covers (write_record_lsn st') d
      | Some _ \<Rightarrow> unat (write_record_lsn st') \<le> fed_pos (decoder st)"
    using drain_records [OF ri _ _ dr st'_def] assms by auto
  have "unat (write_record_lsn st') \<noteq> 0"
    using le assms(7) by (auto simp: word_le_nat_alt unat_eq_0 simp flip: unat_gt_0)
  moreover have "fed_pos d < 2 ^ 64" using fd assms(3) unat_bounds(4) [of "write_lsn st"] by simp
  ultimately have "ps_inv st'"
    using r c assms by (auto simp: ps_inv_def st'_def rec_inv_def covers_def word_le_nat_alt split: option.splits)
  then show ?thesis
    using r by (auto simp: poll_records_def wp_simps dr st'_def flushed_upto_def rec_inv_def split: option.splits)
qed

lemma wp_decode_written:
  assumes inv: "ps_inv st" and np: "\<not> pending_wal_truncation st"
    and adv: "advanced st st1" and w1: "unat (write_lsn st1) = unat (write_lsn st) + length buf"
    and fits: "unat (write_lsn st1) \<le> 2 ^ 64 - 8"
  defines "P \<equiv> (\<lambda>st'. flushed_upto (flush_record_lsn st) st' \<and> write_lsn st' = write_lsn st1)"
  shows "wp (decode_written E (write_lsn st) buf) (\<lambda>_. P) (\<lambda>_. P) st1"
proof -
  note nd = next_decoder_pos [OF inv np]
  have s: "same_lsns (st\<lparr>write_lsn := write_lsn st1, flush_lsn := flush_lsn st1\<rparr>) st1"
    and le: "write_lsn st \<le> write_lsn st1" and fl: "flush_lsn st1 \<le> write_lsn st1"
    using adv inv by (auto simp: advanced_def ps_inv_def)
  note f = same_lsns_fields [OF s, simplified]
  let ?st2 = "st1\<lparr>decoder := feed_bytes buf (next_decoder (write_lsn st) (decoder st))\<rparr>"
  let ?st3 = "if write_record_lsn st \<le> flush_lsn st1
    then ?st2\<lparr>flush_record_lsn := write_record_lsn st\<rparr> else ?st2"
  have fr: "flush_record_lsn st \<le> write_record_lsn st" "write_record_lsn st \<noteq> 0"
    "ps_wal_seg_size st = wal_seg" "fed_pos (decoder st) < 2 ^ 64"
    using inv np by (auto simp: ps_inv_def)
  have w3: "write_lsn ?st3 = write_lsn st1" by simp
  have "rec_inv (flush_record_lsn st) ?st3 (decoder ?st3)"
    using nd fr f by (simp add: rec_inv_def)
  moreover have "covers (write_record_lsn ?st3) (decoder ?st3)"
    using nd f by (auto simp: covers_def)
  moreover have "fed_pos (decoder ?st3) = unat (write_lsn ?st3)" "unat (write_lsn ?st3) \<le> 2 ^ 64 - 8"
    using nd w1 fits by simp_all
  ultimately have "wp (poll_records E) (\<lambda>_. P) (\<lambda>_. P) ?st3"
    unfolding P_def w3 [symmetric] by (rule wp_poll_records) (use fr f fl in simp_all)
  then show ?thesis
    using fr(4) f by (simp add: decode_written_def wp_thenE wp_modifyE wp_restart_decoder split: if_splits)
qed

lemma wp_write_wal:
  assumes inv: "ps_inv st" and fits: "unat startpos + length buf \<le> 2 ^ 64 - 8"
  shows "wp (write_wal E startpos buf)
     (\<lambda>_ st'. flushed_upto (flush_record_lsn st) st' \<and> unat (write_lsn st') = unat startpos + length buf)
     (\<lambda>_ st'. flushed_upto (flush_record_lsn st) st' \<and> write_lsn st \<le> write_lsn st') st"
proof (cases "pending_wal_truncation st \<or> write_lsn st \<noteq> startpos")
  case True
  then show ?thesis
    using inv ps_inv_nonzero [OF inv] by (auto simp: write_wal_def wp_simps flushed_upto_def)
next
  case False
  then have np: "\<not> pending_wal_truncation st" and w: "write_lsn st = startpos" by simp_all
  have fin: "wp (decode_written E startpos buf)
       (\<lambda>_ st'. flushed_upto (flush_record_lsn st) st' \<and> unat (write_lsn st') = unat startpos + length buf)
       (\<lambda>_ st'. flushed_upto (flush_record_lsn st) st' \<and> write_lsn st \<le> write_lsn st') st1"
    if "advanced st st1 \<and> unat (write_lsn st1) = unat startpos + length buf" for st1
    using wp_decode_written [OF inv np, of st1 buf E] that w fits
    by (auto simp: advanced_def elim!: wp_mono)
  have err: "flushed_upto (flush_record_lsn st) st1 \<and> write_lsn st \<le> write_lsn st1"
    if "advanced st st1 \<and> (write_lsn st1 = startpos \<or> unat (ps_wal_seg_size st) dvd unat (write_lsn st1))" for st1
    using ps_inv_advanced [OF inv _ np] that w same_lsns_fields(8)
    by (fastforce simp: flushed_upto_def advanced_def)
  show ?thesis
    unfolding write_wal_def
    by (simp add: wp_bindE wp_getE wp_thenE wp_guardE w np)
      (rule wp_mono [OF wp_write_exact [OF w]], use fin err w in auto)
qed

section \<open>Flushing and truncating\<close>

lemma wp_flush_wal:
  assumes inv: "ps_inv st"
  shows "wp flush_wal
     (\<lambda>_ st'. flushed_upto (flush_record_lsn st) st' \<and> write_lsn st' = write_lsn st
        \<and> flush_record_lsn st' = write_record_lsn st)
     (\<lambda>_ st'. flushed_upto (flush_record_lsn st) st' \<and> write_lsn st' = write_lsn st) st"
proof -
  have fl: "flushed_upto (flush_record_lsn st)
        (st'\<lparr>wal_file := f, flush_lsn := write_lsn st', flush_record_lsn := write_record_lsn st'\<rparr>)"
    if "same_lsns st st'" for st' f
    using inv same_lsns_fields [OF that] by (auto simp: flushed_upto_def ps_inv_def)
  have same: "flushed_upto (flush_record_lsn st) st'" if "same_lsns st st'" for st'
    using ps_inv_same [OF that inv] same_lsns_fields [OF that] by (simp add: flushed_upto_def)
  have sync: "wp (fdatasync_file p) (\<lambda>_. same_lsns st) (\<lambda>_. same_lsns st) (st\<lparr>wal_file := None\<rparr>)" for p
    by (rule keepsD [OF keeps_file_ops(2)]) simp
  show ?thesis
    using fl same same_lsns_fields(5,6)
    by (auto simp: flush_wal_def wp_simps take_file_def flushed_upto_def inv split: option.splits
        intro!: wp_mono [OF sync])
qed

lemma wp_truncate_wal:
  assumes inv: "ps_inv st" and nz: "end_pos \<noteq> 0"
  shows "wp (truncate_wal end_pos)
     (\<lambda>_ st'. ps_inv st' \<and> flush_record_lsn st' = end_pos \<and> write_lsn st' = end_pos)
     (\<lambda>_ st'. ps_inv st' \<and>
        (flush_record_lsn st' = flush_record_lsn st \<and> write_lsn st' = write_lsn st \<or>
         flush_record_lsn st' = end_pos \<and> write_lsn st' = end_pos)) st"
proof -
  let ?st1 = "st\<lparr>pending_wal_truncation := True, write_lsn := end_pos, flush_lsn := end_pos,
                  write_record_lsn := end_pos, flush_record_lsn := end_pos\<rparr>"
  let ?g = "\<not> (write_record_lsn st \<noteq> 0 \<and> write_record_lsn st < end_pos)"
  have ok: "ps_inv ?st1" "ps_inv (?st1\<lparr>pending_wal_truncation := False\<rparr>)" if ?g
    using inv nz that by (cases "write_record_lsn st = 0"; auto simp: ps_inv_def word_le_nat_alt word_less_nat_alt)+
  have inv1: "ps_inv st' \<and> flush_record_lsn st' = end_pos \<and> write_lsn st' = end_pos"
    if "same_lsns ?st1 st'" ?g for st'
    using ps_inv_same [OF that(1) ok(1) [OF that(2)]] same_lsns_fields [OF that(1)] by simp
  have inv2: "ps_inv (st'\<lparr>pending_wal_truncation := False\<rparr>) \<and> flush_record_lsn st' = end_pos \<and> write_lsn st' = end_pos"
    if s: "same_lsns ?st1 st'" and g: ?g for st'
  proof -
    have "same_lsns (?st1\<lparr>pending_wal_truncation := False\<rparr>) (st'\<lparr>pending_wal_truncation := False\<rparr>)"
      using s by (cases st; cases st') (simp add: same_lsns_def)
    from ps_inv_same [OF this ok(2) [OF g]] show ?thesis using same_lsns_fields [OF s] by simp
  qed
  have "keeps (same_lsns ?st1) (truncate_files end_pos)"
    unfolding truncate_files_def by (intro keeps_intros)
  then have body: "wp (truncate_files end_pos) (\<lambda>_. same_lsns ?st1) (\<lambda>_. same_lsns ?st1) ?st1"
    by (rule wp_same)
  show ?thesis
  proof (cases "?g \<and> (pending_wal_truncation st \<or> end_pos \<noteq> write_lsn st \<or> end_pos \<noteq> flush_record_lsn st)")
    case True
    then have g: ?g by blast
    have eq: "wp (truncate_wal end_pos) Q X st = wp (truncate_files end_pos)
        (\<lambda>_. wp (modifyE (\<lambda>st. st\<lparr>pending_wal_truncation := False\<rparr>)) Q X) X ?st1" for Q X
      using True by (auto simp: truncate_wal_def wp_simps)
    show ?thesis unfolding eq
      by (rule wp_mono [OF body]) (simp_all add: wp_modifyE inv1 [OF _ g] inv2 [OF _ g])
  qed (use inv in \<open>auto simp: truncate_wal_def wp_simps\<close>)
qed

section \<open>The interface\<close>

text \<open>The trait \<open>wal_storage::Storage\<close>.\<close>

record 'w wal_ops =
  ws_write_lsn :: "'w \<Rightarrow> lsn"
  ws_flush_lsn :: "'w \<Rightarrow> lsn"
  ws_initialize_first_segment :: "lsn \<Rightarrow> ('w, unit) prog"
  ws_write_wal :: "lsn \<Rightarrow> bytes \<Rightarrow> ('w, unit) prog"
  ws_truncate_wal :: "lsn \<Rightarrow> ('w, unit) prog"
  ws_flush_wal :: "('w, unit) prog"
  ws_remove_up_to :: "u64 \<Rightarrow> ('w, unit) prog"
  ws_close :: "('w, unit) prog"

definition physical_ops :: "wal_env \<Rightarrow> PhysicalStorage wal_ops" where
  "physical_ops E =
     \<lparr>ws_write_lsn = write_lsn, ws_flush_lsn = flush_record_lsn,
      ws_initialize_first_segment = initialize_first_segment E, ws_write_wal = write_wal E,
      ws_truncate_wal = truncate_wal, ws_flush_wal = flush_wal, ws_remove_up_to = remove_up_to,
      ws_close = storage_close\<rparr>"

text \<open>
  What the consensus code relies on: writes and flushes never move the reported flush position
  back, a truncation sets both positions or leaves both, the other operations leave both.
\<close>

locale wal_storage =
  fixes S :: "'w wal_ops" and inv :: "'w \<Rightarrow> bool"
  assumes write_law: "inv w \<Longrightarrow> unat startpos + length buf \<le> 2 ^ 64 - 8 \<Longrightarrow>
      wp (ws_write_wal S startpos buf)
        (\<lambda>_ w'. inv w' \<and> ws_flush_lsn S w \<le> ws_flush_lsn S w' \<and> unat (ws_write_lsn S w') = unat startpos + length buf)
        (\<lambda>_ w'. inv w' \<and> ws_flush_lsn S w \<le> ws_flush_lsn S w' \<and> ws_write_lsn S w \<le> ws_write_lsn S w') w"
    and flush_law: "inv w \<Longrightarrow>
      wp (ws_flush_wal S)
        (\<lambda>_ w'. inv w' \<and> ws_flush_lsn S w \<le> ws_flush_lsn S w' \<and> ws_write_lsn S w' = ws_write_lsn S w)
        (\<lambda>_ w'. inv w' \<and> ws_flush_lsn S w \<le> ws_flush_lsn S w' \<and> ws_write_lsn S w' = ws_write_lsn S w) w"
    and truncate_law: "inv w \<Longrightarrow> end_pos \<noteq> 0 \<Longrightarrow>
      wp (ws_truncate_wal S end_pos)
        (\<lambda>_ w'. inv w' \<and> ws_flush_lsn S w' = end_pos \<and> ws_write_lsn S w' = end_pos)
        (\<lambda>_ w'. inv w' \<and>
          (ws_flush_lsn S w' = ws_flush_lsn S w \<and> ws_write_lsn S w' = ws_write_lsn S w \<or>
           ws_flush_lsn S w' = end_pos \<and> ws_write_lsn S w' = end_pos)) w"
    and initialize_law: "inv w \<Longrightarrow>
      wp (ws_initialize_first_segment S l)
        (\<lambda>_ w'. inv w' \<and> ws_flush_lsn S w' = ws_flush_lsn S w \<and> ws_write_lsn S w' = ws_write_lsn S w)
        (\<lambda>_ w'. inv w' \<and> ws_flush_lsn S w' = ws_flush_lsn S w \<and> ws_write_lsn S w' = ws_write_lsn S w) w"

interpretation physical: wal_storage "physical_ops E" ps_inv for E
proof unfold_locales
  fix w startpos buf
  assume "ps_inv w" and "unat (startpos :: lsn) + length (buf :: bytes) \<le> 2 ^ 64 - 8"
  from wp_write_wal [OF this] show "wp (ws_write_wal (physical_ops E) startpos buf)
        (\<lambda>_ w'. ps_inv w' \<and> ws_flush_lsn (physical_ops E) w \<le> ws_flush_lsn (physical_ops E) w' \<and>
           unat (ws_write_lsn (physical_ops E) w') = unat startpos + length buf)
        (\<lambda>_ w'. ps_inv w' \<and> ws_flush_lsn (physical_ops E) w \<le> ws_flush_lsn (physical_ops E) w' \<and>
           ws_write_lsn (physical_ops E) w \<le> ws_write_lsn (physical_ops E) w') w"
    by (simp add: physical_ops_def flushed_upto_def)
next
  fix w assume "ps_inv w"
  from wp_flush_wal [OF this] show "wp (ws_flush_wal (physical_ops E))
        (\<lambda>_ w'. ps_inv w' \<and> ws_flush_lsn (physical_ops E) w \<le> ws_flush_lsn (physical_ops E) w' \<and>
           ws_write_lsn (physical_ops E) w' = ws_write_lsn (physical_ops E) w)
        (\<lambda>_ w'. ps_inv w' \<and> ws_flush_lsn (physical_ops E) w \<le> ws_flush_lsn (physical_ops E) w' \<and>
           ws_write_lsn (physical_ops E) w' = ws_write_lsn (physical_ops E) w) w"
    by (simp add: physical_ops_def) (erule wp_mono, auto simp: flushed_upto_def)
next
  fix w l assume "ps_inv w"
  have "wp (initialize_first_segment E l) (\<lambda>_. same_lsns w) (\<lambda>_. same_lsns w) w"
    by (rule wp_same) (rule keeps_intros)
  then show "wp (ws_initialize_first_segment (physical_ops E) l)
        (\<lambda>_ w'. ps_inv w' \<and> ws_flush_lsn (physical_ops E) w' = ws_flush_lsn (physical_ops E) w \<and>
          ws_write_lsn (physical_ops E) w' = ws_write_lsn (physical_ops E) w)
        (\<lambda>_ w'. ps_inv w' \<and> ws_flush_lsn (physical_ops E) w' = ws_flush_lsn (physical_ops E) w \<and>
          ws_write_lsn (physical_ops E) w' = ws_write_lsn (physical_ops E) w) w"
    by (simp add: physical_ops_def)
      (erule wp_mono, auto simp: same_lsns_fields intro: ps_inv_same \<open>ps_inv w\<close>)
qed (use wp_truncate_wal in \<open>simp add: physical_ops_def\<close>)

end
