(* ===== verification/Wal_Data.thy ===== *)
theory Wal_Data
  imports Wal_Storage_Inv
begin

text \<open>
  What the WAL storage keeps on disk (\<open>PhysicalStorage\<close> of \<open>safekeeper/src/wal_storage.rs\<close>):
  as long as file system calls succeed, the segment files hold exactly the bytes written, across
  segment boundaries, and every byte below the flushed position survives a crash. A failing open
  of an existing segment is not handled like that: the segment is created anew.
\<close>

section \<open>Calls that do not fail\<close>

named_theorems io_ok

lemma io_effect_ok [io_ok]: "fs_io s = [] \<Longrightarrow> io_effect full part s = (Inr (), full s)"
  by (simp add: io_effect_def io_step_def bindE_def modifyE_def)

lemma fs_open_ok [io_ok]: "fs_io s = [] \<Longrightarrow> fs_open p s = (Inr (fs_file s p), s)"
  by (simp add: fs_open_def io_step_def bindE_def getE_def)

lemma fs_io_kept [simp]:
  "fs_io (change_file p g s) = fs_io s" "fs_io (change_dir h s) = fs_io s" "fs_io (new_entry p s) = fs_io s"
  by (simp_all add: change_file_def change_dir_def new_entry_def split: option.splits)

lemma fs_next_kept [simp]:
  "fs_next (change_file p g s) = fs_next s" "fs_next (change_dir h s) = fs_next s"
  "fs_next (new_entry p s) = Suc (fs_next s)"
  by (simp_all add: change_file_def change_dir_def new_entry_def split: option.splits)

lemma fs_calls_ok [io_ok]:
  assumes "fs_io s = []"
  shows "fs_create p s =
      (Inr (), case fs_file s p of None \<Rightarrow> new_entry p s | Some _ \<Rightarrow> change_file p (resize 0) s)"
    and "fs_write p off buf s = (Inr (), change_file p (write_at off buf) s)"
    and "fs_nop s = (Inr (), s)"
    and "fs_set_len p n s = (Inr (), change_file p (resize n) s)"
    and "fs_sync_file p s = (Inr (), change_file p synced s)"
    and "fs_sync_dir s = (Inr (), s\<lparr>fs_prev := []\<rparr>)"
    and "fs_file s p = Some f \<Longrightarrow> fs_rename p q s = (Inr (), change_dir (move_entry p q f) s)"
  using assms
  by (simp_all add: fs_create_def fs_write_def fs_nop_def fs_set_len_def fs_sync_file_def fs_sync_dir_def fs_rename_def
      io_effect_ok bindE_def getE_def Let_def)

lemma try_open_ok [io_ok]: "fs_io s = [] \<Longrightarrow> try_open p s = (Inr (fs_file s p \<noteq> None), s)"
  by (simp add: try_open_def io_ok)

lemma durable_rename_ok [io_ok]:
  assumes "fs_io s = []" and "fs_file s p = Some f"
  shows "durable_rename p q True s = (Inr (), (change_dir (move_entry p q (synced f)) (change_file p synced s))\<lparr>fs_prev := []\<rparr>)"
  using assms
  by (simp add: durable_rename_def fsync_async_opt_def fsync_dir_opt_def thenE_def bindE_def io_ok)

text \<open>A segment is created with its full length of zeros, and nothing else is visible afterwards.\<close>

lemma create_segment_ok:
  assumes "fs_io s = []" and "p \<noteq> ''waltmp''"
  obtains s' i where "create_segment p sz False s = (Inr (), s')" and "fs_io s' = []"
    and "fs_prev s' = []"
    and "\<And>q. fs_file s' q =
       (if q = p then Some \<lparr>f_ino = i, f_data = replicate (unat sz) 0, f_synced = unat sz\<rparr>
        else if q = ''waltmp'' then None else fs_file s q)"
    and "i = fs_next s \<and> fs_next s' = Suc (fs_next s) \<or>
       (\<exists>f. fs_file s ''waltmp'' = Some f \<and> i = f_ino f) \<and> fs_next s' = fs_next s"
proof -
  define s1 where "s1 = (case fs_file s ''waltmp'' of
      None \<Rightarrow> new_entry ''waltmp'' s | Some _ \<Rightarrow> change_file ''waltmp'' (resize 0) s)"
  define s2 where "s2 = change_file ''waltmp'' (resize (unat sz)) s1"
  have io: "fs_io s1 = []" "fs_io s2 = []"
    using assms(1) by (simp_all add: s1_def s2_def split: option.splits)
  obtain i k where f: "fs_file s2 ''waltmp'' = Some \<lparr>f_ino = i, f_data = replicate (unat sz) 0, f_synced = k\<rparr>"
    and i: "i = fs_next s \<and> fs_next s2 = Suc (fs_next s) \<or>
       (\<exists>f. fs_file s ''waltmp'' = Some f \<and> i = f_ino f) \<and> fs_next s2 = fs_next s"
  proof (cases "fs_file s ''waltmp''")
    case None
    then show thesis
      by (intro that [of "fs_next s" 0]) (simp_all add: s2_def s1_def resize_def)
  next
    case (Some g)
    then show thesis
      by (intro that [of "f_ino g" 0]) (simp_all add: s2_def s1_def resize_def)
  qed
  have other: "fs_file s2 q = fs_file s q" if "q \<noteq> ''waltmp''" for q
    using that by (auto simp: s2_def s1_def split: option.splits)
  define s3 where "s3 = (change_dir (move_entry ''waltmp'' p
     (synced \<lparr>f_ino = i, f_data = replicate (unat sz) 0, f_synced = k\<rparr>)) (change_file ''waltmp'' synced s2))\<lparr>fs_prev := []\<rparr>"
  have c: "create_segment p sz False s = (Inr (), s3)"
    using assms(1) io durable_rename_ok [OF io(2) f, of p]
    by (simp add: create_segment_def thenE_def bindE_def catchE_def io_ok s1_def [symmetric] s2_def [symmetric]
        s3_def)
  have fl: "fs_file s3 q = (if q = p then Some \<lparr>f_ino = i, f_data = replicate (unat sz) 0, f_synced = unat sz\<rparr>
        else if q = ''waltmp'' then None else fs_file s q)" for q
    using other [of q] f by (simp add: s3_def synced_def flip: fs_file_def)
  have rest: "fs_io s3 = []" "fs_prev s3 = []" "fs_next s3 = fs_next s2"
    using io by (simp_all add: s3_def)
  show thesis by (rule that [OF c rest(1,2) fl]) (use i rest(3) in simp)
qed

section \<open>Segments of a directory\<close>

abbreviation SEG :: nat where
  "SEG \<equiv> 16777216"

definition full_name :: "nat \<Rightarrow> path" where
  "full_name n = XLogFileName PG_TLI (word_of_nat n) SEG"

definition partial_name :: "nat \<Rightarrow> path" where
  "partial_name n = full_name n @ ''.partial''"

definition seg_ok :: "nat \<Rightarrow> bool" where
  "seg_ok n \<longleftrightarrow> n < 2 ^ 40"

lemma segment_names:
  assumes "seg_ok n"
  shows "XLogFromFileName (full_name n) SEG = Inr (word_of_nat n, PG_TLI)" and "length (full_name n) = 24"
proof -
  have "unat (word_of_nat n :: u64) div (2 ^ 32 div SEG) < 2 ^ 32"
    using assms by (simp add: seg_ok_def div_less_iff_less_mult unat_of_nat)
  note f = xlog_file_name_fields [OF _ _ this, of PG_TLI]
  show "XLogFromFileName (full_name n) SEG = Inr (word_of_nat n, PG_TLI)" unfolding full_name_def by (rule f(1)) simp_all
  show "length (full_name n) = 24" using f(2) by (simp add: full_name_def IsXLogFileName_def XLOG_FNAME_LEN_def)
qed

lemma segment_names_inj [simp]:
  assumes "seg_ok n" and "seg_ok m"
  shows "full_name n = full_name m \<longleftrightarrow> n = m"
proof
  assume "full_name n = full_name m"
  then have "(Inr (word_of_nat n, PG_TLI) :: (u64 \<times> u32) res) = Inr (word_of_nat m, PG_TLI)"
    using segment_names(1) [OF assms(1)] segment_names(1) [OF assms(2)] by metis
  then have "unat (word_of_nat n :: u64) = unat (word_of_nat m :: u64)" by (simp only: sum.inject prod.inject)
  then show "n = m" using assms by (simp add: seg_ok_def unat_of_nat)
qed simp

lemma partial_names_inj [simp]: "seg_ok n \<Longrightarrow> seg_ok m \<Longrightarrow> partial_name n = partial_name m \<longleftrightarrow> n = m"
  by (simp add: partial_name_def)

lemma length_names:
  assumes "seg_ok n"
  shows "length (full_name n) = 24" "length (partial_name n) = 32"
  using segment_names(2) [OF assms] by (simp_all add: partial_name_def)

lemma segment_names_distinct [simp]:
  assumes "seg_ok n"
  shows "full_name n \<noteq> ''waltmp''" "partial_name n \<noteq> ''waltmp''" "''waltmp'' \<noteq> partial_name n" "''waltmp'' \<noteq> full_name n"
    and "seg_ok m \<Longrightarrow> full_name n \<noteq> partial_name m" "seg_ok m \<Longrightarrow> partial_name m \<noteq> full_name n"
proof -
  have ne: "length a \<noteq> length b \<Longrightarrow> a \<noteq> b" for a b :: path by blast
  show "full_name n \<noteq> ''waltmp''" "partial_name n \<noteq> ''waltmp''" "''waltmp'' \<noteq> partial_name n" "''waltmp'' \<noteq> full_name n"
    by (rule ne, simp add: length_names [OF assms])+
  show "seg_ok m \<Longrightarrow> full_name n \<noteq> partial_name m" "seg_ok m \<Longrightarrow> partial_name m \<noteq> full_name n"
    by (rule ne, simp add: length_names [OF assms] length_names)+
qed

text \<open>The file a reader finds for a segment: \<open>.partial\<close> first.\<close>

definition dir_file :: "dir \<Rightarrow> nat \<Rightarrow> fnode option" where
  "dir_file D n = (case map_of D (partial_name n) of Some f \<Rightarrow> Some f | None \<Rightarrow> map_of D (full_name n))"

definition dir_byte :: "dir \<Rightarrow> nat \<Rightarrow> u8 option" where
  "dir_byte D i =
     (case dir_file D (i div SEG) of
        None \<Rightarrow> None
      | Some f \<Rightarrow> if i mod SEG < length (f_data f) then Some (f_data f ! (i mod SEG)) else None)"

text \<open>The byte at a position is there and on stable storage.\<close>

definition dir_synced :: "dir \<Rightarrow> nat \<Rightarrow> u8 \<Rightarrow> bool" where
  "dir_synced D i b \<longleftrightarrow>
     dir_byte D i = Some b \<and> (\<forall>f. dir_file D (i div SEG) = Some f \<longrightarrow> i mod SEG < f_synced f)"

lemma dir_synced_survives:
  assumes "dir_synced D i b" and "\<And>p. rel_option survives (map_of D p) (fs_file s p)"
  shows "dir_byte (fs_cur s) i = Some b"
proof -
  obtain f where f: "dir_file D (i div SEG) = Some f" "i mod SEG < length (f_data f)" "f_data f ! (i mod SEG) = b"
      "i mod SEG < f_synced f"
    using assms(1) by (auto simp: dir_synced_def dir_byte_def split: option.splits if_splits)
  have "rel_option survives (dir_file D (i div SEG)) (dir_file (fs_cur s) (i div SEG))"
    using assms(2) [of "partial_name (i div SEG)"] assms(2) [of "full_name (i div SEG)"]
    by (auto simp: dir_file_def fs_file_def split: option.splits)
  then obtain g where g: "dir_file (fs_cur s) (i div SEG) = Some g" "survives f g"
    using f(1) by (auto simp: option_rel_Some1)
  then have t: "take (f_synced f) (f_data g) = take (f_synced f) (f_data f)" by (simp add: survives_def)
  then have "i mod SEG < length (f_data g)"
    using f(2,4) by (metis length_take min_less_iff_conj)
  moreover have "f_data g ! (i mod SEG) = b" using t f(3,4) by (metis nth_take)
  ultimately show ?thesis using g(1) by (simp add: dir_byte_def)
qed

section \<open>Directories while WAL is written\<close>

text \<open>
  Segment \<open>n\<close> is being written up to position \<open>w\<close>, \<open>fl\<close> bytes are flushed, and the log
  holds the bytes \<open>c\<close> from position \<open>lo\<close> on. Every directory a crash may fall back to has
  the flushed bytes on stable storage.
\<close>

definition dirs_ok :: "fs \<Rightarrow> nat \<Rightarrow> nat \<Rightarrow> nat \<Rightarrow> nat \<Rightarrow> (nat \<Rightarrow> u8) \<Rightarrow> bool" where
  "dirs_ok s n w fl lo c \<longleftrightarrow>
     fs_io s = [] \<and> seg_ok n \<and> n * SEG \<le> w \<and> w \<le> Suc n * SEG \<and> fl \<le> w \<and>
     (\<forall>m. seg_ok m \<longrightarrow> n \<le> m \<longrightarrow> fs_file s (full_name m) = None) \<and>
     (\<forall>m. seg_ok m \<longrightarrow> n < m \<longrightarrow> fs_file s (partial_name m) = None) \<and>
     (\<forall>f. fs_file s (partial_name n) = Some f \<longrightarrow>
        length (f_data f) = SEG \<and> (\<forall>D \<in> set (fs_prev s). dir_file D n = Some f) \<and>
        (\<forall>D \<in> set (fs_cur s # fs_prev s). \<forall>m g. seg_ok m \<longrightarrow> m \<noteq> n \<longrightarrow> dir_file D m = Some g \<longrightarrow> f_ino g \<noteq> f_ino f)) \<and>
     (\<forall>m g. seg_ok m \<longrightarrow> dir_file (fs_cur s) m = Some g \<longrightarrow> f_ino g < fs_next s \<and>
        (\<forall>h. fs_file s ''waltmp'' = Some h \<longrightarrow> f_ino h \<noteq> f_ino g)) \<and>
     (\<forall>h. fs_file s ''waltmp'' = Some h \<longrightarrow> f_ino h < fs_next s) \<and>
     (\<forall>i. lo \<le> i \<longrightarrow> i < w \<longrightarrow> dir_byte (fs_cur s) i = Some (c i)) \<and>
     (\<forall>D \<in> set (fs_cur s # fs_prev s). \<forall>i. lo \<le> i \<longrightarrow> i < fl \<longrightarrow> dir_synced D i (c i)) \<and>
     (\<forall>i. lo \<le> i \<longrightarrow> fl \<le> i \<longrightarrow> i < w \<longrightarrow> i div SEG = n)"

lemma dir_file_cur: "dir_file (fs_cur s) n = (case fs_file s (partial_name n) of Some f \<Rightarrow> Some f | None \<Rightarrow> fs_file s (full_name n))"
  by (simp add: dir_file_def fs_file_def split: option.split)

lemma dir_file_update_ino:
  "dir_file (update_ino i g D) n = map_option (\<lambda>f. if f_ino f = i then g f else f) (dir_file D n)"
  by (auto simp: dir_file_def map_of_update_ino split: option.splits)

lemma dir_byte_cong: "dir_file D (i div SEG) = dir_file D' (i div SEG) \<Longrightarrow> dir_byte D i = dir_byte D' i"
  by (simp add: dir_byte_def)

lemma dir_synced_cong: "dir_file D (i div SEG) = dir_file D' (i div SEG) \<Longrightarrow> dir_synced D i b = dir_synced D' i b"
  by (simp add: dir_synced_def dir_byte_def)

lemma dirs_okD:
  assumes "dirs_ok s n w fl lo c"
  shows "seg_ok n" "fs_io s = []" "n * SEG \<le> w" "w \<le> Suc n * SEG" "fl \<le> w"
    and "seg_ok m \<Longrightarrow> n \<le> m \<Longrightarrow> fs_file s (full_name m) = None"
    and "seg_ok m \<Longrightarrow> n < m \<Longrightarrow> fs_file s (partial_name m) = None"
    and "lo \<le> i \<Longrightarrow> i < w \<Longrightarrow> dir_byte (fs_cur s) i = Some (c i)"
    and "D \<in> set (fs_cur s # fs_prev s) \<Longrightarrow> lo \<le> i \<Longrightarrow> i < fl \<Longrightarrow> dir_synced D i (c i)"
    and "lo \<le> i \<Longrightarrow> fl \<le> i \<Longrightarrow> i < w \<Longrightarrow> i div SEG = n"
    and "seg_ok m \<Longrightarrow> dir_file (fs_cur s) m = Some h \<Longrightarrow> f_ino h < fs_next s"
    and "seg_ok m \<Longrightarrow> dir_file (fs_cur s) m = Some h \<Longrightarrow> fs_file s ''waltmp'' = Some x \<Longrightarrow> f_ino x \<noteq> f_ino h"
    and "fs_file s ''waltmp'' = Some x \<Longrightarrow> f_ino x < fs_next s"
  using assms unfolding dirs_ok_def by blast+

lemma seg_ok_below: "seg_ok n \<Longrightarrow> i < Suc n * SEG \<Longrightarrow> seg_ok (i div SEG)"
  using less_mult_imp_div_less [of i "Suc n" SEG] by (simp add: seg_ok_def)

lemma change_seg:
  assumes ok: "dirs_ok s n w fl lo c" and f: "fs_file s (partial_name n) = Some f"
    and D': "D' \<in> set (fs_cur (change_file (partial_name n) g s) # fs_prev (change_file (partial_name n) g s))"
  obtains D where "D \<in> set (fs_cur s # fs_prev s)" and "dir_file D n = Some f"
    and "\<And>m. seg_ok m \<Longrightarrow> dir_file D' m = ((dir_file D)(n \<mapsto> g f)) m"
proof -
  have sn: "seg_ok n" using dirs_okD(1) [OF ok] .
  have seg: "\<forall>D \<in> set (fs_prev s). dir_file D n = Some f"
    "\<And>D m h. D \<in> set (fs_prev s) \<Longrightarrow> seg_ok m \<Longrightarrow> m \<noteq> n \<Longrightarrow> dir_file D m = Some h \<Longrightarrow> f_ino h \<noteq> f_ino f"
    using ok f by (simp_all add: dirs_ok_def)
  consider "D' = fs_cur (change_file (partial_name n) g s)"
    | D where "D \<in> set (fs_prev s)" "D' = update_ino (f_ino f) g D"
    using D' f by (auto simp: change_file_def)
  then show thesis
  proof cases
    case 1
    have "dir_file D' m = ((dir_file (fs_cur s))(n \<mapsto> g f)) m" if "seg_ok m" for m
      using that sn f by (simp add: 1 dir_file_cur split: option.split)
    then show thesis using that [of "fs_cur s"] f by (simp add: dir_file_cur)
  next
    case 2
    have "dir_file D' m = ((dir_file D)(n \<mapsto> g f)) m" if "seg_ok m" for m
      using seg(1) seg(2) [OF 2(1) that] 2
      by (cases "m = n"; cases "dir_file D m") (auto simp: dir_file_update_ino)
    then show thesis using that [of D] 2(1) seg(1) by simp
  qed
qed

lemma change_seg_cur:
  assumes "dirs_ok s n w fl lo c" and "fs_file s (partial_name n) = Some f" and "seg_ok m"
  shows "dir_file (fs_cur (change_file (partial_name n) g s)) m = ((dir_file (fs_cur s))(n \<mapsto> g f)) m"
  using assms(2,3) dirs_okD(1) [OF assms(1)] by (simp add: dir_file_cur split: option.split)

text \<open>Everything but the bytes and the flushed position is kept by a change of the current file.\<close>

lemma dirs_ok_change:
  assumes ok: "dirs_ok s n w fl lo c" and f: "fs_file s (partial_name n) = Some f"
    and g: "\<And>x. f_ino (g x) = f_ino x" "length (f_data (g f)) = SEG"
    and w': "n * SEG \<le> w'" "w' \<le> Suc n * SEG" "fl' \<le> w'"
    and cur: "\<And>i. lo \<le> i \<Longrightarrow> i < w' \<Longrightarrow> i div SEG \<noteq> n \<Longrightarrow> i < w \<and> c' i = c i"
    and dur: "\<And>i. lo \<le> i \<Longrightarrow> i < fl' \<Longrightarrow> i div SEG \<noteq> n \<Longrightarrow> i < fl"
    and curn: "\<And>i. lo \<le> i \<Longrightarrow> i < w' \<Longrightarrow> i div SEG = n \<Longrightarrow> f_data (g f) ! (i mod SEG) = c' i"
    and durn: "\<And>i. lo \<le> i \<Longrightarrow> i < fl' \<Longrightarrow> i div SEG = n \<Longrightarrow> i mod SEG < f_synced (g f)"
    and tail: "\<And>i. lo \<le> i \<Longrightarrow> fl' \<le> i \<Longrightarrow> i < w' \<Longrightarrow> i div SEG = n"
  shows "dirs_ok (change_file (partial_name n) g s) n w' fl' lo c'"
proof -
  let ?s = "change_file (partial_name n) g s"
  have sn: "seg_ok n" using dirs_okD(1) [OF ok] .
  have sg: "seg_ok (i div SEG)" if "i < w'" for i by (rule seg_ok_below [OF sn]) (use that w' in linarith)
  have byte: "dir_byte D' i = Some (c' i)"
    if "\<And>m. seg_ok m \<Longrightarrow> dir_file D' m = ((dir_file D)(n \<mapsto> g f)) m" "lo \<le> i" "i < w'"
      "i div SEG \<noteq> n \<Longrightarrow> dir_byte D i = Some (c i)" for D D' i
    using that(1) [OF sg [OF that(3)]] that(2-4) cur [of i] curn [of i] g(2)
    by (cases "i div SEG = n") (simp_all add: dir_byte_def)
  have syn: "dir_synced D' i (c' i)"
    if "\<And>m. seg_ok m \<Longrightarrow> dir_file D' m = ((dir_file D)(n \<mapsto> g f)) m" "lo \<le> i" "i < fl'"
      "D \<in> set (fs_cur s # fs_prev s)" for D D' i
  proof -
    have iw: "i < w'" using that(3) w'(3) by simp
    have old: "dir_synced D i (c i)" if "i div SEG \<noteq> n"
      using dirs_okD(9) [OF ok] \<open>D \<in> _\<close> \<open>lo \<le> i\<close> dur [OF \<open>lo \<le> i\<close> \<open>i < fl'\<close> that] by blast
    have "dir_byte D' i = Some (c' i)"
      by (rule byte [OF that(1,2) iw]) (use old in \<open>auto simp: dir_synced_def\<close>)
    then show ?thesis
      using that(1) [OF sg [OF iw]] durn [OF that(2,3)] old
      by (cases "i div SEG = n") (auto simp: dir_synced_def)
  qed
  have f4: "\<forall>D \<in> set (fs_cur s # fs_prev s). \<forall>m h. seg_ok m \<longrightarrow> m \<noteq> n \<longrightarrow> dir_file D m = Some h \<longrightarrow> f_ino h \<noteq> f_ino f"
    using ok f by (simp add: dirs_ok_def)
  have f5: "seg_ok m \<Longrightarrow> dir_file (fs_cur s) m = Some h \<Longrightarrow> f_ino h < fs_next s \<and>
      (\<forall>x. fs_file s ''waltmp'' = Some x \<longrightarrow> f_ino x \<noteq> f_ino h)"
    "fs_file s ''waltmp'' = Some x \<Longrightarrow> f_ino x < fs_next s" for m h x
    using ok by (simp_all add: dirs_ok_def)
  have new: "dir_file D' n = Some (g f)" "\<forall>m h. seg_ok m \<longrightarrow> m \<noteq> n \<longrightarrow> dir_file D' m = Some h \<longrightarrow> f_ino h \<noteq> f_ino f"
    if "D' \<in> set (fs_cur ?s # fs_prev ?s)" for D'
    using change_seg [OF ok f that] f4 sn by (metis fun_upd_apply)+
  have "dir_file (fs_cur s) n = Some f" using f by (simp add: dir_file_cur)
  then have five: "\<forall>m h. seg_ok m \<longrightarrow> dir_file (fs_cur ?s) m = Some h \<longrightarrow> f_ino h < fs_next s \<and>
      (\<forall>x. fs_file s ''waltmp'' = Some x \<longrightarrow> f_ino x \<noteq> f_ino h)"
    using f5(1) change_seg_cur [OF ok f, of _ g] g(1) sn by (auto split: if_splits)
  show ?thesis
    unfolding dirs_ok_def
  proof (intro conjI)
    show "\<forall>i. lo \<le> i \<longrightarrow> i < w' \<longrightarrow> dir_byte (fs_cur ?s) i = Some (c' i)"
      using byte [of "fs_cur ?s" "fs_cur s", OF change_seg_cur [OF ok f]] dirs_okD(8) [OF ok] cur by metis
    show "\<forall>D \<in> set (fs_cur ?s # fs_prev ?s). \<forall>i. lo \<le> i \<longrightarrow> i < fl' \<longrightarrow> dir_synced D i (c' i)"
      using change_seg [OF ok f] syn by metis
    show "\<forall>m. seg_ok m \<longrightarrow> n \<le> m \<longrightarrow> fs_file ?s (full_name m) = None"
      "\<forall>m. seg_ok m \<longrightarrow> n < m \<longrightarrow> fs_file ?s (partial_name m) = None"
      using dirs_okD(6,7) [OF ok] sn by simp_all
    show "\<forall>x. fs_file ?s (partial_name n) = Some x \<longrightarrow>
        length (f_data x) = SEG \<and> (\<forall>D \<in> set (fs_prev ?s). dir_file D n = Some x) \<and>
        (\<forall>D \<in> set (fs_cur ?s # fs_prev ?s). \<forall>m h. seg_ok m \<longrightarrow> m \<noteq> n \<longrightarrow> dir_file D m = Some h \<longrightarrow> f_ino h \<noteq> f_ino x)"
      using new f g by simp blast
    show "\<forall>m h. seg_ok m \<longrightarrow> dir_file (fs_cur ?s) m = Some h \<longrightarrow> f_ino h < fs_next ?s \<and>
        (\<forall>x. fs_file ?s ''waltmp'' = Some x \<longrightarrow> f_ino x \<noteq> f_ino h)"
      using five sn by simp
    show "\<forall>x. fs_file ?s ''waltmp'' = Some x \<longrightarrow> f_ino x < fs_next ?s"
      using f5(2) sn by simp
    show "\<forall>i. lo \<le> i \<longrightarrow> fl' \<le> i \<longrightarrow> i < w' \<longrightarrow> i div SEG = n" using tail by blast
  qed (use dirs_okD(1,2) [OF ok] w' in simp_all)
qed

definition overwrite :: "nat \<Rightarrow> bytes \<Rightarrow> (nat \<Rightarrow> u8) \<Rightarrow> nat \<Rightarrow> u8" where
  "overwrite w buf c i = (if w \<le> i \<and> i < w + length buf then buf ! (i - w) else c i)"

lemma mod_in_segment: "n * SEG \<le> i \<Longrightarrow> i div SEG = n \<Longrightarrow> i = n * SEG + i mod SEG"
  using div_mult_mod_eq [of i SEG] by simp

lemma segment_range: "n * SEG \<le> i \<Longrightarrow> i < Suc n * SEG \<Longrightarrow> i div SEG = n"
  by (rule div_nat_eqI) (simp_all add: mult.commute)

lemma dirs_ok_write:
  assumes ok: "dirs_ok s n w fl lo c" and f: "fs_file s (partial_name n) = Some f"
    and fits: "w + length buf \<le> Suc n * SEG" and off: "off = w - n * SEG"
  shows "dirs_ok (change_file (partial_name n) (write_at off buf) s) n (w + length buf) fl lo (overwrite w buf c)"
proof (rule dirs_ok_change [OF ok f])
  have len: "length (f_data f) = SEG" using ok f by (simp add: dirs_ok_def)
  have w: "n * SEG \<le> w" "fl \<le> w" using dirs_okD(3,5) [OF ok] by auto
  show "length (f_data (write_at off buf f)) = SEG" using fits off w len by simp
  fix i assume i: "lo \<le> i"
  show "i < w + length buf \<Longrightarrow> i div SEG \<noteq> n \<Longrightarrow> i < w \<and> overwrite w buf c i = c i"
    using segment_range [of n i] fits w by (auto simp: overwrite_def)
  show "i < w + length buf \<Longrightarrow> fl \<le> i \<Longrightarrow> i div SEG = n"
    using segment_range [of n i] fits w dirs_okD(10) [OF ok i] by (cases "i < w") auto
  assume n: "i div SEG = n"
  then have im: "i = n * SEG + i mod SEG" by (metis div_mult_mod_eq)
  have old: "f_data f ! (i mod SEG) = c i" if "i < w"
    using dirs_okD(8) [OF ok i that] f n len by (simp add: dir_byte_def dir_file_cur)
  show "f_data (write_at off buf f) ! (i mod SEG) = overwrite w buf c i" if "i < w + length buf"
  proof (cases "i < w")
    case True
    then have "i mod SEG < off" using im off w by linarith
    then show ?thesis using True old len by (simp add: write_at_nth overwrite_def)
  next
    case False
    then have "off \<le> i mod SEG" "i mod SEG < off + length buf" "i mod SEG - off = i - w"
      using im off w that by linarith+
    then show ?thesis using False that len off fits w
      by (simp add: write_at_nth_new overwrite_def)
  qed
  show "i < fl \<Longrightarrow> i mod SEG < f_synced (write_at off buf f)"
    using dirs_okD(9) [OF ok _ i, of "fs_cur s"] f n im off w
    by (auto simp: dir_synced_def dir_file_cur write_at_def)
qed (use dirs_okD [OF ok] fits in auto)

lemma dirs_ok_sync:
  assumes ok: "dirs_ok s n w fl lo c" and f: "fs_file s (partial_name n) = Some f"
  shows "dirs_ok (change_file (partial_name n) synced s) n w w lo c"
proof (rule dirs_ok_change [OF ok f])
  have len: "length (f_data f) = SEG" using ok f by (simp add: dirs_ok_def)
  then show "length (f_data (synced f)) = SEG" by simp
  fix i assume i: "lo \<le> i"
  show "i < w \<Longrightarrow> i div SEG \<noteq> n \<Longrightarrow> i < fl"
    using dirs_okD(10) [OF ok i] by (cases "fl \<le> i") auto
  assume n: "i div SEG = n"
  show "i < w \<Longrightarrow> f_data (synced f) ! (i mod SEG) = c i"
    using dirs_okD(8) [OF ok i] f n len by (simp add: dir_byte_def dir_file_cur)
  show "i < w \<Longrightarrow> i mod SEG < f_synced (synced f)" using len by simp
qed (use dirs_okD [OF ok] in auto)

lemma dirs_ok_complete:
  assumes ok: "dirs_ok s n w w lo c" and f: "fs_file s (partial_name n) = Some f"
    and w: "w = Suc n * SEG" "seg_ok (Suc n)"
  shows "dirs_ok (change_dir (move_entry (partial_name n) (full_name n) f) s) (Suc n) w w lo c"
proof -
  let ?s = "change_dir (move_entry (partial_name n) (full_name n) f) s"
  have sn: "seg_ok n" using dirs_okD(1) [OF ok] .
  have cur: "dir_file (fs_cur ?s) m = dir_file (fs_cur s) m" if "seg_ok m" for m
    using that sn f by (auto simp: dir_file_def change_dir_def fs_file_def split: option.split)
  have prev: "fs_prev ?s = fs_cur s # fs_prev s" by (simp add: change_dir_def)
  have sg: "seg_ok (i div SEG)" if "i < w" for i by (rule seg_ok_below [OF sn]) (use that w in linarith)
  have fs: "fs_file ?s p = (if p = full_name n then Some f else if p = partial_name n then None else fs_file s p)" for p
    by (simp flip: fs_file_def)
  show ?thesis
    unfolding dirs_ok_def
  proof (intro conjI)
    show "\<forall>i. lo \<le> i \<longrightarrow> i < w \<longrightarrow> dir_byte (fs_cur ?s) i = Some (c i)"
      using dir_byte_cong [OF cur [OF sg]] dirs_okD(8) [OF ok] by metis
    show "\<forall>D \<in> set (fs_cur ?s # fs_prev ?s). \<forall>i. lo \<le> i \<longrightarrow> i < w \<longrightarrow> dir_synced D i (c i)"
      using dir_synced_cong [OF cur [OF sg]] dirs_okD(9) [OF ok] by (auto simp: prev)
    show "\<forall>m. seg_ok m \<longrightarrow> Suc n \<le> m \<longrightarrow> fs_file ?s (full_name m) = None"
      "\<forall>m. seg_ok m \<longrightarrow> Suc n < m \<longrightarrow> fs_file ?s (partial_name m) = None"
      "\<forall>x. fs_file ?s (partial_name (Suc n)) = Some x \<longrightarrow>
        length (f_data x) = SEG \<and> (\<forall>D \<in> set (fs_prev ?s). dir_file D (Suc n) = Some x) \<and>
        (\<forall>D \<in> set (fs_cur ?s # fs_prev ?s). \<forall>m h. seg_ok m \<longrightarrow> m \<noteq> Suc n \<longrightarrow> dir_file D m = Some h \<longrightarrow> f_ino h \<noteq> f_ino x)"
      using dirs_okD(6,7) [OF ok] sn w(2) by (simp_all add: fs del: fs_file_change_dir)
    show "\<forall>m h. seg_ok m \<longrightarrow> dir_file (fs_cur ?s) m = Some h \<longrightarrow> f_ino h < fs_next ?s \<and>
        (\<forall>x. fs_file ?s ''waltmp'' = Some x \<longrightarrow> f_ino x \<noteq> f_ino h)"
      "\<forall>x. fs_file ?s ''waltmp'' = Some x \<longrightarrow> f_ino x < fs_next ?s"
      using ok sn cur by (simp_all add: dirs_ok_def fs del: fs_file_change_dir)
  qed (use dirs_okD(2) [OF ok] w in simp_all)
qed

lemma dirs_ok_create:
  assumes ok: "dirs_ok s n w fl lo c" and none: "fs_file s (partial_name n) = None"
  obtains s' f where "create_segment (partial_name n) wal_seg False s = (Inr (), s')"
    and "dirs_ok s' n w fl lo c" and "fs_file s' (partial_name n) = Some f"
proof -
  have sn: "seg_ok n" using dirs_okD(1) [OF ok] .
  obtain s' i where s': "create_segment (partial_name n) wal_seg False s = (Inr (), s')"
    and io: "fs_io s' = []" and prev: "fs_prev s' = []"
    and fl: "\<And>q. fs_file s' q = (if q = partial_name n
        then Some \<lparr>f_ino = i, f_data = replicate (unat wal_seg) 0, f_synced = unat wal_seg\<rparr>
        else if q = ''waltmp'' then None else fs_file s q)"
    and i: "i = fs_next s \<and> fs_next s' = Suc (fs_next s) \<or>
       (\<exists>f. fs_file s ''waltmp'' = Some f \<and> i = f_ino f) \<and> fs_next s' = fs_next s"
    by (rule create_segment_ok [OF dirs_okD(2) [OF ok] segment_names_distinct(2) [OF sn], where sz = wal_seg])
      (rule that; assumption)
  have gone: "dir_file (fs_cur s) n = None"
    using none dirs_okD(6) [OF ok sn] by (simp add: dir_file_cur)
  have cur: "dir_file (fs_cur s') m = dir_file (fs_cur s) m" if "seg_ok m" "m \<noteq> n" for m
    using that sn by (simp add: dir_file_cur fl split: option.split)
  have ino: "f_ino g < fs_next s' \<and> f_ino g \<noteq> i" if "seg_ok m" "dir_file (fs_cur s) m = Some g" for m g
    using dirs_okD(11,12) [OF ok that] i by (auto simp: less_SucI)
  have lt: "i < fs_next s'" using dirs_okD(13) [OF ok] i by auto
  have sg: "seg_ok (k div SEG)" if "k < w" for k
    by (rule seg_ok_below [OF sn]) (use that dirs_okD(4) [OF ok] in linarith)
  have other: "k div SEG \<noteq> n" if "lo \<le> k" "k < w" for k
    using dirs_okD(8) [OF ok that] gone by (auto simp: dir_byte_def)
  have "dirs_ok s' n w fl lo c"
    unfolding dirs_ok_def
  proof (intro conjI)
    show "\<forall>k. lo \<le> k \<longrightarrow> k < w \<longrightarrow> dir_byte (fs_cur s') k = Some (c k)"
      using dir_byte_cong [OF cur [OF sg other]] dirs_okD(8) [OF ok] by metis
    show "\<forall>D \<in> set (fs_cur s' # fs_prev s'). \<forall>k. lo \<le> k \<longrightarrow> k < fl \<longrightarrow> dir_synced D k (c k)"
      using dir_synced_cong [OF cur [OF sg other]] dirs_okD(5,9) [OF ok] by (auto simp: prev)
    show "\<forall>m. seg_ok m \<longrightarrow> n \<le> m \<longrightarrow> fs_file s' (full_name m) = None"
      "\<forall>m. seg_ok m \<longrightarrow> n < m \<longrightarrow> fs_file s' (partial_name m) = None"
      using dirs_okD(6,7) [OF ok] sn by (simp_all add: fl)
    show "\<forall>x. fs_file s' (partial_name n) = Some x \<longrightarrow>
        length (f_data x) = SEG \<and> (\<forall>D \<in> set (fs_prev s'). dir_file D n = Some x) \<and>
        (\<forall>D \<in> set (fs_cur s' # fs_prev s'). \<forall>m h. seg_ok m \<longrightarrow> m \<noteq> n \<longrightarrow> dir_file D m = Some h \<longrightarrow> f_ino h \<noteq> f_ino x)"
      using ino cur by (auto simp: fl prev)
    show "\<forall>m h. seg_ok m \<longrightarrow> dir_file (fs_cur s') m = Some h \<longrightarrow> f_ino h < fs_next s' \<and>
        (\<forall>x. fs_file s' ''waltmp'' = Some x \<longrightarrow> f_ino x \<noteq> f_ino h)"
    proof (intro allI impI conjI)
      fix m h assume m: "seg_ok m" "dir_file (fs_cur s') m = Some h"
      then show "f_ino h < fs_next s'"
        using ino [of m h] cur [of m] lt by (cases "m = n") (auto simp: dir_file_cur fl)
    qed (use sn in \<open>simp add: fl\<close>)
  qed (use dirs_okD [OF ok] io sn in \<open>auto simp: fl\<close>)
  then show thesis using that s' by (simp add: fl)
qed

section \<open>The storage\<close>

text \<open>
  The storage holds the log \<open>c\<close> from \<open>lo\<close> up to its write position. Segments are of 16 MB, fsync is on,
  and no file system call is going to fail (the script of outcomes in \<open>dirs_ok\<close> is empty).
\<close>

definition stores :: "(nat \<Rightarrow> u8) \<Rightarrow> nat \<Rightarrow> PhysicalStorage \<Rightarrow> bool" where
  "stores c lo st \<longleftrightarrow>
     ps_wal_seg_size st = wal_seg \<and> \<not> ps_no_sync st \<and> write_lsn st \<noteq> 0 \<and>
     dirs_ok (ps_timeline_dir st) (unat (write_lsn st) div SEG) (unat (write_lsn st)) (unat (flush_lsn st)) lo c \<and>
     (\<forall>p pos. wal_file st = Some (p, pos) \<longrightarrow>
        p = partial_name (unat (write_lsn st) div SEG) \<and> pos = unat (write_lsn st) mod SEG \<and>
        fs_file (ps_timeline_dir st) p \<noteq> None)"

lemma storesD:
  assumes "stores c lo st"
  shows "ps_wal_seg_size st = wal_seg" "\<not> ps_no_sync st" "write_lsn st \<noteq> 0"
    and "dirs_ok (ps_timeline_dir st) (unat (write_lsn st) div SEG) (unat (write_lsn st)) (unat (flush_lsn st)) lo c"
    and "wal_file st = Some h \<Longrightarrow>
       h = (partial_name (unat (write_lsn st) div SEG), unat (write_lsn st) mod SEG) \<and>
       fs_file (ps_timeline_dir st) (fst h) \<noteq> None"
  using assms unfolding stores_def by (blast, blast, blast, blast, cases h, simp)

lemma segment_number_word: "segment_number l wal_seg = word_of_nat (unat l div SEG)"
proof -
  have "unat l div SEG < 2 ^ 64" using unat_bounds(4) [of l] by (simp add: div_less_iff_less_mult)
  then have "unat (segment_number l wal_seg) = unat (word_of_nat (unat l div SEG) :: u64)" by (simp add: unat_of_nat)
  then show ?thesis by (simp only: word_unat_eq_iff)
qed

lemma wal_file_paths_names: "wal_file_paths (word_of_nat n) wal_seg = (full_name n, partial_name n)"
  by (simp add: wal_file_paths_def full_name_def partial_name_def Let_def)

lemma segment_handle_ok:
  assumes st: "stores c lo st"
  defines "n \<equiv> unat (write_lsn st) div SEG" and "off \<equiv> unat (write_lsn st) mod SEG"
  obtains d f where "segment_handle (word_of_nat n) off st =
       (Inr (partial_name n, off), st\<lparr>wal_file := None, ps_timeline_dir := d\<rparr>)"
    and "dirs_ok d n (unat (write_lsn st)) (unat (flush_lsn st)) lo c"
    and "fs_file d (partial_name n) = Some f"
proof -
  let ?d = "ps_timeline_dir st"
  note ok = storesD(4) [OF st, folded n_def]
  show thesis
  proof (cases "wal_file st")
    case (Some h)
    then have h: "h = (partial_name n, off)" "fs_file ?d (partial_name n) \<noteq> None"
      using storesD(5) [OF st Some] by (auto simp: n_def off_def)
    then obtain f where f: "fs_file ?d (partial_name n) = Some f" by auto
    have "segment_handle (word_of_nat n) off st = (Inr h, st\<lparr>wal_file := None, ps_timeline_dir := ?d\<rparr>)"
      using Some by (simp add: segment_handle_def take_file_def bindE_def thenE_def getE_def modifyE_def retE_def)
    then show thesis using that [OF _ ok f] h by simp
  next
    case None
    have full: "fs_file ?d (full_name n) = None" using dirs_okD(1,6) [OF ok] by simp
    have io: "fs_io ?d = []" using dirs_okD(2) [OF ok] .
    have eval: "segment_handle (word_of_nat n) off st =
        (Inr (partial_name n, off), st\<lparr>wal_file := None, ps_timeline_dir := d\<rparr>)"
      if "fs_file ?d (partial_name n) \<noteq> None \<and> d = ?d \<or>
          fs_file ?d (partial_name n) = None \<and> create_segment (partial_name n) wal_seg False ?d = (Inr (), d)"
        "fs_io d = []" for d
      using that None full io storesD(1,2) [OF st]
      by (auto simp: segment_handle_def take_file_def open_or_create_def ps_dir_def zoomE_def bindE_def thenE_def getE_def
          modifyE_def retE_def guardE_def wal_file_paths_names io_ok simp del: wal_seg_simps split: if_splits)
    show thesis
    proof (cases "fs_file ?d (partial_name n)")
      case (Some f)
      then show thesis using that [of ?d f] eval [of ?d] ok io by simp
    next
      case None
      then show thesis using dirs_ok_create [OF ok None] that eval dirs_okD(2) by metis
    qed
  qed
qed

lemma write_in_segment_ok:
  assumes st: "stores c lo st" and ne: "buf \<noteq> []"
    and fits: "unat (write_lsn st) mod SEG + length buf \<le> SEG" "unat (write_lsn st) + length buf < 2 ^ 64"
  defines "n \<equiv> unat (write_lsn st) div SEG" and "off \<equiv> unat (write_lsn st) mod SEG"
    and "e \<equiv> unat (write_lsn st) + length buf"
  obtains d where "write_in_segment (word_of_nat n) off buf st =
       (Inr (off + length buf = SEG),
        st\<lparr>wal_file := if off + length buf = SEG then None else Some (partial_name n, off + length buf),
           ps_timeline_dir := d\<rparr>)"
    and "dirs_ok d (e div SEG) e (if off + length buf = SEG then e else unat (flush_lsn st)) lo
       (overwrite (unat (write_lsn st)) buf c)"
    and "off + length buf \<noteq> SEG \<Longrightarrow> e div SEG = n \<and> e mod SEG = off + length buf \<and> fs_file d (partial_name n) \<noteq> None"
proof -
  let ?w = "unat (write_lsn st)" and ?c = "overwrite (unat (write_lsn st)) buf c"
  have w: "?w = n * SEG + off" by (simp add: n_def off_def)
  obtain d f where h: "segment_handle (word_of_nat n) off st =
       (Inr (partial_name n, off), st\<lparr>wal_file := None, ps_timeline_dir := d\<rparr>)"
    and d: "dirs_ok d n ?w (unat (flush_lsn st)) lo c" "fs_file d (partial_name n) = Some f"
    by (rule segment_handle_ok [OF st, folded n_def off_def])
  define d1 where "d1 = change_file (partial_name n) (write_at off buf) d"
  have le: "off + length buf \<le> SEG" using fits(1) by (simp add: off_def)
  have d1: "dirs_ok d1 n e (unat (flush_lsn st)) lo ?c"
    unfolding d1_def e_def by (rule dirs_ok_write [OF d]) (use le w in simp_all)
  have f1: "fs_file d1 (partial_name n) = Some (write_at off buf f)"
    using d(2) by (simp add: d1_def)
  have io: "fs_io d = []" "fs_io d1 = []" using dirs_okD(2) [OF d(1)] dirs_okD(2) [OF d1] .
  note eval = write_in_segment_def bindE_def thenE_def getE_def modifyE_def retE_def ps_dir_def zoomE_def
    h fdatasync_file_def storesD(1,2) [OF st] wal_file_paths_names
  show thesis
  proof (cases "off + length buf = SEG")
    case False
    then have lt: "off + length buf < SEG" using le by simp
    have e: "e div SEG = n" "e mod SEG = off + length buf"
      using lt w by (simp_all add: e_def add.assoc)
    show thesis
    proof (rule that)
      show "write_in_segment (word_of_nat n) off buf st =
       (Inr (off + length buf = SEG),
        st\<lparr>wal_file := if off + length buf = SEG then None else Some (partial_name n, off + length buf),
           ps_timeline_dir := d1\<rparr>)"
        using False io by (simp add: eval io_ok d1_def)
    qed (use False e d1 f1 in simp_all)
  next
    case True
    have e: "e = Suc n * SEG" "e div SEG = Suc n" using True w by (simp_all add: e_def)
    have "seg_ok (Suc n)" using e(1) fits(2) by (simp add: seg_ok_def e_def)
    define d2 where "d2 = change_file (partial_name n) synced d1"
    have d2: "dirs_ok d2 n e e lo ?c" "fs_file d2 (partial_name n) = Some (synced (write_at off buf f))"
      unfolding d2_def using dirs_ok_sync [OF d1 f1] f1 by simp_all
    define d3 where "d3 = change_dir (move_entry (partial_name n) (full_name n) (synced (write_at off buf f))) d2"
    have "dirs_ok d3 (Suc n) e e lo ?c"
      unfolding d3_def by (rule dirs_ok_complete [OF d2 e(1) \<open>seg_ok (Suc n)\<close>])
    moreover have "write_in_segment (word_of_nat n) off buf st = (Inr True, st\<lparr>wal_file := None, ps_timeline_dir := d3\<rparr>)"
      using True io dirs_okD(2) [OF d2(1)] d2(2)
      by (simp add: eval io_ok d1_def [symmetric] d2_def [symmetric] d3_def del: wal_seg_simps(2))
    ultimately show thesis using that [of d3] True e by simp
  qed
qed

lemma lsn_add_ok:
  assumes "unat l + n < 2 ^ 64"
  shows "\<exists>l'. lsn_add l (word_of_nat n) = Inr l' \<and> unat l' = unat l + n"
  using assms by (simp add: lsn_add_def checked_add_def unat_of_nat unat_word_ariths)

lemma write_round_eval:
  fixes buf :: bytes
  assumes sz: "ps_wal_seg_size st = wal_seg"
  defines "off \<equiv> unat (write_lsn st) mod SEG"
  defines "k \<equiv> if SEG < off + length buf then SEG - off else length buf"
  assumes wr: "write_in_segment (word_of_nat (unat (write_lsn st) div SEG)) off (take k buf) st = (Inr b, st1)"
    and w': "lsn_add (write_lsn st) (word_of_nat k) = Inr w'"
  shows "write_round buf st = (Inr k, st1\<lparr>write_lsn := w', flush_lsn := if b then w' else flush_lsn st1\<rparr>)"
proof -
  have "wal_seg \<noteq> 0" by simp
  then have "locate (write_lsn st) st = (Inr (word_of_nat (unat (write_lsn st) div SEG), off), st)"
    using sz segment_number_word [of "write_lsn st"]
    by (simp add: locate_def bindE_def thenE_def getE_def guardE_def retE_def off_def del: wal_seg_simps(2))
  moreover have "(if unat (ps_wal_seg_size st) < off + length buf then unat (ps_wal_seg_size st) - off else length buf) = k"
    using sz by (simp add: k_def)
  ultimately show ?thesis
    using wr w'
    by (simp add: write_round_def bindE_def thenE_def getE_def modifyE_def retE_def liftR_def Let_def)
qed

lemma write_round_ok:
  assumes st: "stores c lo st" and ne: "buf \<noteq> []" and fits: "unat (write_lsn st) + length buf < 2 ^ 64"
  obtains k st' where "write_round buf st = (Inr k, st')" and "0 < k" and "k \<le> length buf"
    and "stores (overwrite (unat (write_lsn st)) (take k buf) c) lo st'"
    and "unat (write_lsn st') = unat (write_lsn st) + k"
    and "pending_wal_truncation st' = pending_wal_truncation st"
proof -
  let ?w = "unat (write_lsn st)"
  define n where "n = ?w div SEG"
  define off where "off = ?w mod SEG"
  define k where "k = (if SEG < off + length buf then SEG - off else length buf)"
  have off: "off < SEG" by (simp add: off_def)
  then have k: "0 < k" "k \<le> length buf" "off + k \<le> SEG" using ne by (auto simp: k_def)
  let ?b = "take k buf"
  have len: "length ?b = k" using k(2) by simp
  have b: "?b \<noteq> []" "?w mod SEG + length ?b \<le> SEG" "?w + length ?b < 2 ^ 64"
    using k ne fits len by (simp_all add: off_def)
  obtain d where wr: "write_in_segment (word_of_nat n) off ?b st =
       (Inr (off + k = SEG),
        st\<lparr>wal_file := if off + k = SEG then None else Some (partial_name n, off + k), ps_timeline_dir := d\<rparr>)"
    and d: "dirs_ok d ((?w + k) div SEG) (?w + k) (if off + k = SEG then ?w + k else unat (flush_lsn st)) lo
       (overwrite ?w ?b c)"
    and fl: "off + k \<noteq> SEG \<Longrightarrow> (?w + k) div SEG = n \<and> (?w + k) mod SEG = off + k \<and> fs_file d (partial_name n) \<noteq> None"
    by (rule write_in_segment_ok [OF st b, folded n_def off_def, unfolded len]) (rule that; blast)
  obtain w' where w': "lsn_add (write_lsn st) (word_of_nat k) = Inr w'" "unat w' = ?w + k"
    using lsn_add_ok [of "write_lsn st" k] fits k by auto
  define st' where "st' = st\<lparr>wal_file := if off + k = SEG then None else Some (partial_name n, off + k),
     ps_timeline_dir := d, write_lsn := w', flush_lsn := if off + k = SEG then w' else flush_lsn st\<rparr>"
  have "write_round buf st = (Inr k, st')"
    using write_round_eval [OF storesD(1) [OF st], of buf, folded n_def off_def, folded k_def, OF wr w'(1)]
    by (simp add: st'_def)
  moreover have "stores (overwrite ?w ?b c) lo st'"
    using d fl storesD(1-3) [OF st] w'(2) k(1) by (auto simp: stores_def st'_def)
  ultimately show thesis using that k w' by (simp add: st'_def)
qed

lemma overwrite_append:
  "overwrite (w + length a) b (overwrite w a c) = overwrite w (a @ b) c"
  by (auto simp: overwrite_def fun_eq_iff nth_append)

lemma overwrite_Nil [simp]: "overwrite w [] c = c"
  by (auto simp: overwrite_def fun_eq_iff)

lemma write_loop_ok:
  assumes "stores c lo st" and "unat (write_lsn st) + length buf < 2 ^ 64"
  shows "\<exists>st'. write_loop buf st = (Inr (), st') \<and> stores (overwrite (unat (write_lsn st)) buf c) lo st' \<and>
     unat (write_lsn st') = unat (write_lsn st) + length buf \<and>
     pending_wal_truncation st' = pending_wal_truncation st"
  using assms
proof (induction "length buf" arbitrary: buf c st rule: less_induct)
  case less
  show ?case
  proof (cases "buf = []")
    case True
    then show ?thesis using less.prems by (simp add: write_loop.simps [of "[]"])
  next
    case False
    obtain k st1 where r: "write_round buf st = (Inr k, st1)" "0 < k" "k \<le> length buf"
      "stores (overwrite (unat (write_lsn st)) (take k buf) c) lo st1"
      "unat (write_lsn st1) = unat (write_lsn st) + k"
      "pending_wal_truncation st1 = pending_wal_truncation st"
      by (rule write_round_ok [OF less.prems(1) False less.prems(2)])
    have len: "length (take k buf) = k" using r(3) by simp
    have "length (drop k buf) < length buf" using r(2) False by simp
    from less.hyps [OF this r(4)] show ?thesis
      using r less.prems(2) overwrite_append [of "unat (write_lsn st)" "take k buf" "drop k buf" c] False len
      by (simp add: write_loop.simps [of buf])
  qed
qed

lemma stores_update [simp]:
  "stores c lo (st\<lparr>write_record_lsn := a\<rparr>) = stores c lo st"
  "stores c lo (st\<lparr>decoder := d\<rparr>) = stores c lo st" "stores c lo (st\<lparr>flush_record_lsn := b\<rparr>) = stores c lo st"
  by (simp_all add: stores_def)

text \<open>What follows the write in \<open>write_wal\<close> touches neither the files nor the positions.\<close>

lemma keeps_decode_written: "keeps (\<lambda>st. stores c lo st \<and> write_lsn st = w \<and> pending_wal_truncation st = b) (decode_written E l buf)"
proof -
  have ex: "\<exists>a b. fold (\<lambda>r. record_written (fst r)) rs st = st\<lparr>write_record_lsn := a, flush_record_lsn := b\<rparr>"
    for rs :: "(lsn \<times> bytes) list" and st
  proof (induction rs arbitrary: st)
    case Nil
    have "st = st\<lparr>write_record_lsn := write_record_lsn st, flush_record_lsn := flush_record_lsn st\<rparr>" by simp
    then show ?case by (metis fold_simps(1))
  next
    case (Cons r rs)
    obtain a b where "fold (\<lambda>r. record_written (fst r)) rs (record_written (fst r) st) =
        (record_written (fst r) st)\<lparr>write_record_lsn := a, flush_record_lsn := b\<rparr>" using Cons by blast
    moreover have "(record_written (fst r) st)\<lparr>write_record_lsn := a, flush_record_lsn := b\<rparr> =
        st\<lparr>write_record_lsn := a, flush_record_lsn := b\<rparr>" by (simp add: record_written_def)
    ultimately show ?case by (metis fold_simps(2))
  qed
  have f: "stores c lo (fold (\<lambda>r. record_written (fst r)) rs st) = stores c lo st \<and>
    write_lsn (fold (\<lambda>r. record_written (fst r)) rs st) = write_lsn st \<and>
    pending_wal_truncation (fold (\<lambda>r. record_written (fst r)) rs st) = pending_wal_truncation st"
    for rs :: "(lsn \<times> bytes) list" and st
    using ex [of rs st] by auto
  show ?thesis
    unfolding decode_written_def restart_decoder_def poll_records_def
    by (intro keeps_intros keeps_modifyE) (auto simp: f)
qed

definition accepted :: "lsn \<Rightarrow> PhysicalStorage \<Rightarrow> bool" where
  "accepted l st \<longleftrightarrow> l = write_lsn st \<and> \<not> pending_wal_truncation st"

lemma write_wal_stores:
  assumes st: "stores c lo st" and fits: "unat l + length buf < 2 ^ 64"
  shows "stores (if accepted l st then overwrite (unat l) buf c else c) lo (snd (write_wal E l buf st))"
    and "accepted l st \<Longrightarrow> unat (write_lsn (snd (write_wal E l buf st))) = unat l + length buf"
proof -
  have ex: "\<exists>st1. write_exact l buf st = (Inr (), st1) \<and> stores (overwrite (unat l) buf c) lo st1 \<and>
      unat (write_lsn st1) = unat l + length buf \<and> pending_wal_truncation st1 = pending_wal_truncation st"
    if "accepted l st"
    using that write_loop_ok [OF st, of buf] fits
    by (simp add: write_exact_def accepted_def bindE_def thenE_def getE_def retE_def)
  have rej: "snd (write_wal E l buf st) = st" if "\<not> accepted l st"
    using that storesD(3) [OF st]
    by (auto simp: write_wal_def accepted_def bindE_def thenE_def getE_def guardE_def failE_def retE_def)
  have acc: "\<exists>st1. stores (overwrite (unat l) buf c) lo st1 \<and> unat (write_lsn st1) = unat l + length buf \<and>
      snd (write_wal E l buf st) = snd (decode_written E l buf st1)" if a: "accepted l st"
    using ex [OF a] a
    by (auto simp: write_wal_def accepted_def bindE_def thenE_def getE_def guardE_def retE_def)
  have dec: "stores c' lo (snd (decode_written E l buf st1)) \<and> write_lsn (snd (decode_written E l buf st1)) = write_lsn st1"
    if "stores c' lo st1" for c' st1
    using keeps_snd [OF keeps_decode_written [of c' lo "write_lsn st1" "pending_wal_truncation st1"], of st1] that by simp
  show "stores (if accepted l st then overwrite (unat l) buf c else c) lo (snd (write_wal E l buf st))"
    using acc dec rej st by (cases "accepted l st") auto
  show "accepted l st \<Longrightarrow> unat (write_lsn (snd (write_wal E l buf st))) = unat l + length buf"
    using acc dec by auto
qed

lemma flush_wal_stores:
  assumes st: "stores c lo st"
  shows "stores c lo (snd (flush_wal st))"
proof (cases "flush_record_lsn st = write_record_lsn st")
  case True
  then show ?thesis using st by (simp add: flush_wal_def bindE_def getE_def retE_def)
next
  case False
  show ?thesis
  proof (cases "wal_file st")
    case None
    then show ?thesis using st False
      by (simp add: flush_wal_def take_file_def bindE_def thenE_def getE_def retE_def modifyE_def failE_def stores_def)
  next
    case (Some h)
    obtain f where h: "h = (partial_name (unat (write_lsn st) div SEG), unat (write_lsn st) mod SEG)"
      and f: "fs_file (ps_timeline_dir st) (partial_name (unat (write_lsn st) div SEG)) = Some f"
      using storesD(5) [OF st Some] by auto
    note ok = storesD(4) [OF st]
    have "snd (flush_wal st) = st\<lparr>ps_timeline_dir := change_file (fst h) synced (ps_timeline_dir st), wal_file := Some h,
        flush_lsn := write_lsn st, flush_record_lsn := write_record_lsn st\<rparr>"
      using False Some storesD(2) [OF st] dirs_okD(2) [OF ok]
      by (simp add: flush_wal_def take_file_def bindE_def thenE_def getE_def retE_def modifyE_def fdatasync_file_def ps_dir_def
          zoomE_def io_ok)
    then show ?thesis using dirs_ok_sync [OF ok f] storesD(1-3) [OF st] h f by (simp add: stores_def)
  qed
qed

section \<open>Sequences of operations\<close>

datatype wal_op = OpWrite lsn bytes | OpFlush

fun op_fits :: "wal_op \<Rightarrow> bool" where
  "op_fits (OpWrite l buf) \<longleftrightarrow> unat l + length buf < 2 ^ 64"
| "op_fits OpFlush \<longleftrightarrow> True"

fun op_step :: "wal_env \<Rightarrow> wal_op \<Rightarrow> PhysicalStorage \<Rightarrow> PhysicalStorage" where
  "op_step E (OpWrite l buf) st = snd (write_wal E l buf st)"
| "op_step E OpFlush st = snd (flush_wal st)"

text \<open>The log as the accepted writes define it.\<close>

fun op_log :: "wal_op \<Rightarrow> PhysicalStorage \<Rightarrow> (nat \<Rightarrow> u8) \<Rightarrow> nat \<Rightarrow> u8" where
  "op_log (OpWrite l buf) st c = (if accepted l st then overwrite (unat l) buf c else c)"
| "op_log OpFlush st c = c"

fun run_ops :: "wal_env \<Rightarrow> wal_op list \<Rightarrow> PhysicalStorage \<times> (nat \<Rightarrow> u8) \<Rightarrow> PhysicalStorage \<times> (nat \<Rightarrow> u8)" where
  "run_ops E [] x = x"
| "run_ops E (p # ps) (st, c) = run_ops E ps (op_step E p st, op_log p st c)"

lemma op_step_stores: "stores c lo st \<Longrightarrow> op_fits p \<Longrightarrow> stores (op_log p st c) lo (op_step E p st)"
  by (cases p) (auto simp: flush_wal_stores dest: write_wal_stores(1))

lemma run_ops_stores:
  assumes "stores c lo st" and "list_all op_fits ps" and "run_ops E ps (st, c) = (st', c')"
  shows "stores c' lo st'"
  using assms
  by (induction ps arbitrary: st c) (auto dest: op_step_stores)

section \<open>Transient open errors\<close>

text \<open>
  The segment being written exists, but opening it fails: the segment is created anew, over the
  existing file.
\<close>

lemma open_or_create_error:
  assumes st: "stores c lo st"
  defines "n \<equiv> unat (write_lsn st) div SEG"
  obtains d i where "open_or_create (word_of_nat n) (st\<lparr>ps_timeline_dir := (ps_timeline_dir st)\<lparr>fs_io := [IoOk, IoFail 0]\<rparr>\<rparr>) =
       (Inr (partial_name n, True), st\<lparr>ps_timeline_dir := d\<rparr>)"
    and "fs_io d = []"
    and "fs_file d (partial_name n) = Some \<lparr>f_ino = i, f_data = replicate SEG 0, f_synced = SEG\<rparr>"
proof -
  let ?d = "ps_timeline_dir st"
  note ok = storesD(4) [OF st, folded n_def]
  have full: "fs_file ?d (full_name n) = None" using dirs_okD(1,6) [OF ok] by simp
  have io: "fs_io (?d\<lparr>fs_io := []\<rparr>) = []" by simp
  obtain d i where cs: "create_segment (partial_name n) wal_seg False (?d\<lparr>fs_io := []\<rparr>) = (Inr (), d)" and "fs_io d = []"
    and fl: "\<And>q. fs_file d q = (if q = partial_name n
        then Some \<lparr>f_ino = i, f_data = replicate (unat wal_seg) 0, f_synced = unat wal_seg\<rparr>
        else if q = ''waltmp'' then None else fs_file (?d\<lparr>fs_io := []\<rparr>) q)"
    by (rule create_segment_ok [OF io segment_names_distinct(2) [OF dirs_okD(1) [OF ok]], where sz = wal_seg])
      (rule that; assumption)
  moreover have "open_or_create (word_of_nat n) (st\<lparr>ps_timeline_dir := (ps_timeline_dir st)\<lparr>fs_io := [IoOk, IoFail 0]\<rparr>\<rparr>) =
       (Inr (partial_name n, True), st\<lparr>ps_timeline_dir := d\<rparr>)"
    using cs full storesD(1,2) [OF st]
    by (simp add: open_or_create_def ps_dir_def zoomE_def bindE_def thenE_def getE_def retE_def wal_file_paths_names
        try_open_def fs_open_def io_step_def failE_def del: wal_seg_simps(2))
  ultimately show thesis using that by simp
qed

lemma write_exact_error:
  assumes st: "stores c lo st" and none: "wal_file st = None" and ne: "buf \<noteq> []"
    and fits: "unat (write_lsn st) mod SEG + length buf < SEG" "unat (write_lsn st) + length buf < 2 ^ 64"
    and i: "i < unat (write_lsn st)" "i div SEG = unat (write_lsn st) div SEG"
  shows "\<exists>st'. write_exact (write_lsn st) buf
       (st\<lparr>ps_timeline_dir := (ps_timeline_dir st)\<lparr>fs_io := [IoOk, IoFail 0]\<rparr>\<rparr>) = (Inr (), st') \<and>
     dir_byte (fs_cur (ps_timeline_dir st')) i = Some 0"
proof -
  let ?w = "unat (write_lsn st)"
  let ?st = "st\<lparr>ps_timeline_dir := (ps_timeline_dir st)\<lparr>fs_io := [IoOk, IoFail 0]\<rparr>\<rparr>"
  define n where "n = ?w div SEG"
  define off where "off = ?w mod SEG"
  obtain d k where oc: "open_or_create (word_of_nat n) ?st = (Inr (partial_name n, True), st\<lparr>ps_timeline_dir := d\<rparr>)"
    and d: "fs_io d = []" "fs_file d (partial_name n) = Some \<lparr>f_ino = k, f_data = replicate SEG 0, f_synced = SEG\<rparr>"
    by (rule open_or_create_error [OF st, folded n_def])
  define d1 where "d1 = change_file (partial_name n) (write_at off buf) d"
  have "?st\<lparr>wal_file := None\<rparr> = ?st" using none by (cases st) simp
  then have oc': "open_or_create (word_of_nat n) (?st\<lparr>wal_file := None\<rparr>) =
      (Inr (partial_name n, True), st\<lparr>ps_timeline_dir := d\<rparr>)" using oc by metis
  have wis: "write_in_segment (word_of_nat n) off buf ?st = (Inr False, st\<lparr>ps_timeline_dir := d1, wal_file := Some (partial_name n, off + length buf)\<rparr>)"
    using oc' d none fits storesD(1) [OF st]
    by (simp add: write_in_segment_def segment_handle_def take_file_def bindE_def thenE_def getE_def modifyE_def
        guardE_def ps_dir_def zoomE_def io_ok d1_def off_def)
  obtain w' where w': "lsn_add (write_lsn st) (word_of_nat (length buf)) = Inr w'"
    using lsn_add_ok [of "write_lsn st" "length buf"] fits by auto
  have round: "write_round buf ?st = (Inr (length buf), st\<lparr>ps_timeline_dir := d1,
      wal_file := Some (partial_name n, off + length buf), write_lsn := w'\<rparr>)"
    using write_round_eval [of ?st buf False _ w'] storesD(1) [OF st] wis w' fits by (simp add: n_def off_def)
  have "dir_byte (fs_cur d1) i = Some 0"
  proof -
    have "i mod SEG < off" 
      using i div_mult_mod_eq [of i SEG] div_mult_mod_eq [of ?w SEG] unfolding off_def by linarith
    then show ?thesis
      using d i by (simp add: d1_def dir_byte_def dir_file_cur n_def write_at_nth)
  qed
  then show ?thesis
    using round ne by (simp add: write_exact_def bindE_def thenE_def getE_def retE_def write_loop.simps [of buf] write_loop.simps [of "[]"])
qed

section \<open>A sample log\<close>

text \<open>Eight bytes of segment 1, written and flushed.\<close>

definition sample_segment :: fnode where
  "sample_segment = \<lparr>f_ino = 0, f_data = replicate 8 7 @ replicate (SEG - 8) 0, f_synced = SEG\<rparr>"

definition sample_log :: PhysicalStorage where
  "sample_log =
     \<lparr>ps_timeline_dir = \<lparr>fs_cur = [(partial_name 1, sample_segment)], fs_prev = [], fs_next = 1, fs_io = []\<rparr>,
      ps_no_sync = False, ps_wal_seg_size = wal_seg, ps_pg_version = 170000, ps_system_id = 7,
      write_lsn = 0x1000008, write_record_lsn = 0x1000008, flush_lsn = 0x1000008,
      flush_record_lsn = 0x1000008, decoder = decoder_new 0x1000008 PG17, wal_file = None,
      pending_wal_truncation = False\<rparr>"

text \<open>The same bytes when only four of them have been flushed.\<close>

definition sample_tail :: PhysicalStorage where
  "sample_tail = sample_log
     \<lparr>ps_timeline_dir := \<lparr>fs_cur = [(partial_name 1, sample_segment\<lparr>f_synced := 4\<rparr>)], fs_prev = [], fs_next = 1, fs_io = []\<rparr>,
      flush_lsn := 0x1000004, flush_record_lsn := 0x1000004, wal_file := Some (partial_name 1, 8)\<rparr>"

lemma sample_dirs:
  assumes "k \<le> 8" and "k \<le> y"
  shows "dirs_ok \<lparr>fs_cur = [(partial_name 1, sample_segment\<lparr>f_synced := y\<rparr>)], fs_prev = [], fs_next = 1, fs_io = []\<rparr>
     1 (SEG + 8) (SEG + k) SEG (\<lambda>_. 7)"
proof -
  let ?D = "[(partial_name 1, sample_segment\<lparr>f_synced := y\<rparr>)]"
  have s1: "seg_ok 1" by (simp add: seg_ok_def)
  have D: "map_of ?D p = (if p = partial_name 1 then Some (sample_segment\<lparr>f_synced := y\<rparr>) else None)" for p by simp
  have df: "dir_file ?D m = (if m = 1 then Some (sample_segment\<lparr>f_synced := y\<rparr>) else None)" if "seg_ok m" for m
    using that s1 by (simp add: dir_file_def)
  have i: "i div SEG = 1 \<and> i mod SEG = i - SEG" if "SEG \<le> i" "i < SEG + 8" for i
  proof -
    have "i div SEG = 1" using segment_range [of 1 i] that by simp
    then show ?thesis using div_mult_mod_eq [of i SEG] by simp
  qed
  have b: "dir_byte ?D i = Some 7" if "SEG \<le> i" "i < SEG + 8" for i
    using i [OF that] that df [OF s1] by (simp add: dir_byte_def sample_segment_def nth_append)
  have "dir_synced ?D i 7" if "SEG \<le> i" "i < SEG + k" for i
    using i [of i] b [of i] that df [OF s1] assms by (simp add: dir_synced_def)
  then show ?thesis
    unfolding dirs_ok_def fs_file_def fs.simps D
    using s1 b i df assms by (auto simp: sample_segment_def)
qed

lemma sample_log_stores: "stores (\<lambda>_. 7) SEG sample_log"
proof -
  have "sample_segment\<lparr>f_synced := SEG\<rparr> = sample_segment" by (simp add: sample_segment_def)
  then show ?thesis using sample_dirs [of 8 SEG] by (simp add: stores_def sample_log_def)
qed

lemma sample_tail_stores: "stores (\<lambda>_. 7) SEG sample_tail"
  using sample_dirs [of 4 4] by (simp add: stores_def sample_tail_def sample_log_def fs_file_def)

lemma sample_tail_flushed: "run_ops sample_env [OpFlush] (sample_tail, c) = (snd (flush_wal sample_tail), c)"
  "flush_lsn (snd (flush_wal sample_tail)) = 0x1000008"
  by (simp_all add: flush_wal_def take_file_def bindE_def thenE_def getE_def retE_def modifyE_def fdatasync_file_def ps_dir_def
      zoomE_def io_ok sample_tail_def sample_log_def)

section \<open>Properties\<close>

text \<open>C16: As long as the file system calls succeed, the segment files hold the log: after any
  sequence of \<open>write_wal\<close> and \<open>flush_wal\<close> calls, accepted or refused, whether or not the
  bytes form valid records, the byte a reader finds at any position below the write position is
  the one the accepted writes put there, across segment boundaries and segment completion.\<close>

theorem wal_bytes_written:
  assumes "stores c lo st" and "list_all op_fits ps" and "run_ops E ps (st, c) = (st', c')"
    and "lo \<le> i" and "i < unat (write_lsn st')"
  shows "dir_byte (fs_cur (ps_timeline_dir st')) i = Some (c' i)"
  using dirs_okD(8) [OF storesD(4) [OF run_ops_stores [OF assms(1-3)]] assms(4,5)] .

theorem wal_bytes_written_witness:
  "dir_byte (fs_cur (ps_timeline_dir (fst (run_ops sample_env [OpWrite 0x1000008 [1, 2, 3]] (sample_log, \<lambda>_. 7))))) 0x1000009 =
     Some (snd (run_ops sample_env [OpWrite 0x1000008 [1, 2, 3]] (sample_log, \<lambda>_. 7)) 0x1000009)"
proof (rule wal_bytes_written [OF sample_log_stores])
  show "list_all op_fits [OpWrite 0x1000008 [1, 2, 3]]" by simp
  show "run_ops sample_env [OpWrite 0x1000008 [1, 2, 3]] (sample_log, \<lambda>_. 7) =
     (fst (run_ops sample_env [OpWrite 0x1000008 [1, 2, 3]] (sample_log, \<lambda>_. 7)),
      snd (run_ops sample_env [OpWrite 0x1000008 [1, 2, 3]] (sample_log, \<lambda>_. 7)))" by simp
  have "accepted 0x1000008 sample_log" by (simp add: accepted_def sample_log_def)
  from write_wal_stores(2) [OF sample_log_stores _ this, of "[1, 2, 3]" sample_env]
  show "0x1000009 < unat (write_lsn (fst (run_ops sample_env [OpWrite 0x1000008 [1, 2, 3]] (sample_log, \<lambda>_. 7))))"
    by simp
qed simp

text \<open>C17: What is flushed is durable as long as the file system calls succeed, with fsync on: after any
  sequence of \<open>write_wal\<close> and \<open>flush_wal\<close> calls none of which meets an I/O error, and a crash that
  loses any of the changes not yet synced, a reader of what is left finds every byte of the log
  below the flushed position, in the partial or the completed segment file.\<close>

theorem flushed_wal_survives:
  assumes "stores c lo st" and "list_all op_fits ps" and "run_ops E ps (st, c) = (st', c')"
    and "crash_of (ps_timeline_dir st') d" and "lo \<le> i" and "i < unat (flush_lsn st')"
  shows "dir_byte (fs_cur d) i = Some (c' i)"
proof -
  obtain D where "D \<in> set (fs_cur (ps_timeline_dir st') # fs_prev (ps_timeline_dir st'))"
    and "\<And>p. rel_option survives (map_of D p) (fs_file d p)"
    using assms(4) by (auto simp: crash_of_def)
  then show ?thesis
    using dir_synced_survives dirs_okD(9) [OF storesD(4) [OF run_ops_stores [OF assms(1-3)]] _ assms(5,6)] by blast
qed

theorem flushed_wal_survives_witness:
  "{dir_byte (fs_cur d) 0x1000007 | d. crash_of (ps_timeline_dir (snd (flush_wal sample_tail))) d} \<subseteq> {Some 7} \<and>
   Some 0 \<in> {dir_byte (fs_cur d) 0x1000007 | d. crash_of (ps_timeline_dir sample_tail) d}"
proof
  show "{dir_byte (fs_cur d) 0x1000007 | d. crash_of (ps_timeline_dir (snd (flush_wal sample_tail))) d} \<subseteq> {Some 7}"
    using flushed_wal_survives [OF sample_tail_stores _ sample_tail_flushed(1), of _ "0x1000007"] sample_tail_flushed(2) by auto
  let ?d = "\<lparr>fs_cur = [(partial_name 1, \<lparr>f_ino = 0, f_data = replicate 4 7 @ replicate (SEG - 4) 0, f_synced = SEG\<rparr>)],
      fs_prev = [], fs_next = 1, fs_io = []\<rparr>"
  have "crash_of (ps_timeline_dir sample_tail) ?d"
    by (auto simp: crash_of_def sample_tail_def sample_segment_def fs_file_def survives_def)
  moreover have "dir_byte (fs_cur ?d) 0x1000007 = Some 0"
    by (simp add: dir_byte_def dir_file_def nth_append)
  ultimately show "Some 0 \<in> {dir_byte (fs_cur d) 0x1000007 | d. crash_of (ps_timeline_dir sample_tail) d}" by force
qed

text \<open>C18: An error when opening the segment being written is taken for its absence: if that one
  call fails and all others succeed, the write reports success, but the segment has been created
  anew and the bytes before the write position, flushed or not, have become zero.\<close>

theorem open_error_loses_flushed_wal:
  assumes "stores c lo st" and "wal_file st = None" and "buf \<noteq> []"
    and "unat (write_lsn st) mod SEG + length buf < SEG" and "unat (write_lsn st) + length buf < 2 ^ 64"
    and "lo \<le> i" and "i < unat (flush_lsn st)" and "i div SEG = unat (write_lsn st) div SEG"
  shows "dir_byte (fs_cur (ps_timeline_dir st)) i = Some (c i) \<and>
    (\<exists>st'. write_exact (write_lsn st) buf
       (st\<lparr>ps_timeline_dir := (ps_timeline_dir st)\<lparr>fs_io := [IoOk, IoFail 0]\<rparr>\<rparr>) = (Inr (), st') \<and>
     dir_byte (fs_cur (ps_timeline_dir st')) i = Some 0)"
proof -
  note ok = storesD(4) [OF assms(1)]
  have "i < unat (write_lsn st)" using assms(7) dirs_okD(5) [OF ok] by simp
  then show ?thesis
    using dirs_okD(8) [OF ok assms(6)] write_exact_error [OF assms(1-5) _ assms(8)] by blast
qed

theorem open_error_loses_flushed_wal_witness:
  "dir_byte (fs_cur (ps_timeline_dir sample_log)) 0x1000000 = Some 7 \<and>
   (\<exists>st'. write_exact (write_lsn sample_log) [1, 2, 3]
      (sample_log\<lparr>ps_timeline_dir := (ps_timeline_dir sample_log)\<lparr>fs_io := [IoOk, IoFail 0]\<rparr>\<rparr>) = (Inr (), st') \<and>
    dir_byte (fs_cur (ps_timeline_dir st')) 0x1000000 = Some 0)"
  by (rule open_error_loses_flushed_wal [OF sample_log_stores]) (simp_all add: sample_log_def)

end
