(* ===== verification/Wal_Reader.thy ===== *)
theory Wal_Reader
  imports Wal_Data
begin

text \<open>
  Reading WAL back (\<open>WalReader\<close> of \<open>safekeeper/src/wal_storage.rs\<close>): local segment files,
  segments in remote storage, and the generated bytes before the start of the timeline. What is
  read is the log the storage wrote.
\<close>

section \<open>The reader\<close>

text \<open>
  An open stream of a segment: a local file with the read position, or what is left of a remote
  object. A local file is followed through renames; a removed file keeps its last contents.
\<close>

datatype seg_stream = LocalSeg fnode nat | RemoteSeg bytes

text \<open>Remote storage, if configured: the object's bytes from an offset on.\<close>

type_synonym remote = "(path \<Rightarrow> nat \<Rightarrow> bytes res) option"

record WalReader =
  wr_timeline_dir :: fs
  wr_wal_seg_size :: u64
  wr_pos :: lsn
  wr_wal_segment :: "seg_stream option"
  wr_local_start_lsn :: lsn
  wr_timeline_start_lsn :: lsn
  wr_pg_version :: PgMajorVersion
  wr_system_id :: u64
  wr_timeline_start_segment :: "bytes option"

definition wr_dir :: "(fs, 'a) prog \<Rightarrow> (WalReader, 'a) prog" where
  "wr_dir = zoomE wr_timeline_dir (\<lambda>d r. r\<lparr>wr_timeline_dir := d\<rparr>)"

definition reader_new :: "fs \<Rightarrow> TimelinePersistentState \<Rightarrow> lsn \<Rightarrow> WalReader res" where
  "reader_new dir st start_pos =
     (if wal_seg_size (server st) = 0 \<or> local_start_lsn st = 0
      then Inl (Bail ''state uninitialized, no data to read'')
      else if start_pos < segment_lsn (timeline_start_lsn st) (ucast (wal_seg_size (server st)))
      then Inl (Bail ''Requested streaming from before the start of the timeline'')
      else map_res (\<lambda>version.
             \<lparr>wr_timeline_dir = dir, wr_wal_seg_size = ucast (wal_seg_size (server st)), wr_pos = start_pos,
              wr_wal_segment = None, wr_local_start_lsn = local_start_lsn st,
              wr_timeline_start_lsn = timeline_start_lsn st, wr_pg_version = version,
              wr_system_id = system_id (server st), wr_timeline_start_segment = None\<rparr>)
           (major_version (pg_version (server st))))"

text \<open>The file and whether it is \<open>.partial\<close>; an error opening the latter counts as absence.\<close>

definition open_wal_file :: "u64 \<Rightarrow> u64 \<Rightarrow> (fs, (fnode \<times> bool) option) prog" where
  "open_wal_file segno sz =
     (case wal_file_paths segno sz of (full, partial) \<Rightarrow>
        bindE (getE (\<lambda>s. fs_file s partial)) (\<lambda>fo.
        bindE (try_open partial) (\<lambda>found. case (if found then fo else None) of
          Some f \<Rightarrow> retE (Some (f, True))
        | None \<Rightarrow> bindE (fs_open full) (\<lambda>go. retE (map_option (\<lambda>f. (f, False)) go)))))"

definition open_segment :: "remote \<Rightarrow> (WalReader, seg_stream) prog" where
  "open_segment R =
     bindE (getE id) (\<lambda>r.
     let sz = wr_wal_seg_size r; xlogoff = unat (segment_offset (wr_pos r) sz);
         segno = segment_number (wr_pos r) sz; wal_file_name = XLogFileName PG_TLI segno (unat sz)
     in bindE (if wr_local_start_lsn r \<le> wr_pos r
               then bindE (wr_dir (open_wal_file segno sz)) (\<lambda>res. case res of
                      Some (f, _) \<Rightarrow> thenE (wr_dir fs_nop) (retE (Some (LocalSeg f xlogoff)))
                    | None \<Rightarrow> retE None)
               else retE None) (\<lambda>local. case local of
          Some s \<Rightarrow> retE s
        | None \<Rightarrow> (case R of
             Some storage \<Rightarrow> bindE (liftR (storage wal_file_name xlogoff)) (\<lambda>b. retE (RemoteSeg b))
           | None \<Rightarrow> failE (Bail ''WAL segment is not found''))))"

definition current_file :: "fs \<Rightarrow> fnode \<Rightarrow> fnode" where
  "current_file s f = (case find (\<lambda>(_, g). f_ino g = f_ino f) (fs_cur s) of Some (_, g) \<Rightarrow> g | None \<Rightarrow> f)"

text \<open>\<open>read_exact\<close>: all the bytes asked for, or an error.\<close>

fun read_stream :: "seg_stream \<Rightarrow> nat \<Rightarrow> (fs, bytes \<times> seg_stream) prog" where
  "read_stream (LocalSeg f off) n =
     thenE fs_nop (bindE (getE (\<lambda>s. take n (drop off (f_data (current_file s f))))) (\<lambda>b.
     thenE (guardE (length b = n) IoError) (retE (b, LocalSeg f (off + n)))))"
| "read_stream (RemoteSeg rest) n =
     (if length rest < n then failE IoError else retE (take n rest, RemoteSeg (drop n rest)))"

text \<open>
  The bytes before the start of the timeline, from a generated segment that is kept while it is
  needed. The \<open>debug_assert\<close>s on the segment number and the offsets are off, as in a release build;
  slicing out of range panics.
\<close>

definition read_generated :: "wal_env \<Rightarrow> nat \<Rightarrow> (WalReader, bytes) prog" where
  "read_generated E n =
     bindE (getE id) (\<lambda>r.
     let sz = wr_wal_seg_size r; tl = wr_timeline_start_lsn r in
     bindE (case wr_timeline_start_segment r of
               Some seg \<Rightarrow> retE seg
             | None \<Rightarrow> liftR (generate_wal_segment E (wr_pg_version r) (segment_number tl sz) (wr_system_id r) tl))
       (\<lambda>segment.
        let pos_off = segment_offset (wr_pos r) sz; tl_off = segment_offset tl sz;
            len = min (unat (tl_off - pos_off)) n
        in thenE (guardE (unat pos_off + len \<le> length segment) (Panic ''range end index out of range for slice''))
           (bindE (liftR (lsn_add (wr_pos r) (word_of_nat len))) (\<lambda>pos'.
            thenE (modifyE (\<lambda>r. r\<lparr>wr_pos := pos',
                     wr_timeline_start_segment := if pos' < tl then Some segment else None\<rparr>))
            (retE (take len (drop (unat pos_off) segment)))))))"

definition read_segment :: "remote \<Rightarrow> nat \<Rightarrow> (WalReader, bytes) prog" where
  "read_segment R n =
     bindE (getE wr_wal_segment) (\<lambda>so.
     thenE (modifyE (\<lambda>r. r\<lparr>wr_wal_segment := None\<rparr>))
     (bindE (case so of Some s \<Rightarrow> retE s | None \<Rightarrow> open_segment R) (\<lambda>wal_segment.
      bindE (getE id) (\<lambda>r.
      let sz = wr_wal_seg_size r; send_size = min n (unat sz - unat (segment_offset (wr_pos r) sz)) in
      bindE (wr_dir (read_stream wal_segment send_size)) (\<lambda>(b, wal_segment').
      bindE (liftR (lsn_add (wr_pos r) (word_of_nat send_size))) (\<lambda>pos'.
      thenE (modifyE (\<lambda>r. r\<lparr>wr_pos := pos',
               wr_wal_segment := if segment_offset pos' sz \<noteq> 0 then Some wal_segment' else None\<rparr>))
      (retE b)))))))"

text \<open>\<open>WalReader::read\<close> into a buffer of \<open>n\<close> bytes; returns the bytes read.\<close>

definition reader_read :: "wal_env \<Rightarrow> remote \<Rightarrow> nat \<Rightarrow> (WalReader, bytes) prog" where
  "reader_read E R n =
     bindE (getE (\<lambda>r. wr_pos r < wr_timeline_start_lsn r)) (\<lambda>before.
     if before then read_generated E n else read_segment R n)"

section \<open>Reading the log\<close>

definition own_inodes :: "fs \<Rightarrow> bool" where
  "own_inodes s \<longleftrightarrow> distinct (map (\<lambda>(_, f). f_ino f) (fs_cur s))"

lemma current_file_of_entry:
  assumes "own_inodes s" and "fs_file s p = Some g" and "f_ino f = f_ino g"
  shows "current_file s f = g"
proof -
  have "find (\<lambda>(_, g'). f_ino g' = f_ino g) d = Some (p, g)"
    if "distinct (map (\<lambda>(_, f). f_ino f) d)" "(p, g) \<in> set d" for d :: dir
    using that by (induction d) (auto simp: rev_image_eqI)
  moreover have "(p, g) \<in> set (fs_cur s)" using assms(2) by (simp add: fs_file_def map_of_SomeD)
  ultimately show ?thesis using assms(1,3) by (simp add: current_file_def own_inodes_def)
qed

text \<open>A reader positioned in the local part of a log, on the directory the storage writes.\<close>

definition reads_from :: "(nat \<Rightarrow> u8) \<Rightarrow> nat \<Rightarrow> PhysicalStorage \<Rightarrow> WalReader \<Rightarrow> bool" where
  "reads_from c lo st r \<longleftrightarrow>
     stores c lo st \<and> wr_timeline_dir r = ps_timeline_dir st \<and> own_inodes (wr_timeline_dir r) \<and>
     wr_wal_seg_size r = wal_seg \<and> lo \<le> unat (wr_pos r) \<and>
     wr_local_start_lsn r \<le> wr_pos r \<and> wr_timeline_start_lsn r \<le> wr_pos r \<and>
     (\<forall>s. wr_wal_segment r = Some s \<longrightarrow>
        (\<exists>f. s = LocalSeg f (unat (wr_pos r) mod SEG) \<and>
             dir_file (fs_cur (wr_timeline_dir r)) (unat (wr_pos r) div SEG) = Some f))"

lemma dir_file_entry: "dir_file (fs_cur s) n = Some f \<Longrightarrow> \<exists>p. fs_file s p = Some f"
  by (auto simp: dir_file_cur split: option.splits)

lemma stored_range:
  assumes "\<And>i. p \<le> i \<Longrightarrow> i < p + k \<Longrightarrow> dir_byte D i = Some (c i)" and "p mod SEG + k \<le> SEG"
    and "dir_file D (p div SEG) = Some f"
  shows "take k (drop (p mod SEG) (f_data f)) = map c [p..<p + k]"
proof -
  have seg: "i div SEG = p div SEG \<and> i mod SEG = p mod SEG + (i - p)" if "p \<le> i" "i < p + k" for i
  proof -
    have "i = (p div SEG) * SEG + (p mod SEG + (i - p))" using that div_mult_mod_eq [of p SEG] by simp
    moreover have "p mod SEG + (i - p) < SEG" using that assms(2) by linarith
    moreover have "(q * SEG + x) div SEG = q \<and> (q * SEG + x) mod SEG = x" if "x < SEG" for q x :: nat
      using that by simp
    ultimately show ?thesis by metis
  qed
  have b: "p mod SEG + j < length (f_data f) \<and> f_data f ! (p mod SEG + j) = c (p + j)" if "j < k" for j
    using assms(1) [of "p + j"] seg [of "p + j"] assms(3) that
    by (simp add: dir_byte_def split: if_splits)
  show ?thesis
  proof (rule nth_equalityI)
    show "length (take k (drop (p mod SEG) (f_data f))) = length (map c [p..<p + k])"
      using b [of "k - 1"] by (cases k) auto
  qed (use b in auto)
qed

lemma open_segment_ok:
  assumes rf: "reads_from c lo st r" and lt: "unat (wr_pos r) < unat (write_lsn st)" and none: "wr_wal_segment r = None"
  shows "\<exists>f. open_segment R r = (Inr (LocalSeg f (unat (wr_pos r) mod SEG)), r) \<and>
     dir_file (fs_cur (wr_timeline_dir r)) (unat (wr_pos r) div SEG) = Some f"
proof -
  let ?p = "unat (wr_pos r)" and ?d = "wr_timeline_dir r"
  have st: "stores c lo st" and d: "?d = ps_timeline_dir st" and lo: "lo \<le> ?p"
    using rf by (simp_all add: reads_from_def)
  have io: "fs_io ?d = []" using dirs_okD(2) [OF storesD(4) [OF st]] d by simp
  have "dir_byte (fs_cur ?d) ?p = Some (c ?p)" using dirs_okD(8) [OF storesD(4) [OF st] lo lt] d by simp
  then obtain f where f: "dir_file (fs_cur ?d) (?p div SEG) = Some f" by (auto simp: dir_byte_def split: option.splits)
  have "open_wal_file (segment_number (wr_pos r) wal_seg) wal_seg ?d = (Inr (Some (f, fs_file ?d (partial_name (?p div SEG)) \<noteq> None)), ?d)"
    using f io unfolding segment_number_word open_wal_file_def wal_file_paths_names
    by (auto simp: bindE_def getE_def retE_def io_ok dir_file_cur split: option.splits)
  then show ?thesis
    using f rf io
    by (simp add: open_segment_def bindE_def thenE_def getE_def retE_def wr_dir_def zoomE_def reads_from_def Let_def io_ok
        del: wal_seg_simps(2))
qed

lemma reader_read_ok:
  assumes rf: "reads_from c lo st r" and n: "0 < n" "unat (wr_pos r) + n \<le> unat (write_lsn st)"
  defines "k \<equiv> min n (SEG - unat (wr_pos r) mod SEG)"
  shows "\<exists>r'. reader_read E R n r = (Inr (map c [unat (wr_pos r)..<unat (wr_pos r) + k]), r') \<and>
     reads_from c lo st r' \<and> unat (wr_pos r') = unat (wr_pos r) + k"
proof -
  let ?p = "unat (wr_pos r)" and ?d = "wr_timeline_dir r"
  have st: "stores c lo st" and d: "?d = ps_timeline_dir st" "own_inodes ?d" and lo: "lo \<le> ?p"
    and sz: "wr_wal_seg_size r = wal_seg" and tl: "\<not> wr_pos r < wr_timeline_start_lsn r"
    using rf unfolding reads_from_def by (blast, blast, blast, blast, blast, simp add: not_less)
  have io: "fs_io ?d = []" using dirs_okD(2) [OF storesD(4) [OF st]] d by simp
  have lt: "?p < unat (write_lsn st)" using n by simp
  have k: "0 < k" "k \<le> n" "?p mod SEG + k \<le> SEG" using n(1) by (auto simp: k_def)
  define r1 where "r1 = r\<lparr>wr_wal_segment := None\<rparr>"
  have r1f: "wr_wal_seg_size r1 = wal_seg" "wr_pos r1 = wr_pos r" "wr_timeline_dir r1 = ?d"
    using sz by (simp_all add: r1_def)
  have rf1: "reads_from c lo st r1" using rf by (auto simp: reads_from_def r1_def)
  obtain f where f: "(case wr_wal_segment r of Some s \<Rightarrow> retE s | None \<Rightarrow> open_segment R) r1 =
       (Inr (LocalSeg f (?p mod SEG)), r1)"
    and df: "dir_file (fs_cur ?d) (?p div SEG) = Some f"
  proof (cases "wr_wal_segment r")
    case None
    then show thesis using open_segment_ok [OF rf1 _] lt that by (auto simp: r1_def)
  next
    case (Some s)
    then show thesis using rf that by (auto simp: reads_from_def retE_def)
  qed
  have cur: "current_file ?d f = f" using dir_file_entry [OF df] current_file_of_entry [OF d(2)] by blast
  have bytes: "take k (drop (?p mod SEG) (f_data f)) = map c [?p..<?p + k]"
    using dirs_okD(8) [OF storesD(4) [OF st]] lo k n(2) d(1) by (intro stored_range [OF _ k(3) df]) auto
  have len: "min (length (f_data f) - ?p mod SEG) k = k" using arg_cong [OF bytes, of length] by simp
  have rd: "read_stream (LocalSeg f (?p mod SEG)) k ?d = (Inr (map c [?p..<?p + k], LocalSeg f (?p mod SEG + k)), ?d)"
    using io cur bytes len by (simp add: bindE_def thenE_def getE_def guardE_def retE_def io_ok)
  obtain pos' where pos': "lsn_add (wr_pos r) (word_of_nat k) = Inr pos'" "unat pos' = ?p + k"
    using lsn_add_ok [of "wr_pos r" k] k n(2) unat_bounds(4) [of "write_lsn st"] by auto
  define r' where "r' = r1\<lparr>wr_pos := pos', wr_wal_segment := if segment_offset pos' wal_seg \<noteq> 0
     then Some (LocalSeg f (?p mod SEG + k)) else None\<rparr>"
  have "reader_read E R n r = (Inr (map c [?p..<?p + k]), r')"
    using f rd pos'(1) r1f tl
    by (simp add: reader_read_def read_segment_def bindE_def thenE_def getE_def modifyE_def retE_def liftR_def wr_dir_def zoomE_def
       Let_def r1_def [symmetric] k_def [symmetric] r'_def del: read_stream.simps wal_seg_simps(2))
  moreover have "reads_from c lo st r'"
  proof -
    have e: "?p + k = ?p div SEG * SEG + (?p mod SEG + k)" using div_mult_mod_eq [of ?p SEG] by simp
    have seg: "(?p + k) div SEG = ?p div SEG \<and> (?p + k) mod SEG = ?p mod SEG + k" if "(?p + k) mod SEG \<noteq> 0"
    proof -
      have "?p mod SEG + k \<noteq> SEG"
      proof
        assume "?p mod SEG + k = SEG"
        then have "?p + k = ?p div SEG * SEG + SEG" using e by metis
        moreover have "(q * SEG + SEG) mod SEG = 0" for q :: nat by simp
        ultimately show False using that by metis
      qed
      then have "?p mod SEG + k < SEG" using k(3) by simp
      moreover have "(q * SEG + x) div SEG = q \<and> (q * SEG + x) mod SEG = x" if "x < SEG" for q x :: nat
        using that by simp
      ultimately show ?thesis using e by metis
    qed
    have "wr_pos r \<le> pos'" using pos'(2) by (simp add: word_le_nat_alt)
    moreover have "unat (segment_offset pos' wal_seg) = (?p + k) mod SEG" using pos'(2) by simp
    ultimately show ?thesis
      using rf df pos'(2) seg unat_eq_zero [of "segment_offset pos' wal_seg"]
      by (auto simp: reads_from_def r'_def r1_def)
  qed
  ultimately show ?thesis using pos'(2) by (auto simp: r'_def)
qed

fun reader_reads :: "wal_env \<Rightarrow> remote \<Rightarrow> nat list \<Rightarrow> (WalReader, bytes) prog" where
  "reader_reads E R [] = retE []"
| "reader_reads E R (n # ns) =
     bindE (reader_read E R n) (\<lambda>b. bindE (reader_reads E R ns) (\<lambda>bs. retE (b @ bs)))"

lemma reader_reads_ok:
  assumes "reads_from c lo st r" and "list_all ((<) 0) ns" and "unat (wr_pos r) + sum_list ns \<le> unat (write_lsn st)"
  shows "\<exists>r'. reader_reads E R ns r = (Inr (map c [unat (wr_pos r)..<unat (wr_pos r')]), r') \<and>
     reads_from c lo st r' \<and> unat (wr_pos r) + length ns \<le> unat (wr_pos r') \<and>
     unat (wr_pos r') \<le> unat (wr_pos r) + sum_list ns"
  using assms
proof (induction ns arbitrary: r)
  case (Cons n ns)
  let ?p = "unat (wr_pos r)" and ?k = "min n (SEG - unat (wr_pos r) mod SEG)"
  obtain r1 where r1: "reader_read E R n r = (Inr (map c [?p..<?p + ?k]), r1)" "reads_from c lo st r1"
      "unat (wr_pos r1) = ?p + ?k"
    using reader_read_ok [OF Cons.prems(1), of n E R] Cons.prems(2,3) by auto
  have k: "1 \<le> ?k" "?k \<le> n" using Cons.prems(2) by (auto simp: Suc_le_eq)
  obtain r' where r': "reader_reads E R ns r1 = (Inr (map c [?p + ?k..<unat (wr_pos r')]), r')" "reads_from c lo st r'"
      "?p + ?k + length ns \<le> unat (wr_pos r')" "unat (wr_pos r') \<le> ?p + ?k + sum_list ns"
  proof -
    have "list_all ((<) 0) ns" "unat (wr_pos r1) + sum_list ns \<le> unat (write_lsn st)"
      using Cons.prems(2,3) r1(3) k(2) by simp_all
    from Cons.IH [OF r1(2) this] show thesis using that unfolding r1(3) by blast
  qed
  have "[?p..<?p + ?k] @ [?p + ?k..<unat (wr_pos r')] = [?p..<unat (wr_pos r')]"
  proof -
    obtain e where "unat (wr_pos r') = ?p + ?k + e" using r'(3) by (metis add.assoc le_iff_add)
    then show ?thesis using upt_add_eq_append [of ?p "?p + ?k" e] by simp
  qed
  then show ?case
    using r1(1) r' k by (auto simp: bindE_def simp flip: map_append)
qed simp

section \<open>Properties\<close>

definition sample_reader :: WalReader where
  "sample_reader =
     \<lparr>wr_timeline_dir = ps_timeline_dir sample_log, wr_wal_seg_size = wal_seg, wr_pos = 0x1000001,
      wr_wal_segment = None, wr_local_start_lsn = 0x1000000, wr_timeline_start_lsn = 0x1000000,
      wr_pg_version = PG17, wr_system_id = 7, wr_timeline_start_segment = None\<rparr>"

lemma sample_reads_from: "reads_from (\<lambda>_. 7) SEG sample_log sample_reader"
  using sample_log_stores
  by (simp add: reads_from_def sample_reader_def own_inodes_def) (simp add: sample_log_def)

text \<open>C19: The reader returns the log the storage wrote: however a reader that stands in the
  local part of the log splits what it reads below the write position into buffers, the bytes
  it gets, one after another, are those of the log from its position on, at least one per call,
  in segments still being written and in completed ones.\<close>

theorem reader_reads_log:
  assumes "reads_from c lo st r" and "list_all ((<) 0) ns" and "unat (wr_pos r) + sum_list ns \<le> unat (write_lsn st)"
  shows "\<exists>r'. reader_reads E R ns r = (Inr (map c [unat (wr_pos r)..<unat (wr_pos r')]), r') \<and>
     unat (wr_pos r) + length ns \<le> unat (wr_pos r') \<and> unat (wr_pos r') \<le> unat (wr_pos r) + sum_list ns"
  using reader_reads_ok [OF assms] by blast

theorem reader_reads_log_witness:
  "\<exists>r'. reader_reads sample_env None [2, 3] sample_reader = (Inr (map (\<lambda>_. 7) [0x1000001..<unat (wr_pos r')]), r') \<and>
     0x1000003 \<le> unat (wr_pos r') \<and> unat (wr_pos r') \<le> 0x1000006"
  using reader_reads_log [OF sample_reads_from, of "[2, 3]" sample_env None]
  by (simp add: sample_reader_def sample_log_def)

end
