(* ===== verification/Buffers.thy ===== *)
theory Buffers
  imports Term_History Membership
begin

text \<open>
  Byte buffers: the Rust \<open>Buf\<close> readers and the safekeeper's checked variants
  (\<open>safekeeper/src/safekeeper.rs\<close>), C strings, UTF-8 and hex text
  (\<open>libs/utils/src/id.rs\<close>), and the Postgres \<open>pq_*\<close> routines the proposer uses
  (\<open>pgxn/neon/walproposer_compat.c\<close>, \<open>pgxn/neon/neon_utils.c\<close>,
  \<open>vendor/postgres-v17/src/include/libpq/pqformat.h\<close>). A buffer is the bytes not yet read.
\<close>

section \<open>Reading in Rust\<close>

definition split_to :: "nat \<Rightarrow> (bytes, bytes) prog" where
  "split_to n = (\<lambda>b. if length b < n then (Inl (Panic ''advance out of bounds''), b)
                     else (Inr (take n b), drop n b))"

definition get_u8 :: "(bytes, u8) prog" where
  "get_u8 = bindE (split_to 1) (\<lambda>b. retE (be_word b))"

definition get_u16 :: "(bytes, u16) prog" where
  "get_u16 = bindE (split_to 2) (\<lambda>b. retE (be_word b))"

definition get_u32 :: "(bytes, u32) prog" where
  "get_u32 = bindE (split_to 4) (\<lambda>b. retE (be_word b))"

definition get_u64 :: "(bytes, u64) prog" where
  "get_u64 = bindE (split_to 8) (\<lambda>b. retE (be_word b))"

definition get_u32_le :: "(bytes, u32) prog" where
  "get_u32_le = bindE (split_to 4) (\<lambda>b. retE (le_word b))"

definition get_u64_le :: "(bytes, u64) prog" where
  "get_u64_le = bindE (split_to 8) (\<lambda>b. retE (le_word b))"

text \<open>\<open>if self.remaining() < n { bail!(..) }\<close> before a read.\<close>

definition remaining_atleast :: "nat \<Rightarrow> string \<Rightarrow> (bytes, unit) prog" where
  "remaining_atleast n e = bindE (getE length) (\<lambda>k. guardE (n \<le> k) (Bail e))"

definition get_u8_f :: "(bytes, u8) prog" where
  "get_u8_f = thenE (remaining_atleast 1 ''no bytes left, expected 1'') get_u8"

definition get_u16_f :: "(bytes, u16) prog" where
  "get_u16_f = thenE (remaining_atleast 2 ''no bytes left, expected 2'') get_u16"

definition get_u32_f :: "(bytes, u32) prog" where
  "get_u32_f = thenE (remaining_atleast 4 ''bytes left, expected 4'') get_u32"

definition get_u64_f :: "(bytes, u64) prog" where
  "get_u64_f = thenE (remaining_atleast 8 ''bytes left, expected 8'') get_u64"

text \<open>\<open>buf.iter().position(|x| *x == 0)\<close> and what it splits off.\<close>

definition read_cstr :: "(bytes, bytes) prog" where
  "read_cstr =
     bindE (getE (\<lambda>b. takeWhile (\<lambda>x. x \<noteq> 0) b)) (\<lambda>s.
     bindE (getE length) (\<lambda>k.
     thenE (guardE (length s < k) (Bail ''missing cstring terminator''))
     (bindE (split_to (length s)) (\<lambda>r. thenE (split_to 1) (retE r)))))"

subsection \<open>UTF-8\<close>

text \<open>
  The well-formed sequences \<open>std::str::from_utf8\<close> accepts: no overlong forms, no
  surrogates, nothing above U+10FFFF.
\<close>

definition utf8_cont :: "u8 \<Rightarrow> bool" where
  "utf8_cont b \<longleftrightarrow> 0x80 \<le> b \<and> b \<le> 0xBF"

definition utf8_second3 :: "u8 \<Rightarrow> u8 \<Rightarrow> bool" where
  "utf8_second3 a b \<longleftrightarrow>
     (if a = 0xE0 then 0xA0 \<le> b \<and> b \<le> 0xBF else if a = 0xED then 0x80 \<le> b \<and> b \<le> 0x9F else utf8_cont b)"

definition utf8_second4 :: "u8 \<Rightarrow> u8 \<Rightarrow> bool" where
  "utf8_second4 a b \<longleftrightarrow>
     (if a = 0xF0 then 0x90 \<le> b \<and> b \<le> 0xBF else if a = 0xF4 then 0x80 \<le> b \<and> b \<le> 0x8F else utf8_cont b)"

fun utf8_valid :: "bytes \<Rightarrow> bool" where
  "utf8_valid [] \<longleftrightarrow> True"
| "utf8_valid (a # r) \<longleftrightarrow>
     (if a < 0x80 then utf8_valid r
      else if 0xC2 \<le> a \<and> a \<le> 0xDF then
        (case r of b # r' \<Rightarrow> utf8_cont b \<and> utf8_valid r' | _ \<Rightarrow> False)
      else if 0xE0 \<le> a \<and> a \<le> 0xEF then
        (case r of b # c # r' \<Rightarrow> utf8_second3 a b \<and> utf8_cont c \<and> utf8_valid r' | _ \<Rightarrow> False)
      else if 0xF0 \<le> a \<and> a \<le> 0xF4 then
        (case r of b # c # d # r' \<Rightarrow> utf8_second4 a b \<and> utf8_cont c \<and> utf8_cont d \<and> utf8_valid r' | _ \<Rightarrow> False)
      else False)"

declare utf8_valid.simps(2) [simp del]

definition get_cstr :: "(bytes, bytes) prog" where
  "get_cstr = bindE read_cstr (\<lambda>r. thenE (guardE (utf8_valid r) (Bail ''invalid utf8 in cstring'')) (retE r))"

subsection \<open>Hex text of identifiers\<close>

definition hex_chars :: bytes where
  "hex_chars = [0x30, 0x31, 0x32, 0x33, 0x34, 0x35, 0x36, 0x37, 0x38, 0x39, 0x61, 0x62, 0x63, 0x64, 0x65, 0x66]"

definition hex_encode :: "bytes \<Rightarrow> bytes" where
  "hex_encode bs = concat (map (\<lambda>b. [hex_chars ! (unat b div 16 mod 16), hex_chars ! (unat b mod 16)]) bs)"

section \<open>The proposer's buffers\<close>

definition pq_sendint8 :: "u8 \<Rightarrow> bytes" where "pq_sendint8 i = [i]"
definition pq_sendint16 :: "u16 \<Rightarrow> bytes" where "pq_sendint16 i = word_be 2 i"
definition pq_sendint32 :: "u32 \<Rightarrow> bytes" where "pq_sendint32 i = word_be 4 i"
definition pq_sendint64 :: "u64 \<Rightarrow> bytes" where "pq_sendint64 i = word_be 8 i"
definition pq_sendint32_le :: "u32 \<Rightarrow> bytes" where "pq_sendint32_le i = word_le 4 i"
definition pq_sendint64_le :: "u64 \<Rightarrow> bytes" where "pq_sendint64_le i = word_le 8 i"

text \<open>Characters with the high bit set become question marks.\<close>

definition ascii_char :: "u8 \<Rightarrow> u8" where
  "ascii_char c = (if 0x80 \<le> c then 0x3F else c)"

definition pq_send_ascii_string :: "bytes \<Rightarrow> bytes" where
  "pq_send_ascii_string s = map ascii_char s @ [0]"

text \<open>\<open>ExceptionalCondition\<close> exits the process.\<close>

definition pq_copymsgbytes :: "nat \<Rightarrow> (bytes, bytes) prog" where
  "pq_copymsgbytes n = (\<lambda>b. if n > length b then (Inl (Panic ''insufficient data left in message''), b)
                           else (Inr (take n b), drop n b))"

definition pq_getmsgbyte :: "(bytes, u8) prog" where
  "pq_getmsgbyte = (\<lambda>b. case b of [] \<Rightarrow> (Inl (Panic ''no data left in message''), b) | x # r \<Rightarrow> (Inr x, r))"

definition pq_getmsgint16 :: "(bytes, u16) prog" where
  "pq_getmsgint16 = bindE (pq_copymsgbytes 2) (\<lambda>b. retE (be_word b))"

definition pq_getmsgint32 :: "(bytes, u32) prog" where
  "pq_getmsgint32 = bindE (pq_copymsgbytes 4) (\<lambda>b. retE (be_word b))"

definition pq_getmsgint64 :: "(bytes, u64) prog" where
  "pq_getmsgint64 = bindE (pq_copymsgbytes 8) (\<lambda>b. retE (be_word b))"

definition pq_getmsgint32_le :: "(bytes, u32) prog" where
  "pq_getmsgint32_le = bindE (pq_copymsgbytes 4) (\<lambda>b. retE (le_word b))"

definition pq_getmsgint64_le :: "(bytes, u64) prog" where
  "pq_getmsgint64_le = bindE (pq_copymsgbytes 8) (\<lambda>b. retE (le_word b))"

definition pq_getmsgbytes :: "nat \<Rightarrow> (bytes, bytes) prog" where
  "pq_getmsgbytes n = pq_copymsgbytes n"

definition pq_getmsgrawstring :: "(bytes, bytes) prog" where
  "pq_getmsgrawstring = (\<lambda>b. let s = takeWhile (\<lambda>x. x \<noteq> 0) b in
     if length s \<ge> length b then (Inl (Panic ''invalid string in message''), b)
     else (Inr s, drop (length s + 1) b))"

definition pq_getmsgend :: "(bytes, unit) prog" where
  "pq_getmsgend = (\<lambda>b. if b \<noteq> [] then (Inl (Panic ''invalid msg format''), b) else (Inr (), b))"

definition HexDecodeChar :: "u8 \<Rightarrow> nat option" where
  "HexDecodeChar c =
     (if 0x30 \<le> c \<and> c \<le> 0x39 then Some (unat c - 0x30)
      else if 0x61 \<le> c \<and> c \<le> 0x66 then Some (unat c - 0x61 + 10)
      else if 0x41 \<le> c \<and> c \<le> 0x46 then Some (unat c - 0x41 + 10)
      else None)"

text \<open>A C string is followed by its terminator, which is no digit.\<close>

definition c_at :: "bytes \<Rightarrow> nat \<Rightarrow> u8" where
  "c_at s i = (if i < length s then s ! i else 0)"

fun HexDecodeString :: "bytes \<Rightarrow> nat \<Rightarrow> bytes option" where
  "HexDecodeString input 0 = Some []"
| "HexDecodeString input (Suc n) =
     (case (HexDecodeChar (c_at input 0), HexDecodeChar (c_at input 1)) of
        (Some n1, Some n2) \<Rightarrow> map_option ((#) (word_of_nat (n1 * 16 + n2))) (HexDecodeString (drop 2 input) n)
      | _ \<Rightarrow> None)"


section \<open>Reading what was written\<close>

named_theorems reads \<open>a read of an encoding returns the encoded value and leaves the rest\<close>

lemma split_to_append [reads]: "length a = n \<Longrightarrow> split_to n (a @ r) = (Inr a, r)"
  by (simp add: split_to_def)

lemma split_to_all [reads]: "length a = n \<Longrightarrow> split_to n a = (Inr a, [])"
  by (simp add: split_to_def)

lemma pq_copymsgbytes_append [reads]: "length a = n \<Longrightarrow> pq_copymsgbytes n (a @ r) = (Inr a, r)"
  by (simp add: pq_copymsgbytes_def)

lemma word_be_1: "word_be 1 (x :: u8) = [x]"
  using unat_bounds(1) [of x] by (simp add: word_be_def be_of_nat_def)

lemma get_be [reads]:
  "get_u8 (x1 # r) = (Inr x1, r)"
  "get_u16 (word_be 2 x2 @ r) = (Inr x2, r)"
  "get_u32 (word_be 4 x4 @ r) = (Inr x4, r)"
  "get_u64 (word_be 8 x8 @ r) = (Inr x8, r)"
proof -
  have "split_to 1 (x1 # r) = (Inr (word_be 1 x1), r)" unfolding word_be_1 by (simp add: split_to_def)
  then show "get_u8 (x1 # r) = (Inr x1, r)" using be_codecs(1) [of x1] by (simp add: get_u8_def)
qed (simp_all add: get_u16_def get_u32_def get_u64_def reads)

lemma get_le [reads]:
  "get_u32_le (word_le 4 x4 @ r) = (Inr x4, r)"
  "get_u64_le (word_le 8 x8 @ r) = (Inr x8, r)"
  by (simp_all add: get_u32_le_def get_u64_le_def reads)

lemma remaining_atleast_run [simp]:
  "remaining_atleast n e b = (if n \<le> length b then (Inr (), b) else (Inl (Bail e), b))"
  by (simp add: remaining_atleast_def)

lemma get_be_f [reads]:
  "get_u8_f (x1 # r) = (Inr x1, r)"
  "get_u16_f (word_be 2 x2 @ r) = (Inr x2, r)"
  "get_u32_f (word_be 4 x4 @ r) = (Inr x4, r)"
  "get_u64_f (word_be 8 x8 @ r) = (Inr x8, r)"
  by (simp_all add: get_u8_f_def get_u16_f_def get_u32_f_def get_u64_f_def reads)

lemma pq_get [reads]:
  "pq_getmsgbyte (x1 # r) = (Inr x1, r)"
  "pq_getmsgint16 (word_be 2 x2 @ r) = (Inr x2, r)"
  "pq_getmsgint32 (word_be 4 x4 @ r) = (Inr x4, r)"
  "pq_getmsgint64 (word_be 8 x8 @ r) = (Inr x8, r)"
  "pq_getmsgint32_le (word_le 4 x4 @ r) = (Inr x4, r)"
  "pq_getmsgint64_le (word_le 8 x8 @ r) = (Inr x8, r)"
  by (simp_all add: pq_getmsgbyte_def pq_getmsgint16_def pq_getmsgint32_def pq_getmsgint64_def
      pq_getmsgint32_le_def pq_getmsgint64_le_def reads)

lemmas reads_last [reads] =
  get_be(2-4) [where r = "[]", simplified] get_le [where r = "[]", simplified]
  get_be_f(2-4) [where r = "[]", simplified] pq_get(2-6) [where r = "[]", simplified]

lemma pq_getmsgend_run [simp]: "pq_getmsgend b = (if b \<noteq> [] then (Inl (Panic ''invalid msg format''), b) else (Inr (), b))"
  by (simp add: pq_getmsgend_def)

lemmas pq_sends = pq_sendint8_def pq_sendint16_def pq_sendint32_def pq_sendint64_def pq_sendint32_le_def pq_sendint64_le_def

lemma takeWhile_cstr: "0 \<notin> set s \<Longrightarrow> takeWhile (\<lambda>x. x \<noteq> 0) (s @ 0 # r) = s"
  for s :: bytes
  by (induction s) auto

lemma read_cstr_append [reads]: "0 \<notin> set s \<Longrightarrow> read_cstr (s @ 0 # r) = (Inr s, r)"
  by (simp add: read_cstr_def takeWhile_cstr reads) (simp add: split_to_def)

lemma pq_getmsgrawstring_append [reads]: "0 \<notin> set s \<Longrightarrow> pq_getmsgrawstring (s @ 0 # r) = (Inr s, r)"
  by (simp add: pq_getmsgrawstring_def takeWhile_cstr Let_def)

lemma get_cstr_append [reads]: "0 \<notin> set s \<Longrightarrow> utf8_valid s \<Longrightarrow> get_cstr (s @ 0 # r) = (Inr s, r)"
  by (simp add: get_cstr_def reads)

lemma utf8_ascii: "list_all (\<lambda>b. b < 0x80) s \<Longrightarrow> utf8_valid s"
  by (induction s) (simp_all add: utf8_valid.simps(2))

lemma ascii_char_bounds: "ascii_char c < 0x80" "ascii_char c = 0 \<longleftrightarrow> c = 0"
  by (auto simp: ascii_char_def not_le)

text \<open>What the proposer sends as a string the safekeeper can read back.\<close>

lemma get_cstr_ascii [reads]:
  "0 \<notin> set s \<Longrightarrow> get_cstr (pq_send_ascii_string s @ r) = (Inr (map ascii_char s), r)"
proof -
  assume s: "0 \<notin> set s"
  have "utf8_valid (map ascii_char s)" by (rule utf8_ascii) (simp add: list_all_iff ascii_char_bounds)
  moreover have "0 \<notin> set (map ascii_char s)"
  proof
    assume "0 \<in> set (map ascii_char s)"
    then obtain c where "c \<in> set s" "ascii_char c = 0" by auto
    then show False using s by (simp add: ascii_char_bounds(2))
  qed
  ultimately have "get_cstr (map ascii_char s @ 0 # r) = (Inr (map ascii_char s), r)" by (intro get_cstr_append)
  then show ?thesis by (simp add: pq_send_ascii_string_def)
qed

subsection \<open>Encodings\<close>

lemma list_all_any [simp]: "list_all (\<lambda>_. True) xs"
  by (simp add: list_all_iff)

text \<open>
  An encoding of the values that are \<open>ok\<close>, with a reader that returns an image of them: the
  reader takes what was written and leaves what follows.
\<close>

locale wire_codec =
  fixes ok :: "'a \<Rightarrow> bool" and put :: "'a \<Rightarrow> bytes" and img :: "'a \<Rightarrow> 'b" and get :: "(bytes, 'b) prog"
  assumes get_put: "ok x \<Longrightarrow> get (put x @ r) = (Inr (img x), r)"
begin

lemma get_list: "list_all ok xs \<Longrightarrow> repeatE (length xs) get (concat (map put xs) @ r) = (Inr (map img xs), r)"
  by (induction xs) (simp_all add: get_put)

lemma get_list_last: "list_all ok xs \<Longrightarrow> repeatE (length xs) get (concat (map put xs)) = (Inr (map img xs), [])"
  using get_list [of xs "[]"] by simp

end

subsection \<open>Hex\<close>

lemma hex_chars_decode: "d < 16 \<Longrightarrow> HexDecodeChar (hex_chars ! d) = Some d \<and> hex_chars ! d < 0x80 \<and> hex_chars ! d \<noteq> 0"
proof -
  have "list_all (\<lambda>d. HexDecodeChar (hex_chars ! d) = Some d \<and> hex_chars ! d < 0x80 \<and> hex_chars ! d \<noteq> 0) [0..<16]"
    by code_simp
  then show "d < 16 \<Longrightarrow> ?thesis" by (simp add: list_all_iff)
qed

lemma hex_encode_chars: "c \<in> set (hex_encode bs) \<Longrightarrow> c < 0x80 \<and> c \<noteq> 0"
  using hex_chars_decode by (fastforce simp: hex_encode_def)

lemma ascii_hex_encode [simp]: "map ascii_char (hex_encode bs) = hex_encode bs"
  by (intro map_idI) (force simp: ascii_char_def dest: hex_encode_chars)

lemma HexDecodeString_encode: "HexDecodeString (hex_encode bs @ r) (length bs) = Some bs"
proof (induction bs)
  case (Cons b bs)
  have "hex_encode (b # bs) = hex_chars ! (unat b div 16 mod 16) # hex_chars ! (unat b mod 16) # hex_encode bs"
    by (simp add: hex_encode_def)
  moreover have "unat b div 16 < 16" using unat_bounds(1) [of b] by simp
  ultimately show ?case using Cons.IH by (simp add: c_at_def hex_chars_decode)
qed simp

end
