(* ===== verification/Messages.thy ===== *)
theory Messages
  imports Timeline_State
begin

text \<open>
  The proposer/acceptor messages (\<open>safekeeper/src/safekeeper.rs\<close>) and the feedback structures
  they carry (\<open>libs/safekeeper_api/src/models.rs\<close>, \<open>libs/utils/src/pageserver_feedback.rs\<close>).
\<close>

section \<open>Feedback\<close>

record HotStandbyFeedback =
  hs_ts :: u64
  hs_xmin :: u64
  hs_catalog_xmin :: u64

definition hs_empty :: HotStandbyFeedback where
  "hs_empty = \<lparr>hs_ts = 0, hs_xmin = 0, hs_catalog_xmin = 0\<rparr>"

record PageserverFeedback =
  pf_current_timeline_size :: u64
  pf_last_received_lsn :: lsn
  pf_disk_consistent_lsn :: lsn
  pf_remote_consistent_lsn :: lsn
  pf_replytime :: SystemTime
  pf_shard_number :: u32
  pf_corruption_detected :: bool

section \<open>Proposer to acceptor\<close>

record ProposerGreeting =
  pg_tenant_id :: Id16
  pg_timeline_id :: Id16
  pg_mconf :: Configuration
  pg_pg_version :: PgVersionId
  pg_system_id :: u64
  pg_wal_seg_size :: u32

record VoteRequest =
  vq_generation :: Generation
  vq_term :: Term

record ProposerElected =
  pe_generation :: Generation
  pe_term :: Term
  pe_start_streaming_at :: lsn
  pe_term_history :: TermHistory

record AppendRequestHeader =
  ah_generation :: Generation
  ah_term :: Term
  ah_begin_lsn :: lsn
  ah_end_lsn :: lsn
  ah_commit_lsn :: lsn
  ah_truncate_lsn :: lsn

record AppendRequest =
  ar_h :: AppendRequestHeader
  ar_wal_data :: bytes

datatype ProposerAcceptorMessage =
    PGreeting ProposerGreeting
  | PVoteRequest VoteRequest
  | PElected ProposerElected
  | PAppendRequest AppendRequest
  | PNoFlushAppendRequest AppendRequest
  | PFlushWAL

section \<open>Acceptor to proposer\<close>

record AcceptorGreeting =
  ag_node_id :: NodeId
  ag_mconf :: Configuration
  ag_term :: Term

record VoteResponse =
  vr_generation :: Generation
  vr_term :: Term
  vr_vote_given :: bool
  vr_flush_lsn :: lsn
  vr_truncate_lsn :: lsn
  vr_term_history :: TermHistory

record AppendResponse =
  as_generation :: Generation
  as_term :: Term
  as_flush_lsn :: lsn
  as_commit_lsn :: lsn
  as_hs_feedback :: HotStandbyFeedback
  as_pageserver_feedback :: "PageserverFeedback option"

definition term_only :: "Generation \<Rightarrow> Term \<Rightarrow> AppendResponse" where
  "term_only g t =
     \<lparr>as_generation = g, as_term = t, as_flush_lsn = 0, as_commit_lsn = 0,
      as_hs_feedback = hs_empty, as_pageserver_feedback = None\<rparr>"

datatype AcceptorProposerMessage =
    AGreeting AcceptorGreeting
  | AVoteResponse VoteResponse
  | AAppendResponse AppendResponse

end
