(* ===== verification/Feedback.thy ===== *)
theory Feedback
  imports Buffers Messages
begin

text \<open>
  Pageserver feedback as key/value pairs: the Rust writer and reader
  (\<open>libs/utils/src/pageserver_feedback.rs\<close>) and the proposer's reader
  (\<open>ParsePageserverFeedbackMessage\<close> in \<open>pgxn/neon/walproposer.c\<close>). A \<open>SystemTime\<close>
  counts nanoseconds here; the Postgres epoch is a constant of a library and a parameter.
\<close>

section \<open>Keys\<close>

definition ascii_bytes :: "string \<Rightarrow> bytes" where
  "ascii_bytes s = map (\<lambda>c. word_of_nat (of_char c)) s"

section \<open>Writing and reading in Rust\<close>

definition pf_empty :: "SystemTime \<Rightarrow> PageserverFeedback" where
  "pf_empty epoch =
     \<lparr>pf_current_timeline_size = 0, pf_last_received_lsn = 0, pf_disk_consistent_lsn = 0,
      pf_remote_consistent_lsn = 0, pf_replytime = epoch, pf_shard_number = 0, pf_corruption_detected = False\<rparr>"

definition kv :: "string \<Rightarrow> u32 \<Rightarrow> bytes \<Rightarrow> bytes" where
  "kv key len v = ascii_bytes key @ [0] @ word_be 4 len @ v"

text \<open>\<open>duration_since(*PG_EPOCH).expect(..).as_micros() as i64\<close>.\<close>

definition replytime_micros :: "SystemTime \<Rightarrow> SystemTime \<Rightarrow> u64 res" where
  "replytime_micros epoch t =
     (if t < epoch then Inl (Panic ''failed to serialize pg_replytime earlier than PG_EPOCH'')
      else Inr (word_of_int ((t - epoch) div 1000)))"

definition pf_fields :: "PageserverFeedback \<Rightarrow> u64 \<Rightarrow> bytes list" where
  "pf_fields f timestamp =
     [kv ''current_timeline_size'' 8 (word_be 8 (pf_current_timeline_size f)),
      kv ''ps_writelsn'' 8 (word_be 8 (pf_last_received_lsn f)),
      kv ''ps_flushlsn'' 8 (word_be 8 (pf_disk_consistent_lsn f)),
      kv ''ps_applylsn'' 8 (word_be 8 (pf_remote_consistent_lsn f)),
      kv ''ps_replytime'' 8 (word_be 8 timestamp)] @
     (if pf_shard_number f > 0 then [kv ''shard_number'' 4 (word_be 4 (pf_shard_number f))] else []) @
     (if pf_corruption_detected f then [kv ''corruption_detected'' 1 [1]] else [])"

text \<open>The number of keys is filled in last, in the byte before the first key.\<close>

definition pf_serialize :: "SystemTime \<Rightarrow> PageserverFeedback \<Rightarrow> bytes res" where
  "pf_serialize epoch f =
     map_res (\<lambda>timestamp. let fs = pf_fields f timestamp in word_of_nat (length fs) # concat fs)
       (replytime_micros epoch (pf_replytime f))"

definition expect_len :: "u32 \<Rightarrow> (bytes, unit) prog" where
  "expect_len n = bindE get_u32 (\<lambda>len. guardE (len = n) (Panic ''assertion failed''))"

text \<open>A raw time that is not positive is subtracted from the epoch; \<open>- i64::MIN\<close> stays \<open>2^63\<close>.\<close>

definition replytime_of_micros :: "SystemTime \<Rightarrow> u64 \<Rightarrow> SystemTime" where
  "replytime_of_micros epoch raw =
     (if sint raw > 0 then epoch + 1000 * uint raw else epoch - 1000 * uint (- raw))"

definition pf_read_key :: "SystemTime \<Rightarrow> PageserverFeedback \<Rightarrow> (bytes, PageserverFeedback) prog" where
  "pf_read_key epoch rf =
     bindE (catchE read_cstr (\<lambda>_. failE (Panic ''unwrap''))) (\<lambda>key.
     if key = ascii_bytes ''current_timeline_size'' then
       thenE (expect_len 8) (bindE get_u64 (\<lambda>v. retE (rf\<lparr>pf_current_timeline_size := v\<rparr>)))
     else if key = ascii_bytes ''ps_writelsn'' then
       thenE (expect_len 8) (bindE get_u64 (\<lambda>v. retE (rf\<lparr>pf_last_received_lsn := v\<rparr>)))
     else if key = ascii_bytes ''ps_flushlsn'' then
       thenE (expect_len 8) (bindE get_u64 (\<lambda>v. retE (rf\<lparr>pf_disk_consistent_lsn := v\<rparr>)))
     else if key = ascii_bytes ''ps_applylsn'' then
       thenE (expect_len 8) (bindE get_u64 (\<lambda>v. retE (rf\<lparr>pf_remote_consistent_lsn := v\<rparr>)))
     else if key = ascii_bytes ''ps_replytime'' then
       thenE (expect_len 8) (bindE get_u64 (\<lambda>v. retE (rf\<lparr>pf_replytime := replytime_of_micros epoch v\<rparr>)))
     else if key = ascii_bytes ''shard_number'' then
       thenE (expect_len 4) (bindE get_u32 (\<lambda>v. retE (rf\<lparr>pf_shard_number := v\<rparr>)))
     else if key = ascii_bytes ''corruption_detected'' then
       thenE (expect_len 1) (bindE get_u8 (\<lambda>v. retE (rf\<lparr>pf_corruption_detected := (v \<noteq> 0)\<rparr>)))
     else bindE get_u32 (\<lambda>len. thenE (split_to (unat (scast len :: u64))) (retE rf)))"

primrec pf_read_keys :: "SystemTime \<Rightarrow> nat \<Rightarrow> PageserverFeedback \<Rightarrow> (bytes, PageserverFeedback) prog" where
  "pf_read_keys epoch 0 rf = retE rf"
| "pf_read_keys epoch (Suc n) rf = bindE (pf_read_key epoch rf) (pf_read_keys epoch n)"

definition pf_parse :: "SystemTime \<Rightarrow> (bytes, PageserverFeedback) prog" where
  "pf_parse epoch = bindE get_u8 (\<lambda>nfields. pf_read_keys epoch (unat nfields) (pf_empty epoch))"

section \<open>Reading in the proposer\<close>

record c_PageserverFeedback =
  cpf_present :: bool
  cpf_currentClusterSize :: u64
  cpf_last_received_lsn :: lsn
  cpf_disk_consistent_lsn :: lsn
  cpf_remote_consistent_lsn :: lsn
  cpf_replytime :: u64
  cpf_shard_number :: u32
  cpf_corruption_detected :: bool

definition c_feedback_zero :: c_PageserverFeedback where
  "c_feedback_zero =
     \<lparr>cpf_present = False, cpf_currentClusterSize = 0, cpf_last_received_lsn = 0, cpf_disk_consistent_lsn = 0,
      cpf_remote_consistent_lsn = 0, cpf_replytime = 0, cpf_shard_number = 0, cpf_corruption_detected = False\<rparr>"

text \<open>\<open>Assert(value_len == ...)\<close> is checked in debug builds; here a violation is an error.\<close>

definition c_feedback_key :: "c_PageserverFeedback \<Rightarrow> (bytes, c_PageserverFeedback) prog" where
  "c_feedback_key f =
     bindE pq_getmsgrawstring (\<lambda>key.
     bindE pq_getmsgint32 (\<lambda>value_len.
     let is = (\<lambda>ks. key \<in> set (map ascii_bytes ks)); len = (\<lambda>n. guardE (value_len = n) (Panic ''Assert'')) in
     if is [''current_timeline_size''] then
       thenE (len 8) (bindE pq_getmsgint64 (\<lambda>v. retE (f\<lparr>cpf_currentClusterSize := v\<rparr>)))
     else if is [''ps_writelsn'', ''last_received_lsn''] then
       thenE (len 8) (bindE pq_getmsgint64 (\<lambda>v. retE (f\<lparr>cpf_last_received_lsn := v\<rparr>)))
     else if is [''ps_flushlsn'', ''disk_consistent_lsn''] then
       thenE (len 8) (bindE pq_getmsgint64 (\<lambda>v. retE (f\<lparr>cpf_disk_consistent_lsn := v\<rparr>)))
     else if is [''ps_applylsn'', ''remote_consistent_lsn''] then
       thenE (len 8) (bindE pq_getmsgint64 (\<lambda>v. retE (f\<lparr>cpf_remote_consistent_lsn := v\<rparr>)))
     else if is [''ps_replytime'', ''replytime''] then
       thenE (len 8) (bindE pq_getmsgint64 (\<lambda>v. retE (f\<lparr>cpf_replytime := v\<rparr>)))
     else if is [''shard_number''] then
       thenE (len 4) (bindE pq_getmsgint32 (\<lambda>v. retE (f\<lparr>cpf_shard_number := v\<rparr>)))
     else if is [''corruption_detected''] then
       thenE (len 1) (bindE pq_getmsgbyte (\<lambda>v. retE (f\<lparr>cpf_corruption_detected := (v \<noteq> 0)\<rparr>)))
     else thenE (pq_getmsgbytes (unat value_len)) (retE f)))"

primrec c_feedback_keys :: "nat \<Rightarrow> c_PageserverFeedback \<Rightarrow> (bytes, c_PageserverFeedback) prog" where
  "c_feedback_keys 0 f = retE f"
| "c_feedback_keys (Suc n) f = bindE (c_feedback_key f) (c_feedback_keys n)"

definition ParsePageserverFeedbackMessage :: "(bytes, c_PageserverFeedback) prog" where
  "ParsePageserverFeedbackMessage =
     bindE pq_getmsgbyte (\<lambda>nkeys. c_feedback_keys (unat nkeys) (c_feedback_zero\<lparr>cpf_present := True\<rparr>))"

section \<open>Round trips\<close>

lemma inj_char_byte: "inj (\<lambda>c. word_of_nat (of_char c) :: u8)"
proof (rule injI)
  fix x y :: char
  assume "(word_of_nat (of_char x) :: u8) = word_of_nat (of_char y)"
  then have "unat (word_of_nat (of_char x) :: u8) = unat (word_of_nat (of_char y) :: u8)" by simp
  then show "x = y" by (simp add: unat_of_nat)
qed

lemma key_bytes [simp]: "ascii_bytes s = ascii_bytes t \<longleftrightarrow> s = t"
  unfolding ascii_bytes_def by (simp add: inj_map_eq_map [OF inj_char_byte])

lemma key_no_nul: "CHR 0x00 \<notin> set s \<Longrightarrow> 0 \<notin> set (ascii_bytes s)"
proof
  assume s: "CHR 0x00 \<notin> set s" and "0 \<in> set (ascii_bytes s)"
  then obtain c where c: "c \<in> set s" "word_of_nat (of_char c) = (0 :: u8)" by (auto simp: ascii_bytes_def)
  then have "c = CHR 0x00" using injD [OF inj_char_byte, of c "CHR 0x00"] by simp
  with c s show False by simp
qed

lemma kv_reads [reads]:
  assumes "CHR 0x00 \<notin> set k"
  shows "read_cstr (kv k n v @ r) = (Inr (ascii_bytes k), word_be 4 n @ v @ r)"
    "pq_getmsgrawstring (kv k n v @ r) = (Inr (ascii_bytes k), word_be 4 n @ v @ r)"
  using key_no_nul [OF assms] by (simp_all add: kv_def reads)

lemma expect_len_reads [reads]: "expect_len n (word_be 4 n @ r) = (Inr (), r)"
  by (simp add: expect_len_def reads)

lemma catchE_ok [simp]: "m s = (Inr x, t) \<Longrightarrow> catchE m h s = (Inr x, t)"
  by (simp add: catchE_def)

lemma pf_read_key_kv [reads]:
  "pf_read_key e f (kv ''current_timeline_size'' 8 (word_be 8 v) @ r) = (Inr (f\<lparr>pf_current_timeline_size := v\<rparr>), r)"
  "pf_read_key e f (kv ''ps_writelsn'' 8 (word_be 8 v) @ r) = (Inr (f\<lparr>pf_last_received_lsn := v\<rparr>), r)"
  "pf_read_key e f (kv ''ps_flushlsn'' 8 (word_be 8 v) @ r) = (Inr (f\<lparr>pf_disk_consistent_lsn := v\<rparr>), r)"
  "pf_read_key e f (kv ''ps_applylsn'' 8 (word_be 8 v) @ r) = (Inr (f\<lparr>pf_remote_consistent_lsn := v\<rparr>), r)"
  "pf_read_key e f (kv ''ps_replytime'' 8 (word_be 8 v) @ r) = (Inr (f\<lparr>pf_replytime := replytime_of_micros e v\<rparr>), r)"
  "pf_read_key e f (kv ''shard_number'' 4 (word_be 4 w) @ r) = (Inr (f\<lparr>pf_shard_number := w\<rparr>), r)"
  "pf_read_key e f (kv ''corruption_detected'' 1 (b # []) @ r) = (Inr (f\<lparr>pf_corruption_detected := (b \<noteq> 0)\<rparr>), r)"
  by (simp_all add: pf_read_key_def reads)

lemma c_feedback_key_kv [reads]:
  "c_feedback_key f (kv ''current_timeline_size'' 8 (word_be 8 v) @ r) = (Inr (f\<lparr>cpf_currentClusterSize := v\<rparr>), r)"
  "c_feedback_key f (kv ''ps_writelsn'' 8 (word_be 8 v) @ r) = (Inr (f\<lparr>cpf_last_received_lsn := v\<rparr>), r)"
  "c_feedback_key f (kv ''ps_flushlsn'' 8 (word_be 8 v) @ r) = (Inr (f\<lparr>cpf_disk_consistent_lsn := v\<rparr>), r)"
  "c_feedback_key f (kv ''ps_applylsn'' 8 (word_be 8 v) @ r) = (Inr (f\<lparr>cpf_remote_consistent_lsn := v\<rparr>), r)"
  "c_feedback_key f (kv ''ps_replytime'' 8 (word_be 8 v) @ r) = (Inr (f\<lparr>cpf_replytime := v\<rparr>), r)"
  "c_feedback_key f (kv ''shard_number'' 4 (word_be 4 w) @ r) = (Inr (f\<lparr>cpf_shard_number := w\<rparr>), r)"
  "c_feedback_key f (kv ''corruption_detected'' 1 (b # []) @ r) = (Inr (f\<lparr>cpf_corruption_detected := (b \<noteq> 0)\<rparr>), r)"
  by (simp_all add: c_feedback_key_def reads Let_def)

text \<open>A key/value pair neither reader knows.\<close>

definition unknown_kv :: "string \<times> bytes \<Rightarrow> bool" where
  "unknown_kv = (\<lambda>(k, v). CHR 0x00 \<notin> set k \<and> length v < 2 ^ 31 \<and>
     k \<notin> set [''current_timeline_size'', ''ps_writelsn'', ''last_received_lsn'', ''ps_flushlsn'',
       ''disk_consistent_lsn'', ''ps_applylsn'', ''remote_consistent_lsn'', ''ps_replytime'', ''replytime'',
       ''shard_number'', ''corruption_detected''])"

definition kv_pair :: "string \<times> bytes \<Rightarrow> bytes" where
  "kv_pair = (\<lambda>(k, v). kv k (word_of_nat (length v)) v)"

lemma small_word: "n < 2 ^ 31 \<Longrightarrow> unat (scast (word_of_nat n :: u32) :: u64) = n"
proof -
  assume n: "n < 2 ^ 31"
  have u: "uint (word_of_nat n :: u32) = int n" using n by (simp add: unsigned_of_nat take_bit_nat_eq_self)
  have "sint (word_of_nat n :: u32) = int n"
    using n by (simp add: sint_uint u signed_take_bit_int_eq_self)
  then have "(scast (word_of_nat n :: u32) :: u64) = word_of_int (int n)" by (simp only: scast_eq)
  then show ?thesis using n by (simp add: unat_of_nat take_bit_nat_eq_self)
qed

lemma read_unknown [reads]:
  assumes "unknown_kv x"
  shows "pf_read_key e f (kv_pair x @ r) = (Inr f, r)" "c_feedback_key g (kv_pair x @ r) = (Inr g, r)"
proof -
  obtain k v where x: "x = (k, v)" by fastforce
  have v: "length v < 2 ^ 31" "unat (word_of_nat (length v) :: u32) = length v"
    using assms by (simp_all add: x unknown_kv_def unat_of_nat take_bit_nat_eq_self)
  have k: "CHR 0x00 \<notin> set k" using assms by (simp add: x unknown_kv_def)
  show "pf_read_key e f (kv_pair x @ r) = (Inr f, r)"
    using assms small_word [OF v(1)] by (simp add: x kv_pair_def unknown_kv_def pf_read_key_def reads)
  show "c_feedback_key g (kv_pair x @ r) = (Inr g, r)"
    using assms v by (simp add: x kv_pair_def unknown_kv_def c_feedback_key_def reads Let_def pq_getmsgbytes_def)
qed

lemma read_unknowns [reads]:
  "list_all unknown_kv xs \<Longrightarrow> pf_read_keys e (length xs) f (concat (map kv_pair xs)) = (Inr f, [])"
  "list_all unknown_kv xs \<Longrightarrow> c_feedback_keys (length xs) g (concat (map kv_pair xs)) = (Inr g, [])"
  by (induction xs) (simp_all add: reads)

definition whole_micros :: "SystemTime \<Rightarrow> SystemTime \<Rightarrow> int" where
  "whole_micros epoch t = (t - epoch) div 1000"

definition feedback_read :: "SystemTime \<Rightarrow> PageserverFeedback \<Rightarrow> PageserverFeedback" where
  "feedback_read epoch f = f\<lparr>pf_replytime := epoch + 1000 * whole_micros epoch (pf_replytime f)\<rparr>"

definition c_feedback_of :: "SystemTime \<Rightarrow> PageserverFeedback \<Rightarrow> c_PageserverFeedback" where
  "c_feedback_of epoch f =
     \<lparr>cpf_present = True, cpf_currentClusterSize = pf_current_timeline_size f,
      cpf_last_received_lsn = pf_last_received_lsn f, cpf_disk_consistent_lsn = pf_disk_consistent_lsn f,
      cpf_remote_consistent_lsn = pf_remote_consistent_lsn f,
      cpf_replytime = word_of_int (whole_micros epoch (pf_replytime f)),
      cpf_shard_number = pf_shard_number f, cpf_corruption_detected = pf_corruption_detected f\<rparr>"

lemma replytime_roundtrip:
  assumes "0 \<le> m" and "m < 2 ^ 63"
  shows "replytime_of_micros e (word_of_int m) = e + 1000 * m"
proof -
  have u: "uint (word_of_int m :: u64) = m" using assms by (simp add: unsigned_of_int take_bit_int_eq_self)
  then have "sint (word_of_int m :: u64) = m" using assms by (simp add: sint_uint signed_take_bit_int_eq_self)
  with u assms(1) show ?thesis by (cases "m = 0") (auto simp: replytime_of_micros_def)
qed

definition pf_times_ok :: "SystemTime \<Rightarrow> PageserverFeedback \<Rightarrow> bool" where
  "pf_times_ok epoch f \<longleftrightarrow> epoch \<le> pf_replytime f \<and> whole_micros epoch (pf_replytime f) < 2 ^ 63"

lemma pf_keys_read:
  assumes "pf_times_ok e f"
  defines "fs \<equiv> pf_fields f (word_of_int (whole_micros e (pf_replytime f)))"
  shows "pf_read_keys e (length fs + n) (pf_empty e) (concat fs @ r) = pf_read_keys e n (feedback_read e f) r"
    and "c_feedback_keys (length fs + n) (c_feedback_zero\<lparr>cpf_present := True\<rparr>) (concat fs @ r) =
      c_feedback_keys n (c_feedback_of e f) r"
proof -
  have "0 \<le> whole_micros e (pf_replytime f)" using assms by (simp add: pf_times_ok_def whole_micros_def pos_imp_zdiv_nonneg_iff)
  then have t: "replytime_of_micros e (word_of_int (whole_micros e (pf_replytime f))) = e + 1000 * whole_micros e (pf_replytime f)"
    using assms by (intro replytime_roundtrip) (auto simp: pf_times_ok_def)
  have s: "pf_shard_number f = 0" if "\<not> 0 < pf_shard_number f" using that by (simp add: word_gt_0)
  show "pf_read_keys e (length fs + n) (pf_empty e) (concat fs @ r) = pf_read_keys e n (feedback_read e f) r"
    using s t by (cases f) (auto simp: fs_def pf_fields_def reads pf_empty_def feedback_read_def)
  show "c_feedback_keys (length fs + n) (c_feedback_zero\<lparr>cpf_present := True\<rparr>) (concat fs @ r) =
      c_feedback_keys n (c_feedback_of e f) r"
    using s by (auto simp: fs_def pf_fields_def reads c_feedback_zero_def c_feedback_of_def)
qed

lemma pf_serialize_ok:
  assumes "pf_times_ok epoch f"
  defines "fs \<equiv> pf_fields f (word_of_int (whole_micros epoch (pf_replytime f)))"
  shows "pf_serialize epoch f = Inr (word_of_nat (length fs) # concat fs)" and "length fs \<le> 7"
  using assms(1) by (simp_all add: pf_serialize_def replytime_micros_def pf_times_ok_def whole_micros_def fs_def Let_def pf_fields_def)

lemma c_feedback_reads:
  assumes "pf_times_ok epoch f"
  shows "\<exists>n b. pf_serialize epoch f = Inr (n # b) \<and> ParsePageserverFeedbackMessage (n # b) = (Inr (c_feedback_of epoch f), [])"
  using pf_serialize_ok [OF assms] pf_keys_read(2) [OF assms, of 0 "[]"]
  by (simp add: ParsePageserverFeedbackMessage_def reads unat_of_nat take_bit_nat_eq_self)

section \<open>Properties\<close>

text \<open>C25: Feedback survives the wire in both readers and the format can grow: what
  \<open>serialize\<close> writes, followed by any pairs whose keys neither side knows (and counted
  in the first byte), is read by the Rust parser as the same feedback and by the proposer as
  the same fields, the reply time cut to whole microseconds since the Postgres epoch.\<close>

theorem feedback_roundtrip:
  assumes "pf_times_ok epoch f" and "list_all unknown_kv xs" and "length xs < 249"
  shows "\<exists>n b. pf_serialize epoch f = Inr (n # b) \<and>
     pf_parse epoch ((n + word_of_nat (length xs)) # b @ concat (map kv_pair xs)) = (Inr (feedback_read epoch f), []) \<and>
     ParsePageserverFeedbackMessage ((n + word_of_nat (length xs)) # b @ concat (map kv_pair xs)) =
       (Inr (c_feedback_of epoch f), [])"
proof -
  define fs where "fs = pf_fields f (word_of_int (whole_micros epoch (pf_replytime f)))"
  have n: "unat (word_of_nat (length fs) + word_of_nat (length xs) :: u8) = length fs + length xs"
    using assms(3) pf_serialize_ok(2) [OF assms(1)] by (simp flip: of_nat_add add: fs_def unat_of_nat take_bit_nat_eq_self)
  show ?thesis
    using pf_serialize_ok(1) [OF assms(1)] pf_keys_read [OF assms(1), of "length xs" "concat (map kv_pair xs)"] n assms(2)
    by (simp add: pf_parse_def ParsePageserverFeedbackMessage_def reads fs_def [symmetric])
qed

definition sample_feedback :: PageserverFeedback where
  "sample_feedback =
     \<lparr>pf_current_timeline_size = 12345678, pf_last_received_lsn = 23456789, pf_disk_consistent_lsn = 34567890,
      pf_remote_consistent_lsn = 45678901, pf_replytime = 946684800000001500, pf_shard_number = 1,
      pf_corruption_detected = True\<rparr>"

theorem feedback_roundtrip_witness:
  "\<exists>n b. pf_serialize 946684800000000000 sample_feedback = Inr (n # b) \<and>
     pf_parse 946684800000000000 ((n + 1) # b @ kv_pair (''new_field_one'', [42])) =
       (Inr (sample_feedback\<lparr>pf_replytime := 946684800000001000\<rparr>), []) \<and>
     ParsePageserverFeedbackMessage ((n + 1) # b @ kv_pair (''new_field_one'', [42])) =
       (Inr (c_feedback_of 946684800000000000 sample_feedback), [])"
proof -
  have "pf_times_ok 946684800000000000 sample_feedback" "list_all unknown_kv [(''new_field_one'', [42])]"
    "feedback_read 946684800000000000 sample_feedback = sample_feedback\<lparr>pf_replytime := 946684800000001000\<rparr>"
    by (simp_all add: pf_times_ok_def whole_micros_def sample_feedback_def unknown_kv_def feedback_read_def)
  with feedback_roundtrip [of 946684800000000000 sample_feedback "[(''new_field_one'', [42])]"] show ?thesis by simp
qed

end
