(* ===== verification/Wire.thy ===== *)
theory Wire
  imports Feedback Wal_Format
begin

text \<open>
  The proposer/acceptor protocol on the wire, versions 2 and 3: the safekeeper's parser and
  serializer (\<open>safekeeper/src/safekeeper.rs\<close>) and the proposer's
  (\<open>pgxn/neon/walproposer.c\<close>). What one side writes the other reads.
\<close>

section \<open>The safekeeper's parser\<close>

definition SK_PROTO_VERSION_2 :: u32 where "SK_PROTO_VERSION_2 = 2"
definition SK_PROTO_VERSION_3 :: u32 where "SK_PROTO_VERSION_3 = 3"

definition MAX_SEND_SIZE :: nat where
  "MAX_SEND_SIZE = 8192 * 16"

definition th_entry_f :: "(bytes, TermLsn) prog" where
  "th_entry_f = bindE get_u64_f (\<lambda>t. bindE get_u64_f (\<lambda>l. retE \<lparr>tl_term = t, tl_lsn = l\<rparr>))"

definition th_from_bytes :: "(bytes, TermHistory) prog" where
  "th_from_bytes = bindE get_u32_f (\<lambda>n_entries. repeatE (unat n_entries) th_entry_f)"

definition th_entry_le :: "(bytes, TermLsn) prog" where
  "th_entry_le = thenE (remaining_atleast 16 ''TermHistory is incomplete'')
     (bindE get_u64_le (\<lambda>t. bindE get_u64_le (\<lambda>l. retE \<lparr>tl_term = t, tl_lsn = l\<rparr>)))"

definition th_from_bytes_le :: "(bytes, TermHistory) prog" where
  "th_from_bytes_le = thenE (remaining_atleast 4 ''TermHistory misses len'')
     (bindE get_u32_le (\<lambda>n_entries. repeatE (unat n_entries) th_entry_le))"

definition get_member :: "(bytes, SafekeeperId) prog" where
  "get_member =
     bindE get_u64_f (\<lambda>id. bindE get_cstr (\<lambda>host. bindE get_u16_f (\<lambda>pg_port.
     retE \<lparr>sk_id = id, sk_host = host, sk_pg_port = pg_port\<rparr>)))"

primrec get_members :: "nat \<Rightarrow> MemberSet \<Rightarrow> (bytes, MemberSet) prog" where
  "get_members 0 ms = retE ms"
| "get_members (Suc n) ms =
     bindE get_member (\<lambda>sk. case member_set_add sk ms of
        (Inl e, _) \<Rightarrow> failE e
      | (Inr _, ms') \<Rightarrow> get_members n ms')"

definition get_mconf :: "(bytes, Configuration) prog" where
  "get_mconf =
     bindE get_u32_f (\<lambda>gen. bindE get_u32_f (\<lambda>members_len.
     thenE (guardE (\<not> (gen \<noteq> INVALID_GENERATION \<and> members_len = 0)) (Bail ''empty members_len''))
     (bindE (get_members (unat members_len) member_set_empty) (\<lambda>ms.
      bindE get_u32_f (\<lambda>new_members_len.
      if new_members_len = 0 then retE \<lparr>generation = gen, members = ms, new_members = None\<rparr>
      else bindE (get_members (unat new_members_len) member_set_empty) (\<lambda>nms.
           retE \<lparr>generation = gen, members = ms, new_members = Some nms\<rparr>))))))"

text \<open>
  The structures of version 2 are read by derived deserializers, identifiers by a hex library;
  both are parameters.
\<close>

record ProposerGreetingV2 =
  g2_protocol_version :: u32
  g2_pg_version :: PgVersionId
  g2_proposer_id :: Id16
  g2_system_id :: u64
  g2_timeline_id :: Id16
  g2_tenant_id :: Id16
  g2_tli :: u32
  g2_wal_seg_size :: u32

record AppendRequestHeaderV2 =
  a2_term :: Term
  a2_term_start_lsn :: lsn
  a2_begin_lsn :: lsn
  a2_end_lsn :: lsn
  a2_commit_lsn :: lsn
  a2_truncate_lsn :: lsn
  a2_proposer_uuid :: Id16

record wire_env =
  we_hex :: "bytes \<Rightarrow> Id16 res"
  we_greeting_v2 :: "(bytes, ProposerGreetingV2) prog"
  we_vote_v2 :: "(bytes, Term) prog"
  we_append_v2 :: "(bytes, AppendRequestHeaderV2) prog"

definition append_rec_size :: "AppendRequestHeader \<Rightarrow> (bytes, nat) prog" where
  "append_rec_size hdr =
     (case lsn_checked_sub (ah_end_lsn hdr) (ah_begin_lsn hdr) of
        None \<Rightarrow> failE (Bail ''begin_lsn > end_lsn in AppendRequest'')
      | Some d \<Rightarrow> thenE (guardE (unat d \<le> MAX_SEND_SIZE) (Bail ''AppendRequest is longer than MAX_SEND_SIZE''))
                   (retE (unat d)))"

definition parse_v3 :: "wire_env \<Rightarrow> (bytes, ProposerAcceptorMessage) prog" where
  "parse_v3 W =
     thenE (remaining_atleast 1 ''ProposerAcceptorMessage is not complete: missing tag'')
     (bindE get_u8_f (\<lambda>tag.
      if tag = 0x67 then
        bindE get_cstr (\<lambda>ten_s. bindE (liftR (we_hex W ten_s)) (\<lambda>ten.
        bindE get_cstr (\<lambda>tl_s. bindE (liftR (we_hex W tl_s)) (\<lambda>tl.
        bindE get_mconf (\<lambda>mconf.
        bindE get_u32_f (\<lambda>version. bindE get_u64_f (\<lambda>sysid. bindE get_u32_f (\<lambda>seg.
        bindE (liftR (from_full_pg_version version)) (\<lambda>v.
        retE (PGreeting \<lparr>pg_tenant_id = ten, pg_timeline_id = tl, pg_mconf = mconf, pg_pg_version = v,
                pg_system_id = sysid, pg_wal_seg_size = seg\<rparr>))))))))))
      else if tag = 0x76 then
        bindE get_u32_f (\<lambda>gen. bindE get_u64_f (\<lambda>t.
        retE (PVoteRequest \<lparr>vq_generation = gen, vq_term = t\<rparr>)))
      else if tag = 0x65 then
        bindE get_u32_f (\<lambda>gen. bindE get_u64_f (\<lambda>t. bindE get_u64_f (\<lambda>start. bindE th_from_bytes (\<lambda>th.
        retE (PElected \<lparr>pe_generation = gen, pe_term = t, pe_start_streaming_at = start, pe_term_history = th\<rparr>)))))
      else if tag = 0x61 then
        bindE get_u32_f (\<lambda>gen. bindE get_u64_f (\<lambda>t. bindE get_u64_f (\<lambda>b. bindE get_u64_f (\<lambda>e.
        bindE get_u64_f (\<lambda>c. bindE get_u64_f (\<lambda>tr.
        let hdr = \<lparr>ah_generation = gen, ah_term = t, ah_begin_lsn = b, ah_end_lsn = e, ah_commit_lsn = c, ah_truncate_lsn = tr\<rparr> in
        bindE (append_rec_size hdr) (\<lambda>rec_size.
        thenE (remaining_atleast rec_size ''reading WAL'')
        (bindE (split_to rec_size) (\<lambda>wal. retE (PAppendRequest \<lparr>ar_h = hdr, ar_wal_data = wal\<rparr>))))))))))
      else failE (Bail ''unknown proposer-acceptor message tag'')))"

text \<open>Reading past the end of the stream is an I/O error in version 2.\<close>

definition stream_read_u64 :: "(bytes, u64) prog" where
  "stream_read_u64 = catchE get_u64_le (\<lambda>_. failE IoError)"

definition parse_v2 :: "wire_env \<Rightarrow> (bytes, ProposerAcceptorMessage) prog" where
  "parse_v2 W =
     bindE stream_read_u64 (\<lambda>tag64.
     let tag = (ucast tag64 :: u8) in
     if tag = 0x67 then
       bindE (we_greeting_v2 W) (\<lambda>m.
       retE (PGreeting \<lparr>pg_tenant_id = g2_tenant_id m, pg_timeline_id = g2_timeline_id m,
               pg_mconf = \<lparr>generation = INVALID_GENERATION, members = member_set_empty, new_members = None\<rparr>,
               pg_pg_version = g2_pg_version m, pg_system_id = g2_system_id m, pg_wal_seg_size = g2_wal_seg_size m\<rparr>))
     else if tag = 0x76 then
       bindE (we_vote_v2 W) (\<lambda>t. retE (PVoteRequest \<lparr>vq_generation = INVALID_GENERATION, vq_term = t\<rparr>))
     else if tag = 0x65 then
       thenE (remaining_atleast 16 ''ProposerElected message is not complete'')
       (bindE get_u64_le (\<lambda>t. bindE get_u64_le (\<lambda>start. bindE th_from_bytes_le (\<lambda>th.
        thenE (remaining_atleast 8 ''ProposerElected message is not complete'')
        (bindE get_u64_le (\<lambda>_.
         retE (PElected \<lparr>pe_generation = INVALID_GENERATION, pe_term = t, pe_start_streaming_at = start,
                 pe_term_history = th\<rparr>)))))))
     else if tag = 0x61 then
       bindE (we_append_v2 W) (\<lambda>h.
       let hdr = \<lparr>ah_generation = INVALID_GENERATION, ah_term = a2_term h, ah_begin_lsn = a2_begin_lsn h,
                  ah_end_lsn = a2_end_lsn h, ah_commit_lsn = a2_commit_lsn h, ah_truncate_lsn = a2_truncate_lsn h\<rparr> in
       bindE (append_rec_size hdr) (\<lambda>rec_size.
       bindE (catchE (split_to rec_size) (\<lambda>_. failE IoError)) (\<lambda>wal.
       retE (PAppendRequest \<lparr>ar_h = hdr, ar_wal_data = wal\<rparr>))))
     else failE (Bail ''unknown proposer-acceptor message tag''))"

definition parse :: "wire_env \<Rightarrow> u32 \<Rightarrow> (bytes, ProposerAcceptorMessage) prog" where
  "parse W proto_version =
     (if proto_version = SK_PROTO_VERSION_3 then parse_v3 W
      else if proto_version = SK_PROTO_VERSION_2 then parse_v2 W
      else failE (Bail ''unsupported protocol version''))"

text \<open>\<open>size_of::<ProposerAcceptorMessage>()\<close> is the compiler's.\<close>

definition pa_message_size :: "nat \<Rightarrow> ProposerAcceptorMessage \<Rightarrow> nat" where
  "pa_message_size base_size m =
     base_size + (case m of PAppendRequest r \<Rightarrow> length (ar_wal_data r)
                          | PNoFlushAppendRequest r \<Rightarrow> length (ar_wal_data r) | _ \<Rightarrow> 0)"

section \<open>The safekeeper's serializer\<close>

definition put_cstr :: "bytes \<Rightarrow> bytes" where
  "put_cstr s = s @ [0]"

definition put_member :: "SafekeeperId \<Rightarrow> bytes" where
  "put_member sk = word_be 8 (sk_id sk) @ put_cstr (sk_host sk) @ word_be 2 (sk_pg_port sk)"

definition put_u32_len :: "'a list \<Rightarrow> bytes" where
  "put_u32_len xs = word_be 4 (word_of_nat (length xs) :: u32)"

definition serialize_mconf :: "Configuration \<Rightarrow> bytes" where
  "serialize_mconf c =
     word_be 4 (generation c) @ put_u32_len (ms_m (members c)) @ concat (map put_member (ms_m (members c))) @
     (case new_members c of
        Some nm \<Rightarrow> put_u32_len (ms_m nm) @ concat (map put_member (ms_m nm))
      | None \<Rightarrow> word_be 4 (0 :: u32))"

definition put_switch :: "TermLsn \<Rightarrow> bytes" where
  "put_switch e = word_be 8 (tl_term e) @ word_be 8 (tl_lsn e)"

definition put_switch_le :: "TermLsn \<Rightarrow> bytes" where
  "put_switch_le e = word_le 8 (tl_term e) @ word_le 8 (tl_lsn e)"

definition put_feedback :: "SystemTime \<Rightarrow> PageserverFeedback option \<Rightarrow> bytes res" where
  "put_feedback epoch f = (case f of None \<Rightarrow> Inr [] | Some f \<Rightarrow> pf_serialize epoch f)"

definition bool_u :: "bool \<Rightarrow> 'a::len word" where
  "bool_u b = (if b then 1 else 0)"

definition serialize_v3 :: "SystemTime \<Rightarrow> AcceptorProposerMessage \<Rightarrow> bytes res" where
  "serialize_v3 epoch m = (case m of
     AGreeting g \<Rightarrow> Inr (0x67 # word_be 8 (ag_node_id g) @ serialize_mconf (ag_mconf g) @ word_be 8 (ag_term g))
   | AVoteResponse v \<Rightarrow> Inr (0x76 # word_be 4 (vr_generation v) @ word_be 8 (vr_term v) @ [bool_u (vr_vote_given v)] @
       word_be 8 (vr_flush_lsn v) @ word_be 8 (vr_truncate_lsn v) @ put_u32_len (vr_term_history v) @
       concat (map put_switch (vr_term_history v)))
   | AAppendResponse a \<Rightarrow> map_res (\<lambda>f. 0x61 # word_be 4 (as_generation a) @ word_be 8 (as_term a) @
       word_be 8 (as_flush_lsn a) @ word_be 8 (as_commit_lsn a) @ word_be 8 (hs_ts (as_hs_feedback a)) @
       word_be 8 (hs_xmin (as_hs_feedback a)) @ word_be 8 (hs_catalog_xmin (as_hs_feedback a)) @ f)
       (put_feedback epoch (as_pageserver_feedback a)))"

definition serialize_v2 :: "SystemTime \<Rightarrow> AcceptorProposerMessage \<Rightarrow> bytes res" where
  "serialize_v2 epoch m = (case m of
     AGreeting g \<Rightarrow> Inr (word_le 8 (0x67 :: u64) @ word_le 8 (ag_term g) @ word_le 8 (ag_node_id g))
   | AVoteResponse v \<Rightarrow> Inr (word_le 8 (0x76 :: u64) @ word_le 8 (vr_term v) @ word_le 8 (bool_u (vr_vote_given v) :: u64) @
       word_le 8 (vr_flush_lsn v) @ word_le 8 (vr_truncate_lsn v) @ word_le 4 (word_of_nat (length (vr_term_history v)) :: u32) @
       concat (map put_switch_le (vr_term_history v)) @ word_le 8 (0 :: u64))
   | AAppendResponse a \<Rightarrow> map_res (\<lambda>f. word_le 8 (0x61 :: u64) @ word_le 8 (as_term a) @
       word_le 8 (as_flush_lsn a) @ word_le 8 (as_commit_lsn a) @ word_le 8 (hs_ts (as_hs_feedback a)) @
       word_le 8 (hs_xmin (as_hs_feedback a)) @ word_le 8 (hs_catalog_xmin (as_hs_feedback a)) @ f)
       (put_feedback epoch (as_pageserver_feedback a)))"

definition serialize :: "SystemTime \<Rightarrow> u32 \<Rightarrow> AcceptorProposerMessage \<Rightarrow> bytes res" where
  "serialize epoch proto_version m =
     (if proto_version = SK_PROTO_VERSION_3 then serialize_v3 epoch m
      else if proto_version = SK_PROTO_VERSION_2 then serialize_v2 epoch m
      else Inl (Bail ''unsupported protocol version''))"

section \<open>The proposer's serializer\<close>

definition MAXCONNINFO :: nat where "MAXCONNINFO = 1024"

record c_MembershipConfiguration =
  cm_generation :: Generation
  cm_members :: "SafekeeperId list"
  cm_new_members :: "SafekeeperId list"

text \<open>Identifiers are hex strings on this side.\<close>

record c_ProposerGreeting =
  cg_tenant_id :: bytes
  cg_timeline_id :: bytes
  cg_mconf :: c_MembershipConfiguration
  cg_pg_version :: u32
  cg_system_id :: u64
  cg_wal_seg_size :: u32

datatype c_ProposerAcceptorMessage =
    CGreeting c_ProposerGreeting
  | CVoteRequest VoteRequest
  | CElected ProposerElected
  | CAppendRequest AppendRequestHeader

definition c_send_member :: "SafekeeperId \<Rightarrow> bytes" where
  "c_send_member m = pq_sendint64 (sk_id m) @ pq_send_ascii_string (sk_host m) @ pq_sendint16 (sk_pg_port m)"

definition MembershipConfigurationSerialize :: "c_MembershipConfiguration \<Rightarrow> bytes" where
  "MembershipConfigurationSerialize mc =
     pq_sendint32 (cm_generation mc) @
     pq_sendint32 (word_of_nat (length (cm_members mc))) @ concat (map c_send_member (cm_members mc)) @
     pq_sendint32 (word_of_nat (length (cm_new_members mc))) @ concat (map c_send_member (cm_new_members mc))"

definition c_send_switch :: "TermLsn \<Rightarrow> bytes" where
  "c_send_switch e = pq_sendint64 (tl_term e) @ pq_sendint64 (tl_lsn e)"

definition c_send_switch_le :: "TermLsn \<Rightarrow> bytes" where
  "c_send_switch_le e = pq_sendint64_le (tl_term e) @ pq_sendint64_le (tl_lsn e)"

definition PAMessageSerialize_v3 :: "c_ProposerAcceptorMessage \<Rightarrow> bytes" where
  "PAMessageSerialize_v3 msg = (case msg of
     CGreeting m \<Rightarrow> pq_sendint8 0x67 @ pq_send_ascii_string (cg_tenant_id m) @ pq_send_ascii_string (cg_timeline_id m) @
       MembershipConfigurationSerialize (cg_mconf m) @ pq_sendint32 (cg_pg_version m) @ pq_sendint64 (cg_system_id m) @
       pq_sendint32 (cg_wal_seg_size m)
   | CVoteRequest m \<Rightarrow> pq_sendint8 0x76 @ pq_sendint32 (vq_generation m) @ pq_sendint64 (vq_term m)
   | CElected m \<Rightarrow> pq_sendint8 0x65 @ pq_sendint32 (pe_generation m) @ pq_sendint64 (pe_term m) @
       pq_sendint64 (pe_start_streaming_at m) @ pq_sendint32 (word_of_nat (length (pe_term_history m))) @
       concat (map c_send_switch (pe_term_history m))
   | CAppendRequest m \<Rightarrow> pq_sendint8 0x61 @ pq_sendint32 (ah_generation m) @ pq_sendint64 (ah_term m) @
       pq_sendint64 (ah_begin_lsn m) @ pq_sendint64 (ah_end_lsn m) @ pq_sendint64 (ah_commit_lsn m) @
       pq_sendint64 (ah_truncate_lsn m))"

text \<open>
  Version 2 sends structures as they lie in memory, here little-endian and without padding.
  An identifier given as the empty string leaves its 16 bytes uninitialised: \<open>stack\<close>.
\<close>

record c_config =
  cc_systemId :: u64
  cc_pgTimeline :: u32
  cc_wal_segment_size :: u32

definition hex_or_fatal :: "Id16 \<Rightarrow> bytes \<Rightarrow> string \<Rightarrow> Id16 res" where
  "hex_or_fatal stack s e =
     (if s = [] then Inr stack else case HexDecodeString s 16 of None \<Rightarrow> Inl (Panic e) | Some i \<Rightarrow> Inr i)"

definition PAMessageSerialize_v2 :: "c_config \<Rightarrow> Id16 \<Rightarrow> c_ProposerAcceptorMessage \<Rightarrow> bytes res" where
  "PAMessageSerialize_v2 cfg stack msg = (case msg of
     CGreeting m \<Rightarrow>
       bind_res (hex_or_fatal stack (cg_timeline_id m) ''could not parse neon.timeline_id'') (\<lambda>tl.
       map_res (\<lambda>ten. word_le 8 (0x67 :: u64) @ word_le 4 (2 :: u32) @ word_le 4 (cg_pg_version m) @ replicate 16 0 @
         word_le 8 (cc_systemId cfg) @ tl @ ten @ word_le 4 (cc_pgTimeline cfg) @ word_le 4 (cc_wal_segment_size cfg))
         (hex_or_fatal stack (cg_tenant_id m) ''could not parse neon.tenant_id''))
   | CVoteRequest m \<Rightarrow> Inr (word_le 8 (0x76 :: u64) @ word_le 8 (vq_term m) @ replicate 16 0)
   | CElected m \<Rightarrow> (case pe_term_history m of
        [] \<Rightarrow> Inl (Panic ''read past the end of an array'')
      | e # _ \<Rightarrow> Inr (pq_sendint64_le 0x65 @ pq_sendint64_le (pe_term m) @ pq_sendint64_le (pe_start_streaming_at m) @
          pq_sendint32_le (word_of_nat (length (pe_term_history m))) @ concat (map c_send_switch_le (pe_term_history m)) @
          pq_sendint64_le (tl_lsn e)))
   | CAppendRequest m \<Rightarrow> Inr (word_le 8 (0x61 :: u64) @ word_le 8 (ah_term m) @ word_le 8 (0 :: u64) @
       word_le 8 (ah_begin_lsn m) @ word_le 8 (ah_end_lsn m) @ word_le 8 (ah_commit_lsn m) @
       word_le 8 (ah_truncate_lsn m) @ replicate 16 0))"

definition PAMessageSerialize :: "c_config \<Rightarrow> Id16 \<Rightarrow> nat \<Rightarrow> c_ProposerAcceptorMessage \<Rightarrow> bytes res" where
  "PAMessageSerialize cfg stack proto_version msg =
     (if proto_version = 3 then Inr (PAMessageSerialize_v3 msg)
      else if proto_version = 2 then PAMessageSerialize_v2 cfg stack msg
      else Inl (Panic ''unexpected proto_version''))"

section \<open>The proposer's parser\<close>

record c_AcceptorGreeting =
  cag_nodeId :: NodeId
  cag_mconf :: c_MembershipConfiguration
  cag_term :: Term

record c_VoteResponse =
  cvr_generation :: Generation
  cvr_term :: Term
  cvr_voteGiven :: u8
  cvr_flushLsn :: lsn
  cvr_truncateLsn :: lsn
  cvr_termHistory :: TermHistory

record c_AppendResponse =
  car_generation :: Generation
  car_term :: Term
  car_flushLsn :: lsn
  car_commitLsn :: lsn
  car_hs :: HotStandbyFeedback
  car_ps_feedback :: c_PageserverFeedback

text \<open>The structure to fill in, with its tag; fields a version does not send keep their values.\<close>

datatype c_AcceptorProposerMessage =
    CAGreeting c_AcceptorGreeting
  | CAVoteResponse c_VoteResponse
  | CAAppendResponse c_AppendResponse

fun apm_tag :: "c_AcceptorProposerMessage \<Rightarrow> u8" where
  "apm_tag (CAGreeting _) = 0x67"
| "apm_tag (CAVoteResponse _) = 0x76"
| "apm_tag (CAAppendResponse _) = 0x61"

definition strlcpy :: "nat \<Rightarrow> bytes \<Rightarrow> bytes" where
  "strlcpy n s = take (n - 1) s"

definition c_get_member :: "(bytes, SafekeeperId) prog" where
  "c_get_member =
     bindE pq_getmsgint64 (\<lambda>i. bindE pq_getmsgrawstring (\<lambda>host. bindE pq_getmsgint16 (\<lambda>port.
     retE \<lparr>sk_id = i, sk_host = strlcpy MAXCONNINFO host, sk_pg_port = port\<rparr>)))"

text \<open>Lists of members are read for any announced length; the limit of \<open>palloc\<close> is not modelled.\<close>

definition MembershipConfigurationDeserialize :: "(bytes, c_MembershipConfiguration) prog" where
  "MembershipConfigurationDeserialize =
     bindE pq_getmsgint32 (\<lambda>gen.
     bindE pq_getmsgint32 (\<lambda>n. bindE (repeatE (unat n) c_get_member) (\<lambda>ms.
     bindE pq_getmsgint32 (\<lambda>k. bindE (repeatE (unat k) c_get_member) (\<lambda>nms.
     retE \<lparr>cm_generation = gen, cm_members = ms, cm_new_members = nms\<rparr>)))))"

definition c_get_switch :: "(bytes, TermLsn) prog" where
  "c_get_switch = bindE pq_getmsgint64 (\<lambda>t. bindE pq_getmsgint64 (\<lambda>l. retE \<lparr>tl_term = t, tl_lsn = l\<rparr>))"

definition c_get_switch_le :: "(bytes, TermLsn) prog" where
  "c_get_switch_le = bindE pq_getmsgint64_le (\<lambda>t. bindE pq_getmsgint64_le (\<lambda>l. retE \<lparr>tl_term = t, tl_lsn = l\<rparr>))"

text \<open>What is left of the message after the fixed part is feedback.\<close>

definition c_get_feedback :: "c_PageserverFeedback \<Rightarrow> (bytes, c_PageserverFeedback) prog" where
  "c_get_feedback old =
     bindE (getE (\<lambda>b. b \<noteq> [])) (\<lambda>more.
     if more then ParsePageserverFeedbackMessage else retE (old\<lparr>cpf_present := False\<rparr>))"

definition c_get_append :: "Generation \<Rightarrow> (bytes, u64) prog \<Rightarrow> c_AppendResponse \<Rightarrow> (bytes, c_AppendResponse) prog" where
  "c_get_append gen int64 old =
     bindE int64 (\<lambda>t. bindE int64 (\<lambda>fl. bindE int64 (\<lambda>cl. bindE int64 (\<lambda>ts. bindE int64 (\<lambda>xmin. bindE int64 (\<lambda>cxmin.
     bindE (c_get_feedback (car_ps_feedback old)) (\<lambda>f.
     thenE pq_getmsgend (retE
       \<lparr>car_generation = gen, car_term = t, car_flushLsn = fl, car_commitLsn = cl,
        car_hs = \<lparr>hs_ts = ts, hs_xmin = xmin, hs_catalog_xmin = cxmin\<rparr>, car_ps_feedback = f\<rparr>))))))))"

definition read_v3 :: "c_AcceptorProposerMessage \<Rightarrow> (bytes, c_AcceptorProposerMessage) prog" where
  "read_v3 anymsg = (case anymsg of
     CAGreeting _ \<Rightarrow>
       bindE pq_getmsgint64 (\<lambda>i. bindE MembershipConfigurationDeserialize (\<lambda>mc. bindE pq_getmsgint64 (\<lambda>t.
       thenE pq_getmsgend (retE (CAGreeting \<lparr>cag_nodeId = i, cag_mconf = mc, cag_term = t\<rparr>)))))
   | CAVoteResponse _ \<Rightarrow>
       bindE pq_getmsgint32 (\<lambda>gen. bindE pq_getmsgint64 (\<lambda>t. bindE pq_getmsgbyte (\<lambda>v.
       bindE pq_getmsgint64 (\<lambda>fl. bindE pq_getmsgint64 (\<lambda>tr. bindE pq_getmsgint32 (\<lambda>n.
       bindE (repeatE (unat n) c_get_switch) (\<lambda>th.
       thenE pq_getmsgend (retE (CAVoteResponse
         \<lparr>cvr_generation = gen, cvr_term = t, cvr_voteGiven = v, cvr_flushLsn = fl, cvr_truncateLsn = tr,
          cvr_termHistory = th\<rparr>)))))))))
   | CAAppendResponse old \<Rightarrow>
       bindE pq_getmsgint32 (\<lambda>gen. bindE (c_get_append gen pq_getmsgint64 old) (\<lambda>a. retE (CAAppendResponse a))))"

definition read_v2 :: "c_AcceptorProposerMessage \<Rightarrow> (bytes, c_AcceptorProposerMessage) prog" where
  "read_v2 anymsg = (case anymsg of
     CAGreeting old \<Rightarrow>
       bindE pq_getmsgint64_le (\<lambda>t. bindE pq_getmsgint64_le (\<lambda>i.
       thenE pq_getmsgend (retE (CAGreeting (old\<lparr>cag_nodeId := i, cag_term := t\<rparr>)))))
   | CAVoteResponse old \<Rightarrow>
       bindE pq_getmsgint64_le (\<lambda>t. bindE pq_getmsgint64_le (\<lambda>v.
       bindE pq_getmsgint64_le (\<lambda>fl. bindE pq_getmsgint64_le (\<lambda>tr. bindE pq_getmsgint32_le (\<lambda>n.
       bindE (repeatE (unat n) c_get_switch_le) (\<lambda>th.
       bindE pq_getmsgint64_le (\<lambda>_.
       thenE pq_getmsgend (retE (CAVoteResponse
         \<lparr>cvr_generation = cvr_generation old, cvr_term = t, cvr_voteGiven = ucast v, cvr_flushLsn = fl,
          cvr_truncateLsn = tr, cvr_termHistory = th\<rparr>)))))))))
   | CAAppendResponse old \<Rightarrow>
       bindE (c_get_append (car_generation old) pq_getmsgint64_le old) (\<lambda>a. retE (CAAppendResponse a)))"

text \<open>The message, or \<open>None\<close> when the tag is not the expected one and the connection is reset.\<close>

definition AsyncReadMessage ::
  "nat \<Rightarrow> c_AcceptorProposerMessage \<Rightarrow> (bytes, c_AcceptorProposerMessage option) prog" where
  "AsyncReadMessage proto_version anymsg =
     (if proto_version = 3 then
        bindE pq_getmsgbyte (\<lambda>tag. if tag \<noteq> apm_tag anymsg then retE None
          else bindE (read_v3 anymsg) (\<lambda>m. retE (Some m)))
      else if proto_version = 2 then
        bindE pq_getmsgint64_le (\<lambda>tag. if (ucast tag :: u8) \<noteq> apm_tag anymsg then retE None
          else bindE (read_v2 anymsg) (\<lambda>m. retE (Some m)))
      else failE (Panic ''unsupported proto_version''))"

section \<open>One side reads what the other wrote\<close>

definition host_ok :: "SafekeeperId \<Rightarrow> bool" where
  "host_ok m \<longleftrightarrow> 0 \<notin> set (sk_host m)"

definition ascii_member :: "SafekeeperId \<Rightarrow> SafekeeperId" where
  "ascii_member m = m\<lparr>sk_host := map ascii_char (sk_host m)\<rparr>"

definition short_member :: "SafekeeperId \<Rightarrow> SafekeeperId" where
  "short_member m = m\<lparr>sk_host := strlcpy MAXCONNINFO (sk_host m)\<rparr>"

interpretation prop_switch: wire_codec "\<lambda>_. True" c_send_switch id th_entry_f
  by unfold_locales (simp add: c_send_switch_def th_entry_f_def pq_sends reads)

interpretation prop_switch_le: wire_codec "\<lambda>_. True" c_send_switch_le id th_entry_le
  by unfold_locales (simp add: c_send_switch_le_def th_entry_le_def pq_sends reads)

interpretation sk_switch: wire_codec "\<lambda>_. True" put_switch id c_get_switch
  by unfold_locales (simp add: put_switch_def c_get_switch_def reads)

interpretation sk_switch_le: wire_codec "\<lambda>_. True" put_switch_le id c_get_switch_le
  by unfold_locales (simp add: put_switch_le_def c_get_switch_le_def reads)

interpretation sk_member: wire_codec host_ok put_member short_member c_get_member
  by unfold_locales (simp add: put_member_def put_cstr_def host_ok_def short_member_def c_get_member_def reads)

text \<open>Reading members into a set, for an encoding that keeps identities.\<close>

locale member_codec = wire_codec ok put img get_member
  for ok :: "SafekeeperId \<Rightarrow> bool" and put and img +
  assumes img_id: "sk_id (img m) = sk_id m"
begin

lemma get_members_put:
  "list_all ok xs \<Longrightarrow> distinct (map sk_id (ms_m ms) @ map sk_id xs) \<Longrightarrow>
   get_members (length xs) ms (concat (map put xs) @ r) = (Inr (ms\<lparr>ms_m := ms_m ms @ map img xs\<rparr>), r)"
proof (induction xs arbitrary: ms)
  case (Cons x xs)
  have "member_set_add (img x) ms = (Inr (), ms\<lparr>ms_m := ms_m ms @ [img x]\<rparr>)"
    using Cons.prems(2) by (auto simp: member_set_add_run member_set_contains_iff img_id)
  then show ?case using Cons.prems Cons.IH [of "ms\<lparr>ms_m := ms_m ms @ [img x]\<rparr>"] by (simp add: get_put img_id)
qed simp

end

interpretation prop_member: member_codec host_ok c_send_member ascii_member
proof
  show "get_member (c_send_member x @ r) = (Inr (ascii_member x), r)" if "host_ok x" for x r
    using that by (simp add: c_send_member_def host_ok_def ascii_member_def get_member_def pq_sends reads)
qed (simp add: ascii_member_def)

definition small_list :: "'a list \<Rightarrow> bool" where
  "small_list xs \<longleftrightarrow> length xs < 2 ^ 32"

lemma small_list_len [simp]:
  "small_list xs \<Longrightarrow> unat (word_of_nat (length xs) :: u32) = length xs"
  "small_list xs \<Longrightarrow> (word_of_nat (length xs) :: u32) = 0 \<longleftrightarrow> xs = []"
  by (simp_all add: small_list_def unat_of_nat take_bit_nat_eq_self word_unat_eq_iff)

subsection \<open>From the proposer to the safekeeper\<close>

definition c_mconf_ok :: "c_MembershipConfiguration \<Rightarrow> bool" where
  "c_mconf_ok mc \<longleftrightarrow>
     (cm_generation mc \<noteq> INVALID_GENERATION \<longrightarrow> cm_members mc \<noteq> []) \<and>
     list_all host_ok (cm_members mc) \<and> distinct (map sk_id (cm_members mc)) \<and> small_list (cm_members mc) \<and>
     list_all host_ok (cm_new_members mc) \<and> distinct (map sk_id (cm_new_members mc)) \<and> small_list (cm_new_members mc)"

definition mconf_of_c :: "c_MembershipConfiguration \<Rightarrow> Configuration" where
  "mconf_of_c mc =
     \<lparr>generation = cm_generation mc, members = \<lparr>ms_m = map ascii_member (cm_members mc)\<rparr>,
      new_members = if cm_new_members mc = [] then None else Some \<lparr>ms_m = map ascii_member (cm_new_members mc)\<rparr>\<rparr>"

lemma get_mconf_serialized [reads]:
  assumes "c_mconf_ok mc"
  shows "get_mconf (MembershipConfigurationSerialize mc @ r) = (Inr (mconf_of_c mc), r)"
proof -
  have ms: "get_members (length xs) member_set_empty (concat (map c_send_member xs) @ r') =
      (Inr \<lparr>ms_m = map ascii_member xs\<rparr>, r')" if "list_all host_ok xs" "distinct (map sk_id xs)" for xs r'
    using prop_member.get_members_put [of xs member_set_empty r'] that by (simp add: member_set_empty_def)
  have g: "cm_generation mc = INVALID_GENERATION \<or> cm_members mc \<noteq> []" using assms by (auto simp: c_mconf_ok_def)
  show ?thesis
    using assms
    by (cases "cm_new_members mc = []")
       (simp_all add: get_mconf_def MembershipConfigurationSerialize_def mconf_of_c_def c_mconf_ok_def pq_sends reads ms g)
qed

text \<open>
  An identifier as the proposer has it is the lower-case hex text of 16 bytes, which is how Neon
  prints them (the decoders take upper case too); \<open>hex_id\<close> reads it back.
  The safekeeper's hex library decodes what \<open>hex_encode\<close> prints.
\<close>

definition hex_id :: "bytes \<Rightarrow> Id16" where
  "hex_id s = (case HexDecodeString s 16 of Some i \<Rightarrow> i | None \<Rightarrow> [])"

definition is_hex_id :: "bytes \<Rightarrow> bool" where
  "is_hex_id s \<longleftrightarrow> length (hex_id s) = 16 \<and> s = hex_encode (hex_id s)"

lemma is_hex_id_encode: "length i = 16 \<Longrightarrow> is_hex_id (hex_encode i)"
  using HexDecodeString_encode [of i "[]"] by (simp add: is_hex_id_def hex_id_def)

definition hex_library :: "wire_env \<Rightarrow> bool" where
  "hex_library W \<longleftrightarrow> (\<forall>i. length i = 16 \<longrightarrow> we_hex W (hex_encode i) = Inr i)"

text \<open>The derived deserializers take the fields in order, little-endian and of fixed width.\<close>

definition v2_library :: "wire_env \<Rightarrow> bool" where
  "v2_library W \<longleftrightarrow>
     (\<forall>pv v pid sys tl ten tli seg r. length pid = 16 \<longrightarrow> length tl = 16 \<longrightarrow> length ten = 16 \<longrightarrow>
        we_greeting_v2 W (word_le 4 pv @ word_le 4 v @ pid @ word_le 8 sys @ tl @ ten @ word_le 4 tli @ word_le 4 seg @ r) =
          (Inr \<lparr>g2_protocol_version = pv, g2_pg_version = v, g2_proposer_id = pid, g2_system_id = sys,
                g2_timeline_id = tl, g2_tenant_id = ten, g2_tli = tli, g2_wal_seg_size = seg\<rparr>, r)) \<and>
     (\<forall>t r. we_vote_v2 W (word_le 8 t @ r) = (Inr t, r)) \<and>
     (\<forall>t ts b e c tr pid r. length pid = 16 \<longrightarrow>
        we_append_v2 W (word_le 8 t @ word_le 8 ts @ word_le 8 b @ word_le 8 e @ word_le 8 c @ word_le 8 tr @ pid @ r) =
          (Inr \<lparr>a2_term = t, a2_term_start_lsn = ts, a2_begin_lsn = b, a2_end_lsn = e, a2_commit_lsn = c,
                a2_truncate_lsn = tr, a2_proposer_uuid = pid\<rparr>, r))"

text \<open>The message the safekeeper gets, given the WAL the proposer appends to it.\<close>

fun message_of_c :: "bytes \<Rightarrow> c_ProposerAcceptorMessage \<Rightarrow> ProposerAcceptorMessage" where
  "message_of_c wal (CGreeting m) =
     PGreeting \<lparr>pg_tenant_id = hex_id (cg_tenant_id m), pg_timeline_id = hex_id (cg_timeline_id m),
       pg_mconf = mconf_of_c (cg_mconf m), pg_pg_version = cg_pg_version m, pg_system_id = cg_system_id m,
       pg_wal_seg_size = cg_wal_seg_size m\<rparr>"
| "message_of_c wal (CVoteRequest m) = PVoteRequest m"
| "message_of_c wal (CElected m) = PElected m"
| "message_of_c wal (CAppendRequest h) = PAppendRequest \<lparr>ar_h = h, ar_wal_data = wal\<rparr>"

text \<open>What the proposer sends: \<open>wal\<close> is empty except in an append request, where it fills the range.\<close>

fun sendable :: "bytes \<Rightarrow> c_ProposerAcceptorMessage \<Rightarrow> bool" where
  "sendable wal (CGreeting m) \<longleftrightarrow> wal = [] \<and> is_hex_id (cg_tenant_id m) \<and> is_hex_id (cg_timeline_id m) \<and>
     c_mconf_ok (cg_mconf m) \<and> from_full_pg_version (cg_pg_version m) = Inr (cg_pg_version m)"
| "sendable wal (CVoteRequest m) \<longleftrightarrow> wal = []"
| "sendable wal (CElected m) \<longleftrightarrow> wal = [] \<and> small_list (pe_term_history m) \<and> pe_term_history m \<noteq> []"
| "sendable wal (CAppendRequest h) \<longleftrightarrow> ah_begin_lsn h \<le> ah_end_lsn h \<and> length wal = unat (ah_end_lsn h - ah_begin_lsn h) \<and>
     length wal \<le> MAX_SEND_SIZE"

lemma append_rec_size_ok:
  "sendable wal (CAppendRequest h) \<Longrightarrow> append_rec_size h b = (Inr (length wal), b)"
  by (simp add: append_rec_size_def lsn_checked_sub_def checked_sub_def)

lemma hex_id_reads [reads]:
  assumes "is_hex_id s"
  shows "get_cstr (pq_send_ascii_string s @ r) = (Inr s, r)" and "hex_library W \<Longrightarrow> we_hex W s = Inr (hex_id s)"
    and "hex_or_fatal stack s e = Inr (hex_id s)" and "length (hex_id s) = 16"
proof -
  have s: "s = hex_encode (hex_id s)" and l: "length (hex_id s) = 16" using assms by (auto simp: is_hex_id_def)
  have "0 \<notin> set s" using hex_encode_chars [of 0 "hex_id s"] by (subst s) auto
  then show "get_cstr (pq_send_ascii_string s @ r) = (Inr s, r)"
    using get_cstr_ascii [of s r] ascii_hex_encode [of "hex_id s"] s by simp
  show "we_hex W s = Inr (hex_id s)" if "hex_library W"
    using that l s unfolding hex_library_def by metis
  have "s \<noteq> []" using l s by (auto simp: hex_encode_def)
  moreover have "HexDecodeString s 16 = Some (hex_id s)"
    using HexDecodeString_encode [of "hex_id s" "[]"] l s by simp
  ultimately show "hex_or_fatal stack s e = Inr (hex_id s)" by (simp add: hex_or_fatal_def)
qed (use assms in \<open>simp add: is_hex_id_def\<close>)

lemma th_from_bytes_reads [reads]:
  "small_list th \<Longrightarrow> th_from_bytes (word_be 4 (word_of_nat (length th) :: u32) @ concat (map c_send_switch th)) = (Inr th, [])"
  "small_list th \<Longrightarrow>
   th_from_bytes_le (word_le 4 (word_of_nat (length th) :: u32) @ concat (map c_send_switch_le th) @ r) = (Inr th, r)"
  using prop_switch.get_list_last [of th] prop_switch_le.get_list [of th r]
  by (simp_all add: th_from_bytes_def th_from_bytes_le_def reads)

lemma parse_v3_serialized:
  assumes "hex_library W" and "sendable wal m"
  shows "parse_v3 W (PAMessageSerialize_v3 m @ wal) = (Inr (message_of_c wal m), [])"
proof (cases m)
  case (CAppendRequest h)
  then show ?thesis using assms append_rec_size_ok [of wal h]
    by (cases h) (simp add: parse_v3_def PAMessageSerialize_v3_def pq_sends reads Let_def)
next
  case (CElected e)
  then show ?thesis using assms by (cases e) (simp add: parse_v3_def PAMessageSerialize_v3_def pq_sends reads)
qed (use assms in \<open>simp_all add: parse_v3_def PAMessageSerialize_v3_def pq_sends reads\<close>)

text \<open>In version 2 there is no membership, and identity fields come from the proposer's configuration.\<close>

fun no_generation :: "c_config \<Rightarrow> ProposerAcceptorMessage \<Rightarrow> ProposerAcceptorMessage" where
  "no_generation cfg (PGreeting g) = PGreeting (g\<lparr>pg_mconf := configuration_empty, pg_system_id := cc_systemId cfg,
     pg_wal_seg_size := cc_wal_segment_size cfg\<rparr>)"
| "no_generation cfg (PVoteRequest v) = PVoteRequest (v\<lparr>vq_generation := INVALID_GENERATION\<rparr>)"
| "no_generation cfg (PElected e) = PElected (e\<lparr>pe_generation := INVALID_GENERATION\<rparr>)"
| "no_generation cfg (PAppendRequest r) = PAppendRequest (r\<lparr>ar_h := (ar_h r)\<lparr>ah_generation := INVALID_GENERATION\<rparr>\<rparr>)"
| "no_generation cfg m = m"

lemma stream_read_u64_reads [reads]: "stream_read_u64 (word_le 8 x @ r) = (Inr x, r)"
  by (simp add: stream_read_u64_def reads)

lemma v2_libraryD:
  assumes "v2_library W"
  shows "length pid = 16 \<Longrightarrow> length tid = 16 \<Longrightarrow> length ten = 16 \<Longrightarrow>
      we_greeting_v2 W (word_le 4 pv @ word_le 4 v @ pid @ word_le 8 sys @ tid @ ten @ word_le 4 tli @ word_le 4 seg) =
        (Inr \<lparr>g2_protocol_version = pv, g2_pg_version = v, g2_proposer_id = pid, g2_system_id = sys,
              g2_timeline_id = tid, g2_tenant_id = ten, g2_tli = tli, g2_wal_seg_size = seg\<rparr>, [])"
    and "we_vote_v2 W (word_le 8 t @ r) = (Inr t, r)"
    and "length pid = 16 \<Longrightarrow>
      we_append_v2 W (word_le 8 t @ word_le 8 ts @ word_le 8 b @ word_le 8 e @ word_le 8 c @ word_le 8 tr @ pid @ r) =
        (Inr \<lparr>a2_term = t, a2_term_start_lsn = ts, a2_begin_lsn = b, a2_end_lsn = e, a2_commit_lsn = c,
              a2_truncate_lsn = tr, a2_proposer_uuid = pid\<rparr>, r)"
  using assms unfolding v2_library_def by (metis append_Nil2, blast, blast)

lemma parse_v2_serialized:
  assumes W: "v2_library W" and m: "sendable wal m" "PAMessageSerialize_v2 cfg stack m = Inr b"
  shows "\<exists>r. parse_v2 W (b @ wal) = (Inr (no_generation cfg (message_of_c wal m)), r)"
proof (cases m)
  case (CGreeting g)
  then show ?thesis using m
    by (cases g) (auto simp: parse_v2_def PAMessageSerialize_v2_def reads v2_libraryD [OF W] configuration_empty_def)
next
  case (CVoteRequest v)
  then show ?thesis using m
    by (cases v) (auto simp: parse_v2_def PAMessageSerialize_v2_def reads v2_libraryD [OF W])
next
  case (CElected e)
  have "b = word_le 8 (0x65 :: u64) @ word_le 8 (pe_term e) @ word_le 8 (pe_start_streaming_at e) @
      word_le 4 (word_of_nat (length (pe_term_history e)) :: u32) @
      concat (map c_send_switch_le (pe_term_history e)) @ word_le 8 (tl_lsn (hd (pe_term_history e)))"
    using m CElected by (auto simp: PAMessageSerialize_v2_def pq_sends split: list.splits)
  then show ?thesis using m CElected by (cases e) (auto simp: parse_v2_def reads)
next
  case (CAppendRequest h)
  have "append_rec_size (h\<lparr>ah_generation := INVALID_GENERATION\<rparr>) b = (Inr (length wal), b)" for b
    using CAppendRequest m(1) by (intro append_rec_size_ok) simp
  then show ?thesis using CAppendRequest m
    by (cases h) (auto simp: parse_v2_def PAMessageSerialize_v2_def reads v2_libraryD [OF W] Let_def)
qed

subsection \<open>From the safekeeper to the proposer\<close>

definition mconf_ok :: "Configuration \<Rightarrow> bool" where
  "mconf_ok c \<longleftrightarrow> list_all host_ok (ms_m (members c)) \<and> small_list (ms_m (members c)) \<and>
     (case new_members c of None \<Rightarrow> True | Some nm \<Rightarrow> list_all host_ok (ms_m nm) \<and> small_list (ms_m nm))"

definition c_mconf_of :: "Configuration \<Rightarrow> c_MembershipConfiguration" where
  "c_mconf_of c =
     \<lparr>cm_generation = generation c, cm_members = map short_member (ms_m (members c)),
      cm_new_members = (case new_members c of None \<Rightarrow> [] | Some nm \<Rightarrow> map short_member (ms_m nm))\<rparr>"

lemma mconf_deserialize [reads]:
  assumes "mconf_ok c"
  shows "MembershipConfigurationDeserialize (serialize_mconf c @ r) = (Inr (c_mconf_of c), r)"
  using assms sk_member.get_list
  by (auto simp: MembershipConfigurationDeserialize_def serialize_mconf_def c_mconf_of_def mconf_ok_def put_u32_len_def
      reads split: option.splits)

definition response_ok :: "SystemTime \<Rightarrow> AcceptorProposerMessage \<Rightarrow> bool" where
  "response_ok epoch m = (case m of
     AGreeting g \<Rightarrow> mconf_ok (ag_mconf g)
   | AVoteResponse v \<Rightarrow> small_list (vr_term_history v)
   | AAppendResponse a \<Rightarrow> (case as_pageserver_feedback a of None \<Rightarrow> True | Some f \<Rightarrow> pf_times_ok epoch f))"

text \<open>The structure the proposer holds after reading a message into \<open>old\<close>.\<close>

fun c_response :: "SystemTime \<Rightarrow> c_AcceptorProposerMessage \<Rightarrow> AcceptorProposerMessage \<Rightarrow> c_AcceptorProposerMessage option" where
  "c_response epoch (CAGreeting old) (AGreeting g) =
     Some (CAGreeting \<lparr>cag_nodeId = ag_node_id g, cag_mconf = c_mconf_of (ag_mconf g), cag_term = ag_term g\<rparr>)"
| "c_response epoch (CAVoteResponse old) (AVoteResponse v) =
     Some (CAVoteResponse \<lparr>cvr_generation = vr_generation v, cvr_term = vr_term v,
       cvr_voteGiven = bool_u (vr_vote_given v), cvr_flushLsn = vr_flush_lsn v, cvr_truncateLsn = vr_truncate_lsn v,
       cvr_termHistory = vr_term_history v\<rparr>)"
| "c_response epoch (CAAppendResponse old) (AAppendResponse a) =
     Some (CAAppendResponse \<lparr>car_generation = as_generation a, car_term = as_term a, car_flushLsn = as_flush_lsn a,
       car_commitLsn = as_commit_lsn a, car_hs = as_hs_feedback a,
       car_ps_feedback = (case as_pageserver_feedback a of None \<Rightarrow> (car_ps_feedback old)\<lparr>cpf_present := False\<rparr>
                          | Some f \<Rightarrow> c_feedback_of epoch f)\<rparr>)"
| "c_response epoch _ _ = None"

text \<open>In version 2 the fields of membership keep their old values.\<close>

fun keep_generation :: "c_AcceptorProposerMessage \<Rightarrow> c_AcceptorProposerMessage \<Rightarrow> c_AcceptorProposerMessage" where
  "keep_generation (CAGreeting old) (CAGreeting g) = CAGreeting (g\<lparr>cag_mconf := cag_mconf old\<rparr>)"
| "keep_generation (CAVoteResponse old) (CAVoteResponse v) = CAVoteResponse (v\<lparr>cvr_generation := cvr_generation old\<rparr>)"
| "keep_generation (CAAppendResponse old) (CAAppendResponse a) = CAAppendResponse (a\<lparr>car_generation := car_generation old\<rparr>)"
| "keep_generation _ m = m"

lemma c_get_feedback_reads [reads]:
  assumes "case fo of None \<Rightarrow> True | Some f \<Rightarrow> pf_times_ok epoch f" and "put_feedback epoch fo = Inr b"
  shows "c_get_feedback old b =
     (Inr (case fo of None \<Rightarrow> old\<lparr>cpf_present := False\<rparr> | Some f \<Rightarrow> c_feedback_of epoch f), [])"
proof (cases fo)
  case (Some f)
  then show ?thesis using assms c_feedback_reads [of epoch f] by (auto simp: put_feedback_def c_get_feedback_def)
qed (use assms in \<open>simp add: put_feedback_def c_get_feedback_def bindE_def\<close>)

lemma read_v3_serialized:
  assumes ok: "response_ok epoch m" and ser: "serialize_v3 epoch m = Inr b" and c: "c_response epoch old m = Some c"
  shows "\<exists>r. b = apm_tag old # r \<and> read_v3 old r = (Inr c, [])"
proof (cases m)
  case (AGreeting g)
  then show ?thesis using assms
    by (cases old) (auto simp: serialize_v3_def read_v3_def response_ok_def reads)
next
  case (AVoteResponse v)
  then show ?thesis using assms sk_switch.get_list_last [of "vr_term_history v"]
    by (cases old) (auto simp: serialize_v3_def read_v3_def response_ok_def put_u32_len_def reads)
next
  case (AAppendResponse a)
  obtain f where f: "put_feedback epoch (as_pageserver_feedback a) = Inr f"
    using ser AAppendResponse by (auto simp: serialize_v3_def map_res_Inr)
  show ?thesis
    using AAppendResponse assms f c_get_feedback_reads [OF _ f]
    by (cases old; cases "as_hs_feedback a") (auto simp: serialize_v3_def read_v3_def response_ok_def c_get_append_def reads)
qed

lemma read_v2_serialized:
  assumes ok: "response_ok epoch m" and ser: "serialize_v2 epoch m = Inr b" and c: "c_response epoch old m = Some c"
  shows "\<exists>r. b = word_le 8 (ucast (apm_tag old) :: u64) @ r \<and> read_v2 old r = (Inr (keep_generation old c), [])"
proof (cases m)
  case (AGreeting g)
  then show ?thesis using assms
    by (cases old) (auto simp: serialize_v2_def read_v2_def response_ok_def reads)
next
  case (AVoteResponse v)
  have "(ucast (bool_u x :: u64) :: u8) = bool_u x" for x by (simp add: bool_u_def)
  then show ?thesis using AVoteResponse assms sk_switch_le.get_list [of "vr_term_history v"]
    by (cases old) (auto simp: serialize_v2_def read_v2_def response_ok_def reads)
next
  case (AAppendResponse a)
  obtain f where f: "put_feedback epoch (as_pageserver_feedback a) = Inr f"
    using ser AAppendResponse by (auto simp: serialize_v2_def map_res_Inr)
  show ?thesis
    using AAppendResponse assms f c_get_feedback_reads [OF _ f]
    by (cases old; cases "as_hs_feedback a") (auto simp: serialize_v2_def read_v2_def response_ok_def c_get_append_def reads)
qed

section \<open>Any input\<close>

text \<open>
  Errors that are no panics, except where \<open>v\<close> allows it the one of an unsupported Postgres version.
\<close>

definition parse_error :: "bool \<Rightarrow> err \<Rightarrow> bool" where
  "parse_error v e \<longleftrightarrow> (\<forall>msg. e \<noteq> Panic msg) \<or> v \<and> e = Panic ''Invalid full PostgreSQL version ID''"

definition reads_ok :: "bool \<Rightarrow> (bytes, 'a) prog \<Rightarrow> ('a \<Rightarrow> bool) \<Rightarrow> bool" where
  "reads_ok v m Q \<longleftrightarrow> (\<forall>s. wp m (\<lambda>x _. Q x) (\<lambda>e _. parse_error v e) s)"

named_theorems reads_ok_intros \<open>composition of checked readers\<close>

lemma reads_okI: "(\<And>s. wp m (\<lambda>x _. Q x) (\<lambda>e _. parse_error v e) s) \<Longrightarrow> reads_ok v m Q"
  by (simp add: reads_ok_def)

lemma reads_ok_bindE [reads_ok_intros]:
  "reads_ok v m R \<Longrightarrow> (\<And>x. R x \<Longrightarrow> reads_ok v (f x) Q) \<Longrightarrow> reads_ok v (bindE m f) Q"
  unfolding reads_ok_def wp_bindE by (blast intro: wp_mono)

lemma reads_ok_thenE [reads_ok_intros]:
  "reads_ok v m R \<Longrightarrow> (\<And>x. R x \<Longrightarrow> reads_ok v k Q) \<Longrightarrow> reads_ok v (thenE m k) Q"
  unfolding thenE_def by (rule reads_ok_bindE)

lemma reads_ok_basic [reads_ok_intros]:
  "Q x \<Longrightarrow> reads_ok v (retE x) Q" "reads_ok v (failE (Bail e)) Q"
  "reads_ok v (remaining_atleast n e) (\<lambda>_. True)" "reads_ok v (getE g) (\<lambda>_. True)"
  by (simp_all add: reads_ok_def wp_def parse_error_def)

lemma reads_ok_guardE [reads_ok_intros]: "reads_ok v (guardE c (Bail e)) (\<lambda>_. c)"
  by (simp add: reads_ok_def wp_simps parse_error_def)

lemma reads_ok_liftR [reads_ok_intros]:
  "(\<And>e. r = Inl e \<Longrightarrow> parse_error v e) \<Longrightarrow> reads_ok v (liftR r) (\<lambda>x. r = Inr x)"
  by (simp add: reads_ok_def wp_simps split: sum.splits)

lemma reads_ok_if [reads_ok_intros]:
  "(c \<Longrightarrow> reads_ok v m Q) \<Longrightarrow> (\<not> c \<Longrightarrow> reads_ok v k Q) \<Longrightarrow> reads_ok v (if c then m else k) Q"
  by simp

lemma reads_ok_repeatE [reads_ok_intros]: "reads_ok v m Q \<Longrightarrow> reads_ok v (repeatE n m) (list_all Q)"
proof (induction n)
  case (Suc n)
  show ?case unfolding repeatE.simps
    by (rule reads_ok_bindE [OF Suc.prems], rule reads_ok_bindE [OF Suc.IH [OF Suc.prems]]) (simp add: reads_ok_intros)
qed (simp add: reads_ok_intros)

lemma reads_ok_get_f [reads_ok_intros]:
  "reads_ok v get_u8_f (\<lambda>_. True)" "reads_ok v get_u16_f (\<lambda>_. True)"
  "reads_ok v get_u32_f (\<lambda>_. True)" "reads_ok v get_u64_f (\<lambda>_. True)"
  by (auto simp: reads_ok_def wp_def get_u8_f_def get_u16_f_def get_u32_f_def get_u64_f_def get_u8_def get_u16_def
      get_u32_def get_u64_def thenE_def bindE_def split_to_def parse_error_def)

definition cstr_ok :: "bytes \<Rightarrow> bool" where
  "cstr_ok s \<longleftrightarrow> utf8_valid s \<and> 0 \<notin> set s"

lemma read_cstr_run:
  "read_cstr s = (let t = takeWhile (\<lambda>x. x \<noteq> 0) s in
     if length t < length s then (Inr t, drop (Suc (length t)) s) else (Inl (Bail ''missing cstring terminator''), s))"
proof (cases "length (takeWhile (\<lambda>x. x \<noteq> 0) s) < length s")
  case True
  let ?t = "takeWhile (\<lambda>x. x \<noteq> 0) s"
  have "split_to (length ?t) s = (Inr ?t, drop (length ?t) s)"
    using length_takeWhile_le [of _ s] by (simp add: split_to_def not_less takeWhile_eq_take [symmetric])
  moreover have "split_to 1 (drop (length ?t) s) = (Inr (take 1 (drop (length ?t) s)), drop (Suc (length ?t)) s)"
    using True by (simp add: split_to_def)
  ultimately show ?thesis using True by (simp add: read_cstr_def Let_def del: One_nat_def)
qed (simp add: read_cstr_def Let_def)

lemma reads_ok_get_cstr [reads_ok_intros]: "reads_ok v get_cstr cstr_ok"
proof (rule reads_okI)
  fix s :: bytes
  have "0 \<notin> set (takeWhile (\<lambda>x. x \<noteq> 0) s)" by (metis (full_types) set_takeWhileD)
  then show "wp get_cstr (\<lambda>x _. cstr_ok x) (\<lambda>e _. parse_error v e) s"
    by (simp add: wp_def get_cstr_def bindE_def thenE_def read_cstr_run Let_def parse_error_def cstr_ok_def)
qed

definition member_ok :: "SafekeeperId \<Rightarrow> bool" where
  "member_ok m \<longleftrightarrow> cstr_ok (sk_host m)"

lemma reads_ok_get_member [reads_ok_intros]: "reads_ok v get_member member_ok"
  unfolding get_member_def by (rule reads_ok_intros | simp add: member_ok_def)+

definition set_wf :: "MemberSet \<Rightarrow> bool" where
  "set_wf ms \<longleftrightarrow> member_set_ok ms \<and> list_all member_ok (ms_m ms)"

lemma reads_ok_get_members [reads_ok_intros]:
  "set_wf ms \<Longrightarrow> reads_ok v (get_members n ms) (\<lambda>ms'. set_wf ms' \<and> length (ms_m ms') = length (ms_m ms) + n)"
proof (induction n arbitrary: ms)
  case (Suc n)
  have "reads_ok v (case member_set_add sk ms of (Inl e, _) \<Rightarrow> failE e | (Inr _, ms') \<Rightarrow> get_members n ms')
      (\<lambda>ms'. set_wf ms' \<and> length (ms_m ms') = length (ms_m ms) + Suc n)" if "member_ok sk" for sk
  proof (cases "member_set_contains ms (sk_id sk)")
    case False
    then have "set_wf (ms\<lparr>ms_m := ms_m ms @ [sk]\<rparr>)"
      using Suc.prems that by (simp add: set_wf_def member_set_ok_def member_set_contains_iff)
    from Suc.IH [OF this] False show ?thesis by (simp add: member_set_add_run)
  qed (simp add: member_set_add_run reads_ok_intros)
  then show ?case by (auto intro: reads_ok_intros)
qed (simp add: reads_ok_intros)

definition mconf_wf :: "Configuration \<Rightarrow> bool" where
  "mconf_wf c \<longleftrightarrow> set_wf (members c) \<and> (generation c \<noteq> INVALID_GENERATION \<longrightarrow> ms_m (members c) \<noteq> []) \<and>
     (case new_members c of None \<Rightarrow> True | Some nm \<Rightarrow> set_wf nm \<and> ms_m nm \<noteq> [])"

lemma reads_ok_get_mconf [reads_ok_intros]: "reads_ok v get_mconf mconf_wf"
proof -
  have e: "set_wf member_set_empty" by (simp add: set_wf_def member_set_empty_def member_set_ok_def)
  show ?thesis
    unfolding get_mconf_def
    by (rule reads_ok_intros e | (force simp: mconf_wf_def member_set_empty_def unat_eq_zero))+
qed

definition append_wf :: "AppendRequest \<Rightarrow> bool" where
  "append_wf r \<longleftrightarrow> ah_begin_lsn (ar_h r) \<le> ah_end_lsn (ar_h r) \<and>
     length (ar_wal_data r) = unat (ah_end_lsn (ar_h r)) - unat (ah_begin_lsn (ar_h r)) \<and>
     length (ar_wal_data r) \<le> MAX_SEND_SIZE"

fun message_wf :: "ProposerAcceptorMessage \<Rightarrow> bool" where
  "message_wf (PGreeting g) \<longleftrightarrow> mconf_wf (pg_mconf g) \<and> from_full_pg_version (pg_pg_version g) = Inr (pg_pg_version g)"
| "message_wf (PVoteRequest _) \<longleftrightarrow> True"
| "message_wf (PElected _) \<longleftrightarrow> True"
| "message_wf (PAppendRequest r) \<longleftrightarrow> append_wf r"
| "message_wf (PNoFlushAppendRequest _) \<longleftrightarrow> False"
| "message_wf PFlushWAL \<longleftrightarrow> False"

lemma reads_ok_rec_size [reads_ok_intros]:
  "reads_ok v (append_rec_size h) (\<lambda>n. ah_begin_lsn h \<le> ah_end_lsn h \<and> n = unat (ah_end_lsn h) - unat (ah_begin_lsn h) \<and> n \<le> MAX_SEND_SIZE)"
  by (auto simp: append_rec_size_def lsn_checked_sub_def checked_sub_def unat_sub reads_ok_def wp_simps parse_error_def
      split: option.splits)

lemma reads_ok_wal [reads_ok_intros]:
  "(\<And>wal. length wal = n \<Longrightarrow> Q (f wal)) \<Longrightarrow>
   reads_ok v (thenE (remaining_atleast n e) (bindE (split_to n) (\<lambda>wal. retE (f wal)))) Q"
  by (auto simp: reads_ok_def wp_def thenE_def bindE_def split_to_def parse_error_def)

lemma version_error: "from_full_pg_version n = Inl e \<Longrightarrow> parse_error True e" "from_full_pg_version n = Inr w \<Longrightarrow> w = n"
  by (auto simp: from_full_pg_version_def parse_error_def split: if_splits)

lemma reads_ok_th [reads_ok_intros]: "reads_ok v th_from_bytes (\<lambda>_. True)"
proof -
  have "reads_ok v th_entry_f (\<lambda>_. True)" unfolding th_entry_f_def by (rule reads_ok_intros | simp)+
  from reads_ok_repeatE [OF this] have "reads_ok v (repeatE n th_entry_f) (\<lambda>_. True)" for n by (simp add: reads_ok_def)
  then show ?thesis unfolding th_from_bytes_def by (rule reads_ok_bindE [OF reads_ok_get_f(3)])
qed

lemma reads_ok_parse_v3:
  assumes "\<And>s e. we_hex W s = Inl e \<Longrightarrow> parse_error True e"
  shows "reads_ok True (parse_v3 W) message_wf"
  unfolding parse_v3_def Let_def
  by (rule reads_ok_wal reads_ok_intros | erule assms version_error | (simp add: append_wf_def version_error(2); fail)
      | (frule version_error(2), simp; fail))+

text \<open>Only a greeting carries a Postgres version.\<close>

lemma parse_v3_other_tag:
  assumes "\<nexists>r. b = 0x67 # r"
  shows "wp (parse_v3 W) (\<lambda>x _. message_wf x) (\<lambda>e _. parse_error False e) b"
proof (cases b)
  case Nil
  then show ?thesis by (simp add: parse_v3_def wp_def thenE_def bindE_def parse_error_def)
next
  case (Cons t r)
  then have t: "t \<noteq> 0x67" using assms by blast
  have g: "get_u8_f (t # r) = (Inr t, r)" by (simp add: reads)
  have a: "remaining_atleast 1 e (t # r) = (Inr (), t # r)" for e by simp
  have run: "wp (remaining_atleast 1 e) Q E (t # r) \<longleftrightarrow> Q () (t # r)" "wp get_u8_f Q' E (t # r) \<longleftrightarrow> Q' t r" for e Q Q' E
    using a g by (simp_all add: wp_def)
  have D: "reads_ok False m message_wf \<Longrightarrow> wp m (\<lambda>x _. message_wf x) (\<lambda>e _. parse_error False e) r" for m
    by (simp add: reads_ok_def)
  show ?thesis
    unfolding Cons parse_v3_def Let_def wp_thenE wp_bindE [of get_u8_f] run if_not_P [OF t]
    by (rule D) (rule reads_ok_wal reads_ok_intros | (simp add: append_wf_def; fail))+
qed

section \<open>Properties\<close>

text \<open>C21: The safekeeper understands the proposer: for every message the proposer sends, with
  the WAL it appends, the C serializer succeeds and the Rust parser returns that message; in
  version 3 exactly (host names with non-ASCII characters replaced, the whole buffer consumed), in
  version 2 without the membership generation and with the server fields of the configuration.\<close>

theorem proposer_message_parsed:
  assumes "hex_library W" and "v2_library W" and "sendable wal m"
  shows "(\<exists>b. PAMessageSerialize cfg stack 3 m = Inr b \<and> parse W 3 (b @ wal) = (Inr (message_of_c wal m), [])) \<and>
     (\<exists>b r. PAMessageSerialize cfg stack 2 m = Inr b \<and>
        parse W 2 (b @ wal) = (Inr (no_generation cfg (message_of_c wal m)), r))"
proof -
  have "\<exists>b. PAMessageSerialize_v2 cfg stack m = Inr b"
    using assms(3) by (cases m) (auto simp: PAMessageSerialize_v2_def reads split: list.splits)
  then show ?thesis
    using parse_v3_serialized [OF assms(1,3)] parse_v2_serialized [OF assms(2,3)]
    by (auto simp: PAMessageSerialize_def parse_def SK_PROTO_VERSION_2_def SK_PROTO_VERSION_3_def)
qed

text \<open>A library that meets the hypotheses.\<close>

definition sample_wire :: wire_env where
  "sample_wire =
     \<lparr>we_hex = (\<lambda>s. case HexDecodeString s 16 of None \<Rightarrow> Inl (Bail ''hex'') | Some i \<Rightarrow> Inr i),
      we_greeting_v2 =
        bindE get_u32_le (\<lambda>pv. bindE get_u32_le (\<lambda>v. bindE (split_to 16) (\<lambda>pid. bindE get_u64_le (\<lambda>sys.
        bindE (split_to 16) (\<lambda>tid. bindE (split_to 16) (\<lambda>ten. bindE get_u32_le (\<lambda>tli. bindE get_u32_le (\<lambda>seg.
        retE \<lparr>g2_protocol_version = pv, g2_pg_version = v, g2_proposer_id = pid, g2_system_id = sys,
              g2_timeline_id = tid, g2_tenant_id = ten, g2_tli = tli, g2_wal_seg_size = seg\<rparr>)))))))),
      we_vote_v2 = get_u64_le,
      we_append_v2 =
        bindE get_u64_le (\<lambda>t. bindE get_u64_le (\<lambda>ts. bindE get_u64_le (\<lambda>b. bindE get_u64_le (\<lambda>e.
        bindE get_u64_le (\<lambda>c. bindE get_u64_le (\<lambda>tr. bindE (split_to 16) (\<lambda>pid.
        retE \<lparr>a2_term = t, a2_term_start_lsn = ts, a2_begin_lsn = b, a2_end_lsn = e, a2_commit_lsn = c,
              a2_truncate_lsn = tr, a2_proposer_uuid = pid\<rparr>)))))))\<rparr>"

lemma sample_wire_library: "hex_library sample_wire" "v2_library sample_wire"
  using HexDecodeString_encode [of _ "[]"]
  by (auto simp: hex_library_def v2_library_def sample_wire_def reads) (metis option.simps(5))

definition sample_config :: c_config where
  "sample_config = \<lparr>cc_systemId = 7, cc_pgTimeline = 1, cc_wal_segment_size = 0x1000000\<rparr>"

definition sample_elected :: ProposerElected where
  "sample_elected =
     \<lparr>pe_generation = 1, pe_term = 2, pe_start_streaming_at = 0x1000010,
      pe_term_history = [\<lparr>tl_term = 1, tl_lsn = 0x1000000\<rparr>, \<lparr>tl_term = 2, tl_lsn = 0x1000010\<rparr>]\<rparr>"

theorem proposer_message_parsed_witness:
  "(\<exists>b. PAMessageSerialize sample_config [] 3 (CElected sample_elected) = Inr b \<and>
      parse sample_wire 3 b = (Inr (PElected sample_elected), [])) \<and>
   (\<exists>b r. PAMessageSerialize sample_config [] 2 (CElected sample_elected) = Inr b \<and>
      parse sample_wire 2 b = (Inr (PElected (sample_elected\<lparr>pe_generation := 0\<rparr>)), r))"
  using proposer_message_parsed [OF sample_wire_library, of "[]" "CElected sample_elected" sample_config "[]"]
  by (simp add: sample_elected_def small_list_def INVALID_GENERATION_def)

text \<open>C22: The proposer understands the safekeeper: a message the Rust serializer writes is read by
  the C parser into the structure that expects its kind, all of it, in both protocol versions;
  fields a version does not carry keep their values, feedback is present exactly when it was sent,
  and a message of another kind than the expected one is refused.\<close>

theorem acceptor_message_read:
  assumes "response_ok epoch m"
  shows "(case c_response epoch old m of
      Some c \<Rightarrow>
        (\<exists>b. serialize epoch 3 m = Inr b \<and> AsyncReadMessage 3 old b = (Inr (Some c), [])) \<and>
        (\<exists>b. serialize epoch 2 m = Inr b \<and> AsyncReadMessage 2 old b = (Inr (Some (keep_generation old c)), []))
    | None \<Rightarrow>
        (\<exists>b r. serialize epoch 3 m = Inr b \<and> AsyncReadMessage 3 old b = (Inr None, r)) \<and>
        (\<exists>b r. serialize epoch 2 m = Inr b \<and> AsyncReadMessage 2 old b = (Inr None, r)))"
proof -
  have "\<exists>b. put_feedback epoch (as_pageserver_feedback a) = Inr b" if "m = AAppendResponse a" for a
    using assms that pf_serialize_ok(1) by (auto simp: response_ok_def put_feedback_def split: option.splits)
  then obtain b3 b2 where b: "serialize_v3 epoch m = Inr b3" "serialize_v2 epoch m = Inr b2"
    by (cases m) (auto simp: serialize_v3_def serialize_v2_def)
  show ?thesis
  proof (cases "c_response epoch old m")
    case None
    then have "\<exists>t r. b3 = t # r \<and> t \<noteq> apm_tag old"
      using b(1) by (cases m; cases old) (auto simp: serialize_v3_def map_res_Inr)
    moreover have "\<exists>t r. b2 = word_le 8 (t :: u64) @ r \<and> (ucast t :: u8) \<noteq> apm_tag old"
      using None b(2) by (cases m; cases old) (auto simp: serialize_v2_def map_res_Inr intro!: exI)
    ultimately show ?thesis
      using None b by (auto simp: serialize_def SK_PROTO_VERSION_2_def SK_PROTO_VERSION_3_def AsyncReadMessage_def reads)
  next
    case (Some c)
    have "(ucast (ucast (apm_tag old) :: u64) :: u8) = apm_tag old" by (cases old) simp_all
    then show ?thesis
      using Some read_v3_serialized [OF assms b(1) Some] read_v2_serialized [OF assms b(2) Some] b
      by (auto simp: serialize_def SK_PROTO_VERSION_2_def SK_PROTO_VERSION_3_def AsyncReadMessage_def reads)
  qed
qed

definition sample_response :: AppendResponse where
  "sample_response =
     \<lparr>as_generation = 1, as_term = 2, as_flush_lsn = 0x1000100, as_commit_lsn = 0x1000010, as_hs_feedback = hs_empty,
      as_pageserver_feedback = Some sample_feedback\<rparr>"

definition sample_c_response :: c_AppendResponse where
  "sample_c_response =
     \<lparr>car_generation = 0, car_term = 0, car_flushLsn = 0, car_commitLsn = 0, car_hs = hs_empty, car_ps_feedback = c_feedback_zero\<rparr>"

theorem acceptor_message_read_witness:
  "(\<exists>b. serialize 946684800000000000 3 (AAppendResponse sample_response) = Inr b \<and>
      AsyncReadMessage 3 (CAAppendResponse sample_c_response) b =
        (Inr (Some (CAAppendResponse \<lparr>car_generation = 1, car_term = 2, car_flushLsn = 0x1000100, car_commitLsn = 0x1000010,
           car_hs = hs_empty, car_ps_feedback = c_feedback_of 946684800000000000 sample_feedback\<rparr>)), []))"
  using acceptor_message_read [of 946684800000000000 "AAppendResponse sample_response" "CAAppendResponse sample_c_response"]
  by (simp add: response_ok_def sample_response_def pf_times_ok_def whole_micros_def sample_feedback_def)

text \<open>C23: Whatever bytes arrive, the version 3 parser returns a well-formed message, or an error, or, for
  a greeting only, panics over its Postgres version. In a well-formed message member sets have no
  duplicate identities and valid UTF-8 host names, the main set is not empty once there is a
  generation, the Postgres version is supported, and WAL has exactly the announced size, at most
  \<open>MAX_SEND_SIZE\<close> bytes. In particular the parser never reads past the end of the buffer, which
  would panic. The hex library is taken not to panic.\<close>

theorem parse_checked:
  assumes "\<forall>s msg. we_hex W s \<noteq> Inl (Panic msg)"
  shows "case fst (parse W 3 b) of
      Inr m \<Rightarrow> message_wf m
    | Inl (Panic msg) \<Rightarrow> msg = ''Invalid full PostgreSQL version ID'' \<and> (\<exists>r. b = 0x67 # r)
    | Inl _ \<Rightarrow> True"
proof -
  obtain r s where rs: "parse_v3 W b = (r, s)" by fastforce
  have "wp (parse_v3 W) (\<lambda>x _. message_wf x) (\<lambda>e _. parse_error (\<exists>r. b = 0x67 # r) e) b"
    using reads_ok_parse_v3 [of W] parse_v3_other_tag [of b W] assms
    by (cases "\<exists>r. b = 0x67 # r") (auto simp: reads_ok_def parse_error_def)
  from wp_runD [OF this rs] show ?thesis
    using rs by (auto simp: parse_def SK_PROTO_VERSION_3_def parse_error_def split: sum.splits err.splits)
qed

definition sample_append :: AppendRequestHeader where
  "sample_append = \<lparr>ah_generation = 1, ah_term = 2, ah_begin_lsn = 0x1000010, ah_end_lsn = 0x1000013, ah_commit_lsn = 0, ah_truncate_lsn = 0\<rparr>"

theorem parse_checked_witness:
  "(\<exists>m. fst (parse sample_wire 3 (PAMessageSerialize_v3 (CAppendRequest sample_append) @ [1, 2, 3])) = Inr m \<and> message_wf m) \<and>
   (\<forall>msg. fst (parse sample_wire 3 (PAMessageSerialize_v3 (CAppendRequest sample_append) @ [1, 2])) \<noteq> Inl (Panic msg))"
proof -
  let ?b = "\<lambda>wal. PAMessageSerialize_v3 (CAppendRequest sample_append) @ wal"
  have h: "\<forall>s msg. we_hex sample_wire s \<noteq> Inl (Panic msg)" by (simp add: sample_wire_def split: option.splits)
  have t: "\<nexists>r. ?b wal = 0x67 # r" for wal by (simp add: PAMessageSerialize_v3_def pq_sends)
  have "\<exists>m. fst (parse sample_wire 3 (?b [1, 2, 3])) = Inr m"
    using parse_v3_serialized [OF sample_wire_library(1), of "[1, 2, 3]" "CAppendRequest sample_append"]
    by (simp add: sample_append_def parse_def SK_PROTO_VERSION_3_def MAX_SEND_SIZE_def)
  then show ?thesis
    using parse_checked [OF h, of "?b [1, 2, 3]"] parse_checked [OF h, of "?b [1, 2]"] t [of "[1, 2]"]
    by (auto split: sum.splits err.splits)
qed

text \<open>C24: A version 3 greeting with a nonzero Postgres version outside the supported range does not
  yield an error of the parser but a panic.\<close>

theorem parse_version_panics:
  assumes "hex_library W" and "is_hex_id (cg_tenant_id m)" and "is_hex_id (cg_timeline_id m)" and "c_mconf_ok (cg_mconf m)"
    and "cg_pg_version m \<noteq> 0" and "cg_pg_version m < 140000 \<or> 180000 \<le> cg_pg_version m"
  shows "fst (parse W 3 (PAMessageSerialize_v3 (CGreeting m))) = Inl (Panic ''Invalid full PostgreSQL version ID'')"
proof -
  have "from_full_pg_version (cg_pg_version m) = Inl (Panic ''Invalid full PostgreSQL version ID'')"
    using assms(5,6) by (auto simp: from_full_pg_version_def)
  then show ?thesis
    using assms(1-4) by (simp add: parse_def SK_PROTO_VERSION_3_def parse_v3_def PAMessageSerialize_v3_def pq_sends reads)
qed

definition sample_greeting :: c_ProposerGreeting where
  "sample_greeting =
     \<lparr>cg_tenant_id = hex_encode (replicate 16 1), cg_timeline_id = hex_encode (replicate 16 2),
      cg_mconf = \<lparr>cm_generation = 1, cm_members = [\<lparr>sk_id = 1, sk_host = [0x61], sk_pg_port = 5454\<rparr>], cm_new_members = []\<rparr>,
      cg_pg_version = 130000, cg_system_id = 7, cg_wal_seg_size = 0x1000000\<rparr>"

theorem parse_version_panics_witness:
  "fst (parse sample_wire 3 (PAMessageSerialize_v3 (CGreeting sample_greeting))) =
     Inl (Panic ''Invalid full PostgreSQL version ID'')"
proof -
  have "is_hex_id (hex_encode (replicate 16 i))" for i by (rule is_hex_id_encode) simp
  then show ?thesis
    using parse_version_panics [OF sample_wire_library(1), of sample_greeting]
    by (simp add: sample_greeting_def c_mconf_ok_def host_ok_def small_list_def)
qed

end
