(* ===== verification/Walproposer.thy ===== *)
theory Walproposer
  imports Wire
begin

text \<open>
  The WAL proposer (\<open>pgxn/neon/walproposer.c\<close>, \<open>walproposer.h\<close>): its connections to the
  safekeepers, the collection of terms and votes, and the adoption of the elected position.
  Pointers to connection slots are indices into the array of slots. A log entry of level FATAL
  or PANIC ends the process, as does a failed \<open>Assert\<close> (asserts are on, as in a debug
  build). The callbacks of the embedding (\<open>walproposer_api\<close>) answer from a script of replies.
\<close>

section \<open>States\<close>

datatype SafekeeperState =
    SS_OFFLINE | SS_CONNECTING_WRITE | SS_CONNECTING_READ | SS_WAIT_EXEC_RESULT | SS_HANDSHAKE_RECV
  | SS_WAIT_VOTING | SS_WAIT_VERDICT | SS_SEND_ELECTED_FLUSH | SS_WAIT_ELECTED | SS_ACTIVE

text \<open>The enumeration is compared by position.\<close>

primrec ss_num :: "SafekeeperState \<Rightarrow> nat" where
  "ss_num SS_OFFLINE = 0"
| "ss_num SS_CONNECTING_WRITE = 1"
| "ss_num SS_CONNECTING_READ = 2"
| "ss_num SS_WAIT_EXEC_RESULT = 3"
| "ss_num SS_HANDSHAKE_RECV = 4"
| "ss_num SS_WAIT_VOTING = 5"
| "ss_num SS_WAIT_VERDICT = 6"
| "ss_num SS_SEND_ELECTED_FLUSH = 7"
| "ss_num SS_WAIT_ELECTED = 8"
| "ss_num SS_ACTIVE = 9"

lemma ss_num_inj: "ss_num a = ss_num b \<longleftrightarrow> a = b"
  by (cases a; cases b; simp)

instantiation SafekeeperState :: linorder
begin

definition less_eq_SafekeeperState :: "SafekeeperState \<Rightarrow> SafekeeperState \<Rightarrow> bool" where
  "a \<le> b \<longleftrightarrow> ss_num a \<le> ss_num b"

definition less_SafekeeperState :: "SafekeeperState \<Rightarrow> SafekeeperState \<Rightarrow> bool" where
  "a < b \<longleftrightarrow> ss_num a < ss_num b"

instance
  by standard (auto simp: less_eq_SafekeeperState_def less_SafekeeperState_def ss_num_inj)

end

datatype SafekeeperActiveState = SS_ACTIVE_SEND | SS_ACTIVE_READ_WAL | SS_ACTIVE_FLUSH

datatype WalProposerState = WPS_COLLECTING_TERMS | WPS_CAMPAIGN | WPS_ELECTED

definition MAX_SAFEKEEPERS :: nat where "MAX_SAFEKEEPERS = 32"

text \<open>
  A slot. \<open>cs_entries_null\<close> tells that the array of the vote's term history is not allocated;
  its length field, here the length of the list, survives. \<open>cs_inbox\<close> holds the messages
  the connection has yet to deliver.
\<close>

record c_Safekeeper =
  cs_host :: bytes
  cs_port :: bytes
  cs_conninfo :: bytes
  cs_startStreamingAt :: lsn
  cs_streamingAt :: lsn
  cs_appendRequest :: AppendRequestHeader
  cs_state :: SafekeeperState
  cs_active_state :: SafekeeperActiveState
  cs_latestMsgReceivedAt :: int
  cs_greetResponse :: c_AcceptorGreeting
  cs_voteResponse :: c_VoteResponse
  cs_entries_null :: bool
  cs_appendResponse :: c_AppendResponse
  cs_inbox :: "bytes list"

datatype wp_reply = RepOk | RepAgain | RepOther | RepFail

text \<open>
  The proposer, the part of shared memory it writes, the clock, the replies the callbacks will
  give (a call finds success when the script is over), and the messages handed to connections.
\<close>

record c_WalProposer =
  wp_state :: WalProposerState
  wp_mconf :: c_MembershipConfiguration
  wp_members_safekeepers :: "nat option list"
  wp_new_members_safekeepers :: "nat option list"
  wp_quorum :: nat
  wp_safekeepers_generation :: Generation
  wp_safekeeper :: "c_Safekeeper list"
  wp_availableLsn :: lsn
  wp_commitLsn :: lsn
  wp_voteRequest :: VoteRequest
  wp_truncateLsn :: lsn
  wp_propTerm :: Term
  wp_propTermHistory :: TermHistory
  wp_propTermStartLsn :: lsn
  wp_donorLastLogTerm :: Term
  wp_donor :: "nat option"
  wp_n_connected :: nat
  wp_last_reconnect_attempt :: int
  shm_propEpochStartLsn :: lsn
  shm_mineLastElectedTerm :: Term
  shm_donor :: "(nat \<times> lsn) option"
  wp_clock :: int
  wp_replies :: "wp_reply list"
  wp_sent :: "(nat \<times> c_ProposerAcceptorMessage) list"

record wp_events =
  ev_readable :: bool
  ev_writeable :: bool
  ev_closed :: bool

text \<open>
  The configuration and the answers of callbacks that do not change while the proposer runs;
  \<open>api_stack\<close> is what uninitialised stack bytes hold.
\<close>

record wp_config = c_config +
  wpc_tenant :: bytes
  wpc_timeline :: bytes
  wpc_safekeepers_list :: bytes
  wpc_conninfo_options :: bytes
  wpc_reconnect_timeout :: int
  wpc_connection_timeout :: int
  wpc_syncSafekeepers :: bool
  wpc_proto_version :: nat
  api_pg_version_num :: u32
  api_redo_start_lsn :: lsn
  api_flush_rec_ptr :: lsn
  api_replica_promote :: bool
  api_wal_reader_events :: wp_events
  api_stack :: Id16

type_synonym 'a wp = "(c_WalProposer, 'a) prog"

abbreviation sk_at :: "c_WalProposer \<Rightarrow> nat \<Rightarrow> c_Safekeeper" where
  "sk_at w i \<equiv> wp_safekeeper w ! i"

definition upd_sk :: "nat \<Rightarrow> (c_Safekeeper \<Rightarrow> c_Safekeeper) \<Rightarrow> unit wp" where
  "upd_sk i f = modifyE (\<lambda>w. w\<lparr>wp_safekeeper := (wp_safekeeper w)[i := f (wp_safekeeper w ! i)]\<rparr>)"

definition api_call :: "wp_reply wp" where
  "api_call = (\<lambda>w. case wp_replies w of [] \<Rightarrow> (Inr RepOk, w) | r # rs \<Rightarrow> (Inr r, w\<lparr>wp_replies := rs\<rparr>))"

abbreviation fatal :: "string \<Rightarrow> 'a wp" where "fatal e \<equiv> failE (Panic e)"
abbreviation c_assert :: "bool \<Rightarrow> unit wp" where "c_assert c \<equiv> guardE c (Panic ''Assert'')"

text \<open>\<open>for (int i = 0; i < wp->n_safekeepers; i++)\<close>.\<close>

definition for_slots :: "(nat \<Rightarrow> unit wp) \<Rightarrow> unit wp" where
  "for_slots f = bindE (getE (\<lambda>w. length (wp_safekeeper w))) (\<lambda>n. forE [0..<n] f)"

definition WalProposerGenerationsEnabled :: "c_WalProposer \<Rightarrow> bool" where
  "WalProposerGenerationsEnabled w \<longleftrightarrow> wp_safekeepers_generation w \<noteq> INVALID_GENERATION"

section \<open>Connections\<close>

text \<open>Freed memory is not cleared: the lengths stay, the arrays are gone.\<close>

definition ShutdownConnection :: "nat \<Rightarrow> unit wp" where
  "ShutdownConnection i =
     upd_sk i (\<lambda>s. s\<lparr>cs_state := SS_OFFLINE, cs_streamingAt := 0, cs_entries_null := True, cs_inbox := []\<rparr>)"

definition ResetConnection :: "nat \<Rightarrow> unit wp" where
  "ResetConnection i =
     bindE (getE (\<lambda>w. cs_state (sk_at w i) \<noteq> SS_OFFLINE)) (\<lambda>online.
     thenE (if online then ShutdownConnection i else retE ())
     (bindE api_call (\<lambda>status.
      if status = RepFail then retE ()
      else bindE (getE wp_clock) (\<lambda>now.
           upd_sk i (\<lambda>s. s\<lparr>cs_state := SS_CONNECTING_WRITE, cs_latestMsgReceivedAt := now\<rparr>)))))"

definition TimeToReconnect :: "wp_config \<Rightarrow> c_WalProposer \<Rightarrow> int \<Rightarrow> int" where
  "TimeToReconnect A w now =
     (if wpc_reconnect_timeout A \<le> 0 then -1
      else let passed = now - wp_last_reconnect_attempt w;
               till_reconnect = wpc_reconnect_timeout A * 1000 - passed
           in if till_reconnect \<le> 0 then 0 else till_reconnect div 1000)"

definition ReconnectSafekeepers :: "wp_config \<Rightarrow> unit wp" where
  "ReconnectSafekeepers A =
     bindE (getE (\<lambda>w. TimeToReconnect A w (wp_clock w) = 0)) (\<lambda>due.
     if \<not> due then retE ()
     else thenE (modifyE (\<lambda>w. w\<lparr>wp_last_reconnect_attempt := wp_clock w\<rparr>))
          (for_slots (\<lambda>i. bindE (getE (\<lambda>w. cs_state (sk_at w i) = SS_OFFLINE)) (\<lambda>off.
             if off then ResetConnection i else retE ()))))"

definition AsyncRead :: "nat \<Rightarrow> bytes option wp" where
  "AsyncRead i =
     bindE api_call (\<lambda>r. bindE (getE (\<lambda>w. cs_inbox (sk_at w i))) (\<lambda>inbox.
     case (r, inbox) of
       (RepFail, _) \<Rightarrow> thenE (ShutdownConnection i) (retE None)
     | (RepOk, b # bs) \<Rightarrow> thenE (upd_sk i (\<lambda>s. s\<lparr>cs_inbox := bs\<rparr>)) (retE (Some b))
     | _ \<Rightarrow> retE None))"

text \<open>\<open>AsyncReadMessage\<close> on a connection: the parser of the wire format on the next message.\<close>

definition read_message :: "wp_config \<Rightarrow> nat \<Rightarrow> (c_Safekeeper \<Rightarrow> c_AcceptorProposerMessage) \<Rightarrow> c_AcceptorProposerMessage option wp" where
  "read_message A i anymsg =
     bindE (AsyncRead i) (\<lambda>bo. case bo of
       None \<Rightarrow> retE None
     | Some b \<Rightarrow>
         bindE (getE wp_clock) (\<lambda>now.
         thenE (upd_sk i (\<lambda>s. s\<lparr>cs_latestMsgReceivedAt := now\<rparr>))
         (bindE (getE (\<lambda>w. anymsg (sk_at w i))) (\<lambda>old.
          bindE (liftR (fst (AsyncReadMessage (wpc_proto_version A) old b))) (\<lambda>m. case m of
            None \<Rightarrow> thenE (ResetConnection i) (retE None)
          | Some m \<Rightarrow> retE (Some m))))))"

definition log_sent :: "nat \<Rightarrow> c_ProposerAcceptorMessage \<Rightarrow> unit wp" where
  "log_sent i m = modifyE (\<lambda>w. w\<lparr>wp_sent := wp_sent w @ [(i, m)]\<rparr>)"

text \<open>Serializing can end the process; its bytes are those of \<open>PAMessageSerialize\<close>.\<close>

definition wp_serialize :: "wp_config \<Rightarrow> c_ProposerAcceptorMessage \<Rightarrow> unit wp" where
  "wp_serialize A m =
     bindE (liftR (PAMessageSerialize (c_config.truncate A) (api_stack A) (wpc_proto_version A) m)) (\<lambda>_. retE ())"

definition BlockingWrite :: "nat \<Rightarrow> c_ProposerAcceptorMessage \<Rightarrow> SafekeeperState \<Rightarrow> bool wp" where
  "BlockingWrite i m success_state =
     bindE api_call (\<lambda>r.
     if r = RepFail then thenE (ShutdownConnection i) (retE False)
     else thenE (log_sent i m) (thenE (upd_sk i (\<lambda>s. s\<lparr>cs_state := success_state\<rparr>)) (retE True)))"

definition AsyncWrite :: "nat \<Rightarrow> c_ProposerAcceptorMessage \<Rightarrow> SafekeeperState \<Rightarrow> bool wp" where
  "AsyncWrite i m flush_state =
     bindE api_call (\<lambda>r. case r of
       RepOk \<Rightarrow> thenE (log_sent i m) (retE True)
     | RepFail \<Rightarrow> thenE (ShutdownConnection i) (retE False)
     | _ \<Rightarrow> thenE (log_sent i m) (thenE (upd_sk i (\<lambda>s. s\<lparr>cs_state := flush_state\<rparr>)) (retE False)))"

definition AsyncFlush :: "nat \<Rightarrow> bool wp" where
  "AsyncFlush i =
     bindE api_call (\<lambda>r. case r of
       RepOk \<Rightarrow> retE True
     | RepFail \<Rightarrow> thenE (ResetConnection i) (retE False)
     | _ \<Rightarrow> retE False)"

text \<open>The membership configuration of the greeting is never set and stays empty.\<close>

definition greetRequest :: "wp_config \<Rightarrow> c_ProposerGreeting" where
  "greetRequest A =
     \<lparr>cg_tenant_id = wpc_tenant A, cg_timeline_id = wpc_timeline A,
      cg_mconf = \<lparr>cm_generation = 0, cm_members = [], cm_new_members = []\<rparr>,
      cg_pg_version = api_pg_version_num A, cg_system_id = cc_systemId A, cg_wal_seg_size = cc_wal_segment_size A\<rparr>"

definition SendProposerGreeting :: "wp_config \<Rightarrow> nat \<Rightarrow> unit wp" where
  "SendProposerGreeting A i =
     thenE (wp_serialize A (CGreeting (greetRequest A)))
     (thenE (BlockingWrite i (CGreeting (greetRequest A)) SS_HANDSHAKE_RECV) (retE ()))"

definition SendStartWALPush :: "nat \<Rightarrow> unit wp" where
  "SendStartWALPush i =
     bindE api_call (\<lambda>r. if r = RepFail then ShutdownConnection i
       else upd_sk i (\<lambda>s. s\<lparr>cs_state := SS_WAIT_EXEC_RESULT\<rparr>))"

definition HandleConnectionEvent :: "nat \<Rightarrow> unit wp" where
  "HandleConnectionEvent i =
     bindE api_call (\<lambda>r. case r of
       RepOk \<Rightarrow> bindE (getE wp_clock) (\<lambda>now.
         thenE (upd_sk i (\<lambda>s. s\<lparr>cs_latestMsgReceivedAt := now\<rparr>)) (SendStartWALPush i))
     | RepAgain \<Rightarrow> upd_sk i (\<lambda>s. s\<lparr>cs_state := SS_CONNECTING_READ\<rparr>)
     | RepOther \<Rightarrow> upd_sk i (\<lambda>s. s\<lparr>cs_state := SS_CONNECTING_WRITE\<rparr>)
     | RepFail \<Rightarrow> ShutdownConnection i)"

definition RecvStartWALPushResult :: "wp_config \<Rightarrow> nat \<Rightarrow> unit wp" where
  "RecvStartWALPushResult A i =
     bindE api_call (\<lambda>r. case r of
       RepOk \<Rightarrow> SendProposerGreeting A i
     | RepAgain \<Rightarrow> retE ()
     | RepFail \<Rightarrow> ShutdownConnection i
     | RepOther \<Rightarrow> ShutdownConnection i)"

section \<open>Members and quorums\<close>

text \<open>One of the two loops: every member with the slot's identity points to the slot.\<close>

definition map_member :: "SafekeeperId list \<Rightarrow> NodeId \<Rightarrow> nat \<Rightarrow> nat option list \<Rightarrow> nat option list" where
  "map_member ms i sk ptrs =
     map (\<lambda>(k, p). if k < length ms \<and> sk_id (ms ! k) = i then Some sk else p) (zip [0..<length ptrs] ptrs)"

definition UpdateMemberSafekeeperPtr :: "nat \<Rightarrow> unit wp" where
  "UpdateMemberSafekeeperPtr i =
     bindE (getE id) (\<lambda>w.
     let sk = sk_at w i; n = cag_nodeId (cs_greetResponse sk); mc = wp_mconf w in
     if length (cm_members mc) > MAX_SAFEKEEPERS then fatal ''too many members''
     else if length (cm_new_members mc) > MAX_SAFEKEEPERS then fatal ''too many new_members''
     else if cs_state sk < SS_WAIT_VOTING then retE ()
     else if n = 0 then retE ()
     else modifyE (\<lambda>w. w\<lparr>wp_members_safekeepers := map_member (cm_members mc) n i (wp_members_safekeepers w),
                         wp_new_members_safekeepers := map_member (cm_new_members mc) n i (wp_new_members_safekeepers w)\<rparr>))"

definition ResetMemberSafekeeperPtrs :: "unit wp" where
  "ResetMemberSafekeeperPtrs =
     thenE (modifyE (\<lambda>w. w\<lparr>wp_members_safekeepers := replicate MAX_SAFEKEEPERS None,
                            wp_new_members_safekeepers := replicate MAX_SAFEKEEPERS None\<rparr>))
     (for_slots (\<lambda>i. bindE (getE (\<lambda>w. SS_WAIT_VOTING \<le> cs_state (sk_at w i))) (\<lambda>c.
        if c then UpdateMemberSafekeeperPtr i else retE ())))"

definition MsetQuorum :: "nat \<Rightarrow> nat" where
  "MsetQuorum len = len div 2 + 1"

definition MsetHasQuorum :: "nat \<Rightarrow> nat \<Rightarrow> bool" where
  "MsetHasQuorum len n \<longleftrightarrow> n \<ge> MsetQuorum len"

text \<open>The slots of the members of a set, in the order of the members.\<close>

definition member_slots :: "SafekeeperId list \<Rightarrow> nat option list \<Rightarrow> nat option list" where
  "member_slots mset msk = take (length mset) msk"

definition TermsCollectedMset :: "c_WalProposer \<Rightarrow> SafekeeperId list \<Rightarrow> nat option list \<Rightarrow> bool" where
  "TermsCollectedMset w mset msk =
     MsetHasQuorum (length mset)
       (length (filter (\<lambda>p. case p of Some i \<Rightarrow> cs_state (sk_at w i) = SS_WAIT_VOTING | None \<Rightarrow> False) (member_slots mset msk)))"

definition TermsCollected :: "bool wp" where
  "TermsCollected =
     bindE (getE id) (\<lambda>w.
     let bump = modifyE (\<lambda>w. w\<lparr>wp_propTerm := wp_propTerm w + 1\<rparr>); mc = wp_mconf w in
     if \<not> WalProposerGenerationsEnabled w \<and> cm_generation mc = INVALID_GENERATION then
       (if wp_n_connected w \<ge> wp_quorum w then thenE bump (retE True) else retE False)
     else if cm_generation mc = INVALID_GENERATION then retE False
     else thenE (c_assert (cm_members mc \<noteq> []))
       (if \<not> TermsCollectedMset w (cm_members mc) (wp_members_safekeepers w) then retE False
        else if cm_new_members mc \<noteq> [] \<and> \<not> TermsCollectedMset w (cm_new_members mc) (wp_new_members_safekeepers w) then retE False
        else thenE bump (retE True)))"

section \<open>Votes\<close>

definition GetHighestTerm :: "TermHistory \<Rightarrow> Term" where
  "GetHighestTerm th = (if length th > 0 then tl_term (th ! (length th - 1)) else 0)"

text \<open>The entries of a slot's vote, if its array is there or not needed.\<close>

definition vote_history :: "c_Safekeeper \<Rightarrow> TermHistory res" where
  "vote_history sk =
     (if cs_entries_null sk \<and> cvr_termHistory (cs_voteResponse sk) \<noteq> [] then Inl (Panic ''null pointer dereference'')
      else Inr (cvr_termHistory (cs_voteResponse sk)))"

definition GetLastLogTerm :: "c_Safekeeper \<Rightarrow> Term res" where
  "GetLastLogTerm sk = map_res GetHighestTerm (vote_history sk)"

text \<open>The round of a loop over votes that keeps the highest one.\<close>

definition take_vote :: "nat \<Rightarrow> unit wp" where
  "take_vote i =
     bindE (getE id) (\<lambda>w. let sk = sk_at w i; vr = cs_voteResponse sk in
     bindE (liftR (GetLastLogTerm sk)) (\<lambda>llt.
     thenE (if llt > wp_donorLastLogTerm w \<or>
               (llt = wp_donorLastLogTerm w \<and> cvr_flushLsn vr > wp_propTermStartLsn w) \<or> wp_donor w = None
            then modifyE (\<lambda>w. w\<lparr>wp_donorLastLogTerm := llt, wp_propTermStartLsn := cvr_flushLsn vr, wp_donor := Some i\<rparr>)
            else retE ())
     (modifyE (\<lambda>w. w\<lparr>wp_truncateLsn := max (cvr_truncateLsn vr) (wp_truncateLsn w)\<rparr>))))"

fun count_votes :: "nat option list \<Rightarrow> nat \<Rightarrow> nat wp" where
  "count_votes [] n = retE n"
| "count_votes (p # ps) n =
     bindE (getE id) (\<lambda>w. case p of
       Some i \<Rightarrow>
         if cs_state (sk_at w i) = SS_WAIT_ELECTED
         then thenE (c_assert (cvr_voteGiven (cs_voteResponse (sk_at w i)) \<noteq> 0)) (thenE (take_vote i) (count_votes ps (n + 1)))
         else count_votes ps n
     | None \<Rightarrow> count_votes ps n)"

definition VotesCollectedMset :: "SafekeeperId list \<Rightarrow> nat option list \<Rightarrow> bool wp" where
  "VotesCollectedMset mset msk =
     bindE (count_votes (member_slots mset msk) 0) (\<lambda>n_votes.
     thenE (c_assert (mset \<noteq> [])) (retE (MsetHasQuorum (length mset) n_votes)))"

fun count_ready :: "nat list \<Rightarrow> nat \<Rightarrow> nat wp" where
  "count_ready [] n = retE n"
| "count_ready (i # is) n =
     bindE (getE id) (\<lambda>w.
     if cs_state (sk_at w i) = SS_WAIT_ELECTED then thenE (take_vote i) (count_ready is (n + 1))
     else count_ready is n)"

definition VotesCollected :: "bool wp" where
  "VotesCollected =
     bindE (getE wp_state) (\<lambda>st. thenE (c_assert (st = WPS_CAMPAIGN))
     (thenE (modifyE (\<lambda>w. w\<lparr>wp_propTermStartLsn := 0, wp_donorLastLogTerm := 0, wp_truncateLsn := 0\<rparr>))
     (bindE (getE id) (\<lambda>w. let mc = wp_mconf w in
      if \<not> WalProposerGenerationsEnabled w \<and> cm_generation mc = INVALID_GENERATION then
        bindE (count_ready [0..<length (wp_safekeeper w)] 0) (\<lambda>n_ready. retE (n_ready \<ge> wp_quorum w))
      else thenE (c_assert (cm_generation mc \<noteq> INVALID_GENERATION))
        (bindE (VotesCollectedMset (cm_members mc) (wp_members_safekeepers w)) (\<lambda>c.
         if \<not> c then retE False
         else if cm_new_members mc \<noteq> [] then VotesCollectedMset (cm_new_members mc) (wp_new_members_safekeepers w)
         else retE True))))))"

section \<open>Election\<close>

definition SendVoteRequest :: "wp_config \<Rightarrow> nat \<Rightarrow> unit wp" where
  "SendVoteRequest A i =
     bindE (getE wp_voteRequest) (\<lambda>v.
     thenE (wp_serialize A (CVoteRequest v)) (thenE (BlockingWrite i (CVoteRequest v) SS_WAIT_VERDICT) (retE ())))"

text \<open>Adopt the configuration of a safekeeper if its generation is higher.\<close>

definition adopt_mconf :: "c_MembershipConfiguration \<Rightarrow> unit wp" where
  "adopt_mconf mc =
     bindE (getE id) (\<lambda>w.
     if \<not> cm_generation (wp_mconf w) < cm_generation mc then retE ()
     else if cm_members mc = [] then fatal ''mconf has zero members''
     else if wp_state w \<noteq> WPS_COLLECTING_TERMS then fatal ''restarting to adopt mconf generation''
     else thenE (modifyE (\<lambda>w. w\<lparr>wp_mconf := mc\<rparr>)) ResetMemberSafekeeperPtrs)"

definition RecvAcceptorGreeting :: "wp_config \<Rightarrow> nat \<Rightarrow> unit wp" where
  "RecvAcceptorGreeting A i =
     bindE (read_message A i (\<lambda>sk. CAGreeting (cs_greetResponse sk))) (\<lambda>mo. case mo of
       Some (CAGreeting g) \<Rightarrow>
         thenE (upd_sk i (\<lambda>s. s\<lparr>cs_greetResponse := g\<rparr>))
         (thenE (adopt_mconf (cag_mconf g))
         (thenE (upd_sk i (\<lambda>s. s\<lparr>cs_state := SS_WAIT_VOTING\<rparr>))
         (thenE (UpdateMemberSafekeeperPtr i)
         (thenE (modifyE (\<lambda>w. w\<lparr>wp_n_connected := wp_n_connected w + 1\<rparr>))
         (thenE
           (bindE (getE id) (\<lambda>w.
            if wp_state w = WPS_COLLECTING_TERMS then
              thenE (modifyE (\<lambda>w. w\<lparr>wp_propTerm := max (cag_term g) (wp_propTerm w)\<rparr>))
              (bindE TermsCollected (\<lambda>c. if c then
                 modifyE (\<lambda>w. w\<lparr>wp_state := WPS_CAMPAIGN,
                   wp_voteRequest := \<lparr>vq_generation = cm_generation (wp_mconf w), vq_term = wp_propTerm w\<rparr>\<rparr>)
               else retE ()))
            else if cag_term g > wp_propTerm w then fatal ''WAL acceptor rejects our connection request''
            else retE ()))
         (bindE (getE wp_state) (\<lambda>st. if st = WPS_COLLECTING_TERMS then retE ()
          else for_slots (\<lambda>j. bindE (getE (\<lambda>w. cs_state (sk_at w j) = SS_WAIT_VOTING)) (\<lambda>c.
                 if c then SendVoteRequest A j else retE ())))))))))
     | _ \<Rightarrow> retE ())"

definition SkipXLogPageHeader :: "wp_config \<Rightarrow> lsn \<Rightarrow> lsn" where
  "SkipXLogPageHeader A l =
     (if and l (ucast (cc_wal_segment_size A) - 1) = 0 then l + word_of_nat XLOG_SIZE_OF_XLOG_LONG_PHD
      else if l mod 8192 = 0 then l + word_of_nat XLOG_SIZE_OF_XLOG_SHORT_PHD
      else l)"

text \<open>\<open>finish_sync_safekeepers\<close> does not return: the process is done.\<close>

definition finish_sync :: "'a wp" where
  "finish_sync = failE (Bail ''finish_sync_safekeepers'')"

definition ProcessPropStartPos :: "wp_config \<Rightarrow> unit wp" where
  "ProcessPropStartPos A =
     bindE (getE id) (\<lambda>w. thenE (c_assert (wp_state w = WPS_ELECTED))
     (thenE (if wp_propTermStartLsn w = 0 then
               (if wpc_syncSafekeepers A then finish_sync
                else modifyE (\<lambda>w. w\<lparr>wp_propTermStartLsn := api_redo_start_lsn A, wp_truncateLsn := api_redo_start_lsn A\<rparr>))
             else retE ())
     (thenE (modifyE (\<lambda>w. w\<lparr>shm_propEpochStartLsn := wp_propTermStartLsn w\<rparr>))
     (bindE (getE id) (\<lambda>w. thenE (c_assert (wp_truncateLsn w \<noteq> 0 \<or> wpc_syncSafekeepers A))
     (thenE (modifyE (\<lambda>w. w\<lparr>wp_availableLsn := wp_propTermStartLsn w\<rparr>))
     (bindE (liftR (case wp_donor w of None \<Rightarrow> Inl (Panic ''null pointer dereference'') | Some d \<Rightarrow> vote_history (sk_at w d)))
       (\<lambda>dth.
        thenE (modifyE (\<lambda>w. w\<lparr>wp_propTermHistory := dth @ [\<lparr>tl_term = wp_propTerm w, tl_lsn = wp_propTermStartLsn w\<rparr>]\<rparr>))
        (thenE (guardE (\<not> (\<not> wpc_syncSafekeepers A \<and> \<not> api_replica_promote A \<and>
                     SkipXLogPageHeader A (wp_propTermStartLsn w) \<noteq> api_redo_start_lsn A \<and>
                     \<not> (dth \<noteq> [] \<and> GetHighestTerm dth = shm_mineLastElectedTerm w)))
                  (Panic ''collected propTermStartLsn, but basebackup LSN''))
        (modifyE (\<lambda>w. w\<lparr>shm_mineLastElectedTerm := wp_propTerm w\<rparr>)))))))))))"

subsection \<open>The divergence point\<close>

text \<open>The number of leading entries of the same term; a term begins everywhere at the same point.\<close>

fun common_terms :: "TermHistory \<Rightarrow> TermHistory \<Rightarrow> nat res" where
  "common_terms (p # ps) (s # ss) =
     (if tl_term p \<noteq> tl_term s then Inr 0
      else if tl_lsn p \<noteq> tl_lsn s then Inl (Panic ''Assert'')
      else map_res Suc (common_terms ps ss))"
| "common_terms _ _ = Inr 0"

definition start_streaming_at :: "Term \<Rightarrow> TermHistory \<Rightarrow> TermHistory \<Rightarrow> lsn \<Rightarrow> lsn res" where
  "start_streaming_at propTerm prop_th th flushLsn =
     bind_res (common_terms prop_th th) (\<lambda>n.
     if n = 0 then Inr (tl_lsn (prop_th ! 0))
     else let idx = n - 1 in
       if tl_term (prop_th ! idx) = propTerm then Inr flushLsn
       else if idx + 1 < length prop_th then
         Inr (min (tl_lsn (prop_th ! (idx + 1))) (if idx + 1 < length th then tl_lsn (th ! (idx + 1)) else flushLsn))
       else Inl (Panic ''read past the end of an array''))"

section \<open>Streaming\<close>

definition PrepareAppendRequest :: "nat \<Rightarrow> lsn \<Rightarrow> lsn \<Rightarrow> unit wp" where
  "PrepareAppendRequest i beginLsn endLsn =
     thenE (c_assert (endLsn \<ge> beginLsn))
     (bindE (getE id) (\<lambda>w. upd_sk i (\<lambda>s. s\<lparr>cs_appendRequest :=
        \<lparr>ah_generation = cm_generation (wp_mconf w), ah_term = wp_propTerm w, ah_begin_lsn = beginLsn,
         ah_end_lsn = endLsn, ah_commit_lsn = wp_commitLsn w, ah_truncate_lsn = wp_truncateLsn w\<rparr>\<rparr>)))"

definition prepare_round :: "wp_config \<Rightarrow> nat \<Rightarrow> unit wp" where
  "prepare_round A i =
     bindE (getE id) (\<lambda>w.
     let begin = cs_streamingAt (sk_at w i); end0 = begin + word_of_nat MAX_SEND_SIZE;
         endLsn = (if end0 > wp_availableLsn w then wp_availableLsn w else end0)
     in thenE (PrepareAppendRequest i begin endLsn)
        (bindE (getE (\<lambda>w. cs_appendRequest (sk_at w i))) (\<lambda>req.
         thenE (wp_serialize A (CAppendRequest req)) (upd_sk i (\<lambda>s. s\<lparr>cs_active_state := SS_ACTIVE_READ_WAL\<rparr>)))))"

text \<open>Reading and writing the message: the result to return with, or none to go on.\<close>

definition write_request :: "nat \<Rightarrow> bool option wp" where
  "write_request i =
     bindE (getE (\<lambda>w. cs_appendRequest (sk_at w i))) (\<lambda>req.
     bindE (if ah_end_lsn req \<noteq> ah_begin_lsn req then api_call else retE RepOk) (\<lambda>rd.
     case rd of
       RepFail \<Rightarrow> thenE (ShutdownConnection i) (retE (Some False))
     | RepAgain \<Rightarrow> retE (Some True)
     | RepOther \<Rightarrow> retE (Some True)
     | RepOk \<Rightarrow>
         bindE api_call (\<lambda>r.
         thenE (upd_sk i (\<lambda>s. s\<lparr>cs_streamingAt := ah_end_lsn req\<rparr>)) (case r of
           RepOk \<Rightarrow> thenE (log_sent i (CAppendRequest req))
             (thenE (upd_sk i (\<lambda>s. s\<lparr>cs_active_state := SS_ACTIVE_SEND\<rparr>)) (retE None))
         | RepFail \<Rightarrow> thenE (ShutdownConnection i) (retE (Some False))
         | _ \<Rightarrow> thenE (log_sent i (CAppendRequest req))
             (thenE (upd_sk i (\<lambda>s. s\<lparr>cs_active_state := SS_ACTIVE_FLUSH\<rparr>)) (retE (Some True)))))))"

definition send_round :: "wp_config \<Rightarrow> nat \<Rightarrow> bool option wp" where
  "send_round A i =
     bindE (getE (\<lambda>w. cs_active_state (sk_at w i))) (\<lambda>a.
     thenE (if a = SS_ACTIVE_SEND then prepare_round A i else retE ()) (write_request i))"

lemma upd_sk_run [simp]:
  "upd_sk i f w = (Inr (), w\<lparr>wp_safekeeper := (wp_safekeeper w)[i := f (wp_safekeeper w ! i)]\<rparr>)"
  by (simp add: upd_sk_def)

lemma log_sent_run [simp]: "log_sent i m w = (Inr (), w\<lparr>wp_sent := wp_sent w @ [(i, m)]\<rparr>)"
  by (simp add: log_sent_def)

lemma wp_serialize_ok: "wp_serialize A m w = (Inr x, w') \<Longrightarrow> w' = w"
  by (auto simp: wp_serialize_def bindE_def split: sum.splits)

lemma prepare_round_ok:
  assumes "prepare_round A i w = (Inr x, w')" and i: "i < length (wp_safekeeper w)"
  defines "b \<equiv> cs_streamingAt (sk_at w i)"
  defines "e \<equiv> (if b + word_of_nat MAX_SEND_SIZE > wp_availableLsn w then wp_availableLsn w else b + word_of_nat MAX_SEND_SIZE)"
  shows "b \<le> e \<and> w' = w\<lparr>wp_safekeeper := (wp_safekeeper w)[i := (sk_at w i)\<lparr>
      cs_appendRequest := \<lparr>ah_generation = cm_generation (wp_mconf w), ah_term = wp_propTerm w, ah_begin_lsn = b,
         ah_end_lsn = e, ah_commit_lsn = wp_commitLsn w, ah_truncate_lsn = wp_truncateLsn w\<rparr>,
      cs_active_state := SS_ACTIVE_READ_WAL\<rparr>]\<rparr>"
  using assms(1) i unfolding prepare_round_def PrepareAppendRequest_def b_def e_def Let_def
  by (auto elim!: bindE_InrE thenE_InrE dest!: wp_serialize_ok split: if_splits)

lemma api_call_run: "api_call w = (Inr (case wp_replies w of [] \<Rightarrow> RepOk | r # _ \<Rightarrow> r), w\<lparr>wp_replies := tl (wp_replies w)\<rparr>)"
  by (cases w) (simp add: api_call_def split: list.splits)

lemma write_request_None:
  assumes "write_request i w = (Inr None, w')" and i: "i < length (wp_safekeeper w)"
  shows "\<exists>rs. w' = w\<lparr>wp_replies := rs, wp_sent := wp_sent w @ [(i, CAppendRequest (cs_appendRequest (sk_at w i)))],
     wp_safekeeper := (wp_safekeeper w)[i := (sk_at w i)\<lparr>
       cs_streamingAt := ah_end_lsn (cs_appendRequest (sk_at w i)), cs_active_state := SS_ACTIVE_SEND\<rparr>]\<rparr>"
  using assms
  by (auto simp: write_request_def api_call_run bindE_def thenE_def split: wp_reply.splits prod.splits sum.splits if_splits)

text \<open>What is left to send; a request already prepared may end anywhere.\<close>

definition send_measure :: "nat \<Rightarrow> bool \<Rightarrow> c_WalProposer \<Rightarrow> nat" where
  "send_measure i sent w =
     (if cs_active_state (sk_at w i) \<noteq> SS_ACTIVE_SEND then 2 ^ 65
      else unat (wp_availableLsn w) - unat (cs_streamingAt (sk_at w i)) + (if sent then 0 else 1))"

lemma send_round_progress:
  assumes "send_round A i w = (Inr None, w')" and i: "i < length (wp_safekeeper w)"
    and more: "cs_streamingAt (sk_at w i) \<noteq> wp_availableLsn w \<or> \<not> sent"
  shows "send_measure i (sent \<or> cs_active_state (sk_at w i) = SS_ACTIVE_SEND) w' < send_measure i sent w \<and>
     length (wp_safekeeper w') = length (wp_safekeeper w)"
proof -
  let ?b = "cs_streamingAt (sk_at w i)" and ?a = "wp_availableLsn w"
  obtain x w1 where w1: "(if cs_active_state (sk_at w i) = SS_ACTIVE_SEND then prepare_round A i else retE ()) w = (Inr x, w1)"
    and wr: "write_request i w1 = (Inr None, w')"
    using assms(1) unfolding send_round_def by (auto elim!: bindE_InrE thenE_InrE)
  show ?thesis
  proof (cases "cs_active_state (sk_at w i) = SS_ACTIVE_SEND")
    case False
    then have "w1 = w" using w1 by simp
    then show ?thesis
      using write_request_None [OF wr] i False unat_bounds(4) [of ?a] by (auto simp: send_measure_def)
  next
    case True
    define e where "e = (if ?b + word_of_nat MAX_SEND_SIZE > ?a then ?a else ?b + word_of_nat MAX_SEND_SIZE)"
    have p: "?b \<le> e" "length (wp_safekeeper w1) = length (wp_safekeeper w)" "wp_availableLsn w1 = ?a"
      "ah_end_lsn (cs_appendRequest (sk_at w1 i)) = e"
      using prepare_round_ok [OF w1 [unfolded if_P [OF True]] i] i by (auto simp: e_def)
    have "unat ?a - unat e < unat ?a - unat ?b + (if sent then 0 else 1)"
    proof (cases "e = ?a")
      case True
      then show ?thesis using p(1) more by (auto simp: word_le_nat_alt word_unat_eq_iff)
    next
      case False
      then have e: "e = ?b + word_of_nat MAX_SEND_SIZE" "e < ?a" by (auto simp: e_def not_less split: if_splits)
      have "?b \<noteq> e" using e(1) by (simp add: MAX_SEND_SIZE_def)
      then have "?b < e" using p(1) by simp
      then show ?thesis using e(2) by (auto simp: word_less_nat_alt)
    qed
    then show ?thesis
      using write_request_None [OF wr] p i True by (auto simp: send_measure_def)
  qed
qed

text \<open>
  The loop of \<open>SendAppendRequests\<close>. Every round that goes on comes nearer to the end of the
  available WAL; an index that is no slot, which no caller passes, ends it.
\<close>

function send_loop :: "wp_config \<Rightarrow> nat \<Rightarrow> bool \<Rightarrow> bool wp" where
  "send_loop A i sent w =
     (if i \<ge> length (wp_safekeeper w) then (Inl (Panic ''no such slot''), w)
      else if cs_streamingAt (sk_at w i) = wp_availableLsn w \<and> sent then (Inr True, w)
      else case send_round A i w of
        (Inl e, w') \<Rightarrow> (Inl e, w')
      | (Inr (Some r), w') \<Rightarrow> (Inr r, w')
      | (Inr None, w') \<Rightarrow> send_loop A i (sent \<or> cs_active_state (sk_at w i) = SS_ACTIVE_SEND) w')"
  by pat_completeness auto
termination
proof (relation "measure (\<lambda>(A, i, sent, w). send_measure i sent w)", simp, goal_cases)
  case 1
  show ?case using 1 send_round_progress by (simp add: not_le)
qed

declare send_loop.simps [simp del]

definition SendAppendRequests :: "wp_config \<Rightarrow> nat \<Rightarrow> bool wp" where
  "SendAppendRequests A i =
     bindE (getE (\<lambda>w. cs_active_state (sk_at w i))) (\<lambda>a.
     if a = SS_ACTIVE_FLUSH then
       bindE (AsyncFlush i) (\<lambda>flushed.
       if \<not> flushed then getE (\<lambda>w. cs_state (sk_at w i) = SS_ACTIVE)
       else thenE (upd_sk i (\<lambda>s. s\<lparr>cs_active_state := SS_ACTIVE_SEND\<rparr>)) (send_loop A i False))
     else send_loop A i False)"

text \<open>
  \<open>HandleActiveState\<close>, given how to receive; sending to a node calls it with a writeable socket
  only, which receives nothing.
\<close>

definition HandleActiveState_with :: "(nat \<Rightarrow> bool wp) \<Rightarrow> wp_config \<Rightarrow> nat \<Rightarrow> wp_events \<Rightarrow> unit wp" where
  "HandleActiveState_with recv A i ev =
     bindE (getE (\<lambda>w. cs_active_state (sk_at w i))) (\<lambda>a.
     bindE (if ev_writeable ev \<or> a = SS_ACTIVE_READ_WAL then SendAppendRequests A i else retE True) (\<lambda>ok.
     if \<not> ok then retE ()
     else bindE (if ev_readable ev then recv i else retE True) (\<lambda>ok.
     if \<not> ok then retE ()
     else if ev_closed ev then ShutdownConnection i else retE ())))"

definition SendMessageToNode :: "wp_config \<Rightarrow> nat \<Rightarrow> unit wp" where
  "SendMessageToNode A i =
     bindE (getE (\<lambda>w. cs_state (sk_at w i))) (\<lambda>st. thenE (c_assert (st = SS_ACTIVE))
     (HandleActiveState_with (\<lambda>_. retE True) A i \<lparr>ev_readable = False, ev_writeable = True, ev_closed = False\<rparr>))"

definition BroadcastAppendRequest :: "wp_config \<Rightarrow> unit wp" where
  "BroadcastAppendRequest A =
     for_slots (\<lambda>i. bindE (getE (\<lambda>w. cs_state (sk_at w i) = SS_ACTIVE)) (\<lambda>c. if c then SendMessageToNode A i else retE ()))"

definition WalProposerBroadcast :: "wp_config \<Rightarrow> lsn \<Rightarrow> lsn \<Rightarrow> unit wp" where
  "WalProposerBroadcast A startpos endpos =
     bindE (getE wp_availableLsn) (\<lambda>a. thenE (c_assert (startpos = a \<and> endpos \<ge> a))
     (thenE (modifyE (\<lambda>w. w\<lparr>wp_availableLsn := endpos\<rparr>)) (BroadcastAppendRequest A)))"

text \<open>The best position known to be on a connected safekeeper.\<close>

definition UpdateDonorShmem :: "unit wp" where
  "UpdateDonorShmem =
     bindE (getE id) (\<lambda>w.
     if wp_state w \<noteq> WPS_ELECTED then retE ()
     else case wp_donor w of
       None \<Rightarrow> fatal ''null pointer dereference''
     | Some d \<Rightarrow>
         let start = (if SS_WAIT_ELECTED \<le> cs_state (sk_at w d) then (Some d, wp_propTermStartLsn w) else (None, 0));
             best = foldl (\<lambda>(dn, l) i. let sk = sk_at w i in
                      if cs_state sk = SS_ACTIVE \<and> car_flushLsn (cs_appendResponse sk) > l
                      then (Some i, car_flushLsn (cs_appendResponse sk)) else (dn, l)) start [0..<length (wp_safekeeper w)]
         in case fst best of None \<Rightarrow> retE () | Some j \<Rightarrow> modifyE (\<lambda>w. w\<lparr>shm_donor := Some (j, snd best)\<rparr>))"

definition StartStreaming :: "wp_config \<Rightarrow> nat \<Rightarrow> unit wp" where
  "StartStreaming A i =
     thenE (upd_sk i (\<lambda>s. s\<lparr>cs_state := SS_ACTIVE, cs_active_state := SS_ACTIVE_SEND, cs_streamingAt := cs_startStreamingAt s\<rparr>))
     (thenE UpdateDonorShmem (SendMessageToNode A i))"

definition SendProposerElected :: "wp_config \<Rightarrow> nat \<Rightarrow> unit wp" where
  "SendProposerElected A i =
     bindE (getE id) (\<lambda>w. thenE (c_assert (wp_propTermHistory w \<noteq> []))
     (bindE (liftR (vote_history (sk_at w i))) (\<lambda>th.
      bindE (liftR (start_streaming_at (wp_propTerm w) (wp_propTermHistory w) th (cvr_flushLsn (cs_voteResponse (sk_at w i))))) (\<lambda>start.
      thenE (upd_sk i (\<lambda>s. s\<lparr>cs_startStreamingAt := start\<rparr>))
      (thenE (c_assert (start \<le> wp_availableLsn w))
      (let msg = CElected \<lparr>pe_generation = cm_generation (wp_mconf w), pe_term = wp_propTerm w,
                   pe_start_streaming_at = start, pe_term_history = wp_propTermHistory w\<rparr>
       in thenE (wp_serialize A msg)
          (bindE (AsyncWrite i msg SS_SEND_ELECTED_FLUSH) (\<lambda>ok. if ok then StartStreaming A i else retE ()))))))))"

definition HandleElectedProposer :: "wp_config \<Rightarrow> unit wp" where
  "HandleElectedProposer A =
     thenE (ProcessPropStartPos A)
     (bindE (getE id) (\<lambda>w. thenE (c_assert (wp_propTermStartLsn w \<noteq> 0))
     (bindE api_call (\<lambda>dl. thenE (guardE (dl \<noteq> RepFail) (Panic ''failed to download WAL for logical replication''))
     (if wp_truncateLsn w = wp_propTermStartLsn w \<and> wpc_syncSafekeepers A then finish_sync
      else thenE (for_slots (\<lambda>i. bindE (getE (\<lambda>w. cs_state (sk_at w i) = SS_WAIT_ELECTED)) (\<lambda>c.
                    if c then SendProposerElected A i else retE ())))
           (if wpc_syncSafekeepers A then BroadcastAppendRequest A else retE ()))))))"

definition RecvVoteResponse :: "wp_config \<Rightarrow> nat \<Rightarrow> unit wp" where
  "RecvVoteResponse A i =
     bindE (getE wp_state) (\<lambda>st0. thenE (c_assert (st0 \<noteq> WPS_COLLECTING_TERMS))
     (bindE (read_message A i (\<lambda>sk. CAVoteResponse (cs_voteResponse sk))) (\<lambda>mo. case mo of
       Some (CAVoteResponse v) \<Rightarrow>
         thenE (upd_sk i (\<lambda>s. s\<lparr>cs_voteResponse := v, cs_entries_null := False\<rparr>))
         (bindE (getE id) (\<lambda>w.
          if cvr_voteGiven v = 0 \<and> (cvr_term v > wp_propTerm w \<or> wp_state w = WPS_CAMPAIGN)
          then fatal ''WAL acceptor rejects our connection request''
          else thenE (c_assert (cvr_term v = wp_propTerm w))
            (thenE (upd_sk i (\<lambda>s. s\<lparr>cs_state := SS_WAIT_ELECTED\<rparr>))
            (if wp_state w = WPS_CAMPAIGN then
               bindE VotesCollected (\<lambda>c. if c then thenE (modifyE (\<lambda>w. w\<lparr>wp_state := WPS_ELECTED\<rparr>)) (HandleElectedProposer A)
                 else retE ())
             else thenE (c_assert (wp_state w = WPS_ELECTED)) (SendProposerElected A i)))))
     | _ \<Rightarrow> retE ())))"

end
