(* ===== verification/Proposer.thy ===== *)
theory Proposer
  imports Walproposer
begin

text \<open>
  The rest of the WAL proposer (\<open>pgxn/neon/walproposer.c\<close>): the commit position, the handling
  of responses, the dispatch of socket events, the poll loop, and the creation of a proposer.
\<close>

section \<open>Acknowledged positions\<close>

definition CalculateMinFlushLsn :: "c_WalProposer \<Rightarrow> lsn" where
  "CalculateMinFlushLsn w =
     (case map (\<lambda>sk. car_flushLsn (cs_appendResponse sk)) (wp_safekeeper w) of
        [] \<Rightarrow> 0
      | l # ls \<Rightarrow> foldl min l ls)"

text \<open>A position before the start of the term counts as nothing.\<close>

definition ack_lsn :: "c_WalProposer \<Rightarrow> c_Safekeeper \<Rightarrow> lsn" where
  "ack_lsn w sk = (let l = car_flushLsn (cs_appendResponse sk) in if l \<ge> wp_propTermStartLsn w then l else 0)"

definition member_ack :: "c_WalProposer \<Rightarrow> nat option \<Rightarrow> lsn" where
  "member_ack w p = (case p of Some i \<Rightarrow> ack_lsn w (sk_at w i) | None \<Rightarrow> 0)"

text \<open>\<open>qsort\<close> with \<open>CompareLsn\<close>, then the entry \<open>quorum\<close> places from the top.\<close>

definition quorum_lsn :: "nat \<Rightarrow> lsn list \<Rightarrow> lsn" where
  "quorum_lsn quorum responses = sort responses ! (length responses - quorum)"

definition GetCommittedMset :: "c_WalProposer \<Rightarrow> SafekeeperId list \<Rightarrow> nat option list \<Rightarrow> lsn" where
  "GetCommittedMset w mset msk = quorum_lsn (MsetQuorum (length mset)) (map (member_ack w) (member_slots mset msk))"

definition GetAcknowledgedByQuorumWALPosition :: "c_WalProposer \<Rightarrow> lsn" where
  "GetAcknowledgedByQuorumWALPosition w =
     (let mc = wp_mconf w in
      if \<not> WalProposerGenerationsEnabled w \<and> cm_generation mc = INVALID_GENERATION then
        quorum_lsn (wp_quorum w) (map (ack_lsn w) (wp_safekeeper w))
      else let committed = GetCommittedMset w (cm_members mc) (wp_members_safekeepers w) in
        if cm_new_members mc \<noteq> [] then min committed (GetCommittedMset w (cm_new_members mc) (wp_new_members_safekeepers w))
        else committed)"

text \<open>\<open>process_safekeeper_feedback\<close> is the embedding's and does not change the proposer.\<close>

definition HandleSafekeeperResponse :: "wp_config \<Rightarrow> unit wp" where
  "HandleSafekeeperResponse A =
     bindE (getE GetAcknowledgedByQuorumWALPosition) (\<lambda>newCommitLsn.
     bindE (getE wp_commitLsn) (\<lambda>old.
     thenE (if newCommitLsn > old
            then thenE (modifyE (\<lambda>w. w\<lparr>wp_commitLsn := newCommitLsn\<rparr>)) (BroadcastAppendRequest A) else retE ())
     (thenE (modifyE (\<lambda>w. let c = min (CalculateMinFlushLsn w) (wp_commitLsn w) in
               if c > wp_truncateLsn w then w\<lparr>wp_truncateLsn := c\<rparr> else w))
     (bindE (getE id) (\<lambda>w.
      if \<not> wpc_syncSafekeepers A then retE ()
      else if list_ex (\<lambda>sk. cs_state sk \<noteq> SS_OFFLINE \<and> \<not> car_commitLsn (cs_appendResponse sk) \<ge> wp_propTermStartLsn w) (wp_safekeeper w)
      then retE ()
      else if newCommitLsn \<ge> wp_propTermStartLsn w then thenE (BroadcastAppendRequest A) finish_sync
      else retE ())))))"

section \<open>Receiving feedback\<close>

text \<open>One round: whether to go on reading.\<close>

definition recv_append :: "wp_config \<Rightarrow> nat \<Rightarrow> bool wp" where
  "recv_append A i =
     bindE (read_message A i (\<lambda>sk. CAAppendResponse (cs_appendResponse sk))) (\<lambda>mo. case mo of
       Some (CAAppendResponse a) \<Rightarrow>
         thenE (upd_sk i (\<lambda>s. s\<lparr>cs_appendResponse := a\<rparr>))
         (bindE (getE id) (\<lambda>w.
          if car_generation a \<noteq> cm_generation (wp_mconf w) then fatal ''sent response with generation''
          else if car_term a > wp_propTerm w then fatal ''rejected our request, our term''
          else thenE (HandleSafekeeperResponse A) (retE True)))
     | _ \<Rightarrow> retE False)"

subsection \<open>What the operations leave alone\<close>

text \<open>
  Most operations change the election state of the proposer in no way: they advance positions, send
  messages and take connections down. A property that depends only on the election state and
  on what each slot is known to have said is kept by all of them; the contract is stated once.
\<close>

definition same_core :: "c_WalProposer \<Rightarrow> c_WalProposer \<Rightarrow> bool" where
  "same_core w w' \<longleftrightarrow> wp_state w' = wp_state w \<and> wp_propTerm w' = wp_propTerm w \<and> wp_mconf w' = wp_mconf w \<and>
     wp_members_safekeepers w' = wp_members_safekeepers w \<and> wp_new_members_safekeepers w' = wp_new_members_safekeepers w \<and>
     wp_safekeepers_generation w' = wp_safekeepers_generation w \<and> wp_quorum w' = wp_quorum w \<and> wp_safekeeper w' = wp_safekeeper w"

definition slot_said :: "c_Safekeeper \<Rightarrow> c_Safekeeper \<Rightarrow> bool" where
  "slot_said s s' \<longleftrightarrow> cs_greetResponse s' = cs_greetResponse s \<and> set (cs_inbox s') \<subseteq> set (cs_inbox s) \<and>
     length (cs_inbox s') \<le> length (cs_inbox s)"

definition slot_quiet :: "c_Safekeeper \<Rightarrow> c_Safekeeper \<Rightarrow> bool" where
  "slot_quiet s s' \<longleftrightarrow> slot_said s s' \<and> (cs_state s' = cs_state s \<or> cs_state s' \<le> SS_HANDSHAKE_RECV)"

definition slot_active :: "c_Safekeeper \<Rightarrow> c_Safekeeper \<Rightarrow> bool" where
  "slot_active s s' \<longleftrightarrow> slot_said s s' \<and> cs_state s' \<in> {SS_WAIT_VERDICT, SS_SEND_ELECTED_FLUSH, SS_ACTIVE}"

lemmas slot_defs = slot_quiet_def slot_active_def slot_said_def less_eq_SafekeeperState_def

lemma keeps_reply [keeps_intros]:
  "keeps P a \<Longrightarrow> keeps P b \<Longrightarrow> keeps P c \<Longrightarrow> keeps P d \<Longrightarrow>
   keeps P (case r of RepOk \<Rightarrow> a | RepAgain \<Rightarrow> b | RepOther \<Rightarrow> c | RepFail \<Rightarrow> d)"
  by (cases r) simp_all

lemma keeps_for_slots [keeps_intros]: "(\<And>j. keeps P (f j)) \<Longrightarrow> keeps P (for_slots f)"
  unfolding for_slots_def by (intro keeps_intros)

text \<open>
  The narrowest contract: a property that survives changes of anything but the election state, the
  messages sent and the slots, and changes of a slot that leave its stream alone or take its
  connection down.
\<close>

definition still :: "c_WalProposer \<Rightarrow> c_WalProposer \<Rightarrow> bool" where
  "still w w' \<longleftrightarrow> same_core w w' \<and> wp_sent w' = wp_sent w"

definition slot_still :: "c_Safekeeper \<Rightarrow> c_Safekeeper \<Rightarrow> bool" where
  "slot_still s s' \<longleftrightarrow> slot_said s s' \<and>
     (cs_state s' \<le> SS_HANDSHAKE_RECV \<or>
      cs_state s' = cs_state s \<and> cs_active_state s' = cs_active_state s \<and> cs_streamingAt s' = cs_streamingAt s \<and>
      cs_startStreamingAt s' = cs_startStreamingAt s \<and> cs_appendRequest s' = cs_appendRequest s)"

locale still_frame =
  fixes P :: "c_WalProposer \<Rightarrow> bool"
  assumes still_core: "P w \<Longrightarrow> still w w' \<Longrightarrow> P w'"
    and still_slot: "P w \<Longrightarrow> i < length (wp_safekeeper w) \<Longrightarrow> slot_still (sk_at w i) s \<Longrightarrow>
      P (w\<lparr>wp_safekeeper := (wp_safekeeper w)[i := s]\<rparr>)"
begin

lemma still_upd_sk: "(\<And>s. slot_still s (f s)) \<Longrightarrow> keeps P (upd_sk i f)"
  unfolding upd_sk_def by (rule keeps_modifyE, case_tac "i < length (wp_safekeeper s)")
    (simp_all add: still_slot list_update_beyond)

lemma still_modify: "(\<And>w. still w (f w)) \<Longrightarrow> keeps P (modifyE f)"
  by (rule keeps_modifyE) (rule still_core)

lemma frame_basic [keeps_intros]:
  "keeps P api_call" "keeps P (wp_serialize A m)" "keeps P (ShutdownConnection i)"
proof -
  show "keeps P api_call"
    by (rule keepsI) (simp add: wp_def api_call_run still_core [unfolded still_def same_core_def])
  show "keeps P (wp_serialize A m)" unfolding wp_serialize_def by (intro keeps_intros)
  show "keeps P (ShutdownConnection i)"
    unfolding ShutdownConnection_def by (rule still_upd_sk) (simp add: slot_still_def slot_defs)
qed

lemma frame_connection [keeps_intros]:
  "keeps P (ResetConnection i)" "keeps P (AsyncFlush i)" "keeps P (SendStartWALPush i)" "keeps P (HandleConnectionEvent i)"
  unfolding ResetConnection_def AsyncFlush_def SendStartWALPush_def HandleConnectionEvent_def
  by (intro keeps_intros still_upd_sk; simp add: slot_still_def slot_defs)+

lemma frame_reconnect [keeps_intros]: "keeps P (ReconnectSafekeepers A)"
  unfolding ReconnectSafekeepers_def by (intro keeps_intros still_modify) (simp add: still_def same_core_def)

lemma frame_AsyncRead [keeps_intros]: "keeps P (AsyncRead i)"
proof (rule keepsI)
  fix w assume w: "P w"
  define w1 where "w1 = w\<lparr>wp_replies := tl (wp_replies w)\<rparr>"
  have w1: "P w1" by (rule still_core [OF w]) (simp add: w1_def still_def same_core_def)
  have "P (w1\<lparr>wp_safekeeper := (wp_safekeeper w1)[i := (sk_at w1 i)\<lparr>cs_inbox := bs\<rparr>]\<rparr>)" if "cs_inbox (sk_at w1 i) = b # bs" for b bs
    using still_slot [OF w1, of i "(sk_at w1 i)\<lparr>cs_inbox := bs\<rparr>"] that w1
    by (cases "i < length (wp_safekeeper w1)") (auto simp: slot_still_def slot_defs list_update_beyond)
  moreover have "wp (ShutdownConnection i) (\<lambda>_. P) (\<lambda>_. P) w1" by (rule keepsD [OF frame_basic(3) w1])
  ultimately show "wp (AsyncRead i) (\<lambda>_. P) (\<lambda>_. P) w"
    using w1 unfolding AsyncRead_def wp_simps
    by (auto simp: wp_def api_call_run w1_def [symmetric] thenE_def bindE_def split: wp_reply.splits list.splits prod.splits sum.splits)
qed

lemma frame_read_message [keeps_intros]: "keeps P (read_message A i f)"
  unfolding read_message_def by (intro keeps_intros still_upd_sk; simp add: slot_still_def slot_defs)

lemma frame_donor [keeps_intros]: "keeps P UpdateDonorShmem"
  unfolding UpdateDonorShmem_def by (intro keeps_intros still_modify; simp add: still_def same_core_def)

end

text \<open>The contract of the election state, which does not depend on what is streamed.\<close>

locale quiet_frame =
  fixes P :: "c_WalProposer \<Rightarrow> bool"
  assumes core: "P w \<Longrightarrow> same_core w w' \<Longrightarrow> P w'"
    and slot: "P w \<Longrightarrow> i < length (wp_safekeeper w) \<Longrightarrow> slot_quiet (sk_at w i) s \<Longrightarrow>
      P (w\<lparr>wp_safekeeper := (wp_safekeeper w)[i := s]\<rparr>)"

sublocale quiet_frame \<subseteq> still_frame
  by unfold_locales (auto simp: still_def slot_still_def slot_quiet_def intro: core slot)

context quiet_frame
begin

lemma frame_upd_sk: "(\<And>s. slot_quiet s (f s)) \<Longrightarrow> keeps P (upd_sk i f)"
  unfolding upd_sk_def by (rule keeps_modifyE, case_tac "i < length (wp_safekeeper s)")
    (simp_all add: slot list_update_beyond)

lemma frame_modify: "(\<And>w. same_core w (f w)) \<Longrightarrow> keeps P (modifyE f)"
  by (rule keeps_modifyE) (rule core)

lemma frame_log_sent [keeps_intros]: "keeps P (log_sent i m)"
  unfolding log_sent_def by (rule frame_modify) (simp add: same_core_def)

lemma frame_greet [keeps_intros]: "keeps P (RecvStartWALPushResult A i)"
  unfolding RecvStartWALPushResult_def SendProposerGreeting_def BlockingWrite_def
  by (intro keeps_intros frame_upd_sk) (simp add: slot_defs)

lemma frame_send_round [keeps_intros]: "keeps P (send_round A i)"
  unfolding send_round_def prepare_round_def PrepareAppendRequest_def write_request_def Let_def
  by (intro keeps_intros frame_upd_sk; simp add: slot_defs)

lemma frame_send_loop [keeps_intros]: "keeps P (send_loop A i sent)"
proof (rule keepsI)
  show "P w \<Longrightarrow> wp (send_loop A i sent) (\<lambda>_. P) (\<lambda>_. P) w" for w
  proof (induction A i sent w rule: send_loop.induct)
    case (1 A i sent w)
    have r: "P w'" if "send_round A i w = (r, w')" for r w'
      using keeps_snd [OF frame_send_round 1(2), of A i] that by simp
    show ?case
      using 1 r unfolding wp_def send_loop.simps [of A i sent w]
      by (auto split: prod.splits sum.splits option.splits)
  qed
qed

lemma frame_broadcast [keeps_intros]:
  "keeps P (SendMessageToNode A i)" "keeps P (BroadcastAppendRequest A)"
  unfolding BroadcastAppendRequest_def SendMessageToNode_def HandleActiveState_with_def SendAppendRequests_def
  by (intro keeps_intros frame_upd_sk; simp add: slot_defs)+

lemma frame_response [keeps_intros]: "keeps P (HandleSafekeeperResponse A)"
  unfolding HandleSafekeeperResponse_def finish_sync_def
  by (intro keeps_intros frame_modify; simp add: Let_def same_core_def)

lemma frame_recv_append [keeps_intros]: "keeps P (recv_append A i)"
  unfolding recv_append_def
  by (intro keeps_intros, case_tac y) (simp_all, (intro keeps_intros frame_upd_sk; simp add: slot_defs)+)

end

locale active_frame = quiet_frame +
  assumes active: "P w \<Longrightarrow> i < length (wp_safekeeper w) \<Longrightarrow> slot_active (sk_at w i) s \<Longrightarrow>
      P (w\<lparr>wp_safekeeper := (wp_safekeeper w)[i := s]\<rparr>)"
begin

lemma active_upd_sk: "(\<And>s. slot_active s (f s)) \<Longrightarrow> keeps P (upd_sk i f)"
  unfolding upd_sk_def by (rule keeps_modifyE, case_tac "i < length (wp_safekeeper s)")
    (simp_all add: active list_update_beyond)

lemma active_vote [keeps_intros]: "keeps P (SendVoteRequest A i)"
  unfolding SendVoteRequest_def BlockingWrite_def
  by (intro keeps_intros active_upd_sk; simp add: slot_defs)

lemma active_stream [keeps_intros]: "keeps P (StartStreaming A i)"
  unfolding StartStreaming_def by (intro keeps_intros active_upd_sk; simp add: slot_defs)

lemma active_elected [keeps_intros]: "keeps P (SendProposerElected A i)"
  unfolding SendProposerElected_def AsyncWrite_def
  by (intro keeps_intros; (rule frame_upd_sk active_upd_sk)?; simp add: slot_defs)

lemma active_handle_elected [keeps_intros]: "keeps P (HandleElectedProposer A)"
  unfolding HandleElectedProposer_def ProcessPropStartPos_def finish_sync_def
  by (intro keeps_intros frame_modify; simp add: same_core_def)

end

text \<open>No operation puts a message into a connection's queue.\<close>

definition inbox_within :: "nat \<Rightarrow> nat \<Rightarrow> nat \<Rightarrow> c_WalProposer \<Rightarrow> bool" where
  "inbox_within n i k w \<longleftrightarrow> length (wp_safekeeper w) = n \<and> length (cs_inbox (sk_at w i)) \<le> k"

lemma inbox_slot:
  "inbox_within n i k w \<Longrightarrow> slot_said (sk_at w j) s \<Longrightarrow> inbox_within n i k (w\<lparr>wp_safekeeper := (wp_safekeeper w)[j := s]\<rparr>)"
  by (cases "j = i"; cases "i < length (wp_safekeeper w)") (auto simp: inbox_within_def slot_said_def list_update_beyond)

interpretation inbox: active_frame "inbox_within n i k" for n i k
  by unfold_locales (simp add: same_core_def inbox_within_def, simp_all add: slot_quiet_def slot_active_def inbox_slot)

lemma AsyncRead_Some:
  assumes "AsyncRead i w = (Inr (Some b), w')" and "i < length (wp_safekeeper w)"
  shows "\<exists>bs rs. cs_inbox (sk_at w i) = b # bs \<and>
     w' = w\<lparr>wp_replies := rs, wp_safekeeper := (wp_safekeeper w)[i := (sk_at w i)\<lparr>cs_inbox := bs\<rparr>]\<rparr>"
  using assms
  by (auto simp: AsyncRead_def api_call_run bindE_def elim!: thenE_InrE split: wp_reply.splits list.splits prod.splits sum.splits)

lemma read_message_Some:
  assumes "read_message A i f w = (Inr (Some m), w')" and i: "i < length (wp_safekeeper w)"
  shows "\<exists>b bs rs. cs_inbox (sk_at w i) = b # bs \<and> fst (AsyncReadMessage (wpc_proto_version A) (f ((sk_at w i)\<lparr>cs_inbox := bs, cs_latestMsgReceivedAt := wp_clock w\<rparr>)) b) = Inr (Some m) \<and>
     w' = w\<lparr>wp_replies := rs, wp_safekeeper := (wp_safekeeper w)[i := (sk_at w i)\<lparr>cs_inbox := bs, cs_latestMsgReceivedAt := wp_clock w\<rparr>]\<rparr>"
proof -
  obtain b w1 where "AsyncRead i w = (Inr (Some b), w1)"
    and r: "bindE (getE wp_clock) (\<lambda>now. thenE (upd_sk i (\<lambda>s. s\<lparr>cs_latestMsgReceivedAt := now\<rparr>))
         (bindE (getE (\<lambda>w. f (sk_at w i))) (\<lambda>old.
          bindE (liftR (fst (AsyncReadMessage (wpc_proto_version A) old b))) (\<lambda>m. case m of
            None \<Rightarrow> thenE (ResetConnection i) (retE None)
          | Some m \<Rightarrow> retE (Some m))))) w1 = (Inr (Some m), w')"
    using assms(1) unfolding read_message_def by (auto elim!: bindE_InrE split: option.splits)
  then obtain bs rs where bs: "cs_inbox (sk_at w i) = b # bs"
    and w1: "w1 = w\<lparr>wp_replies := rs, wp_safekeeper := (wp_safekeeper w)[i := (sk_at w i)\<lparr>cs_inbox := bs\<rparr>]\<rparr>"
    using AsyncRead_Some [OF _ i] by blast
  show ?thesis
    using r i bs unfolding w1
    by (auto elim!: bindE_InrE thenE_InrE split: option.splits)
qed

lemma recv_append_progress:
  assumes "recv_append A i w = (Inr True, w')" and i: "i < length (wp_safekeeper w)"
  shows "length (cs_inbox (sk_at w' i)) < length (cs_inbox (sk_at w i)) \<and> length (wp_safekeeper w') = length (wp_safekeeper w)"
proof -
  obtain a w1 where rm: "read_message A i (\<lambda>sk. CAAppendResponse (cs_appendResponse sk)) w = (Inr (Some (CAAppendResponse a)), w1)"
    and r: "thenE (upd_sk i (\<lambda>s. s\<lparr>cs_appendResponse := a\<rparr>))
         (bindE (getE id) (\<lambda>w.
          if car_generation a \<noteq> cm_generation (wp_mconf w) then fatal ''sent response with generation''
          else if car_term a > wp_propTerm w then fatal ''rejected our request, our term''
          else thenE (HandleSafekeeperResponse A) (retE True))) w1 = (Inr True, w')"
    using assms(1) unfolding recv_append_def
    by (auto elim!: bindE_InrE split: option.splits c_AcceptorProposerMessage.splits)
  obtain b bs where bs: "cs_inbox (sk_at w i) = b # bs" and w1: "inbox_within (length (wp_safekeeper w)) i (length bs) w1"
    using read_message_Some [OF rm i] i by (auto simp: inbox_within_def)
  have "keeps (inbox_within (length (wp_safekeeper w)) i (length bs)) (thenE (upd_sk i (\<lambda>s. s\<lparr>cs_appendResponse := a\<rparr>))
         (bindE (getE id) (\<lambda>w.
          if car_generation a \<noteq> cm_generation (wp_mconf w) then fatal ''sent response with generation''
          else if car_term a > wp_propTerm w then fatal ''rejected our request, our term''
          else thenE (HandleSafekeeperResponse A) (retE True))))"
    by (intro keeps_intros inbox.frame_upd_sk) (simp add: slot_defs)
  from keeps_snd [OF this w1] r bs show ?thesis by (simp add: inbox_within_def)
qed

function recv_loop :: "wp_config \<Rightarrow> nat \<Rightarrow> unit wp" where
  "recv_loop A i w =
     (if i \<ge> length (wp_safekeeper w) then (Inl (Panic ''no such slot''), w)
      else case recv_append A i w of
        (Inl e, w') \<Rightarrow> (Inl e, w')
      | (Inr go, w') \<Rightarrow> if go then recv_loop A i w' else (Inr (), w'))"
  by pat_completeness auto
termination
proof (relation "measure (\<lambda>(A, i, w). length (cs_inbox (sk_at w i)))", simp, goal_cases)
  case 1
  show ?case using 1 recv_append_progress by (simp add: not_le)
qed

declare recv_loop.simps [simp del]

definition RecvAppendResponses :: "wp_config \<Rightarrow> nat \<Rightarrow> bool wp" where
  "RecvAppendResponses A i = thenE (recv_loop A i) (getE (\<lambda>w. cs_state (sk_at w i) = SS_ACTIVE))"

definition HandleActiveState :: "wp_config \<Rightarrow> nat \<Rightarrow> wp_events \<Rightarrow> unit wp" where
  "HandleActiveState A i ev = HandleActiveState_with (RecvAppendResponses A) A i ev"

context quiet_frame
begin

lemma frame_recv_loop [keeps_intros]: "keeps P (recv_loop A i)"
proof (rule keepsI)
  show "P w \<Longrightarrow> wp (recv_loop A i) (\<lambda>_. P) (\<lambda>_. P) w" for w
  proof (induction A i w rule: recv_loop.induct)
    case (1 A i w)
    have r: "P w'" if "recv_append A i w = (r, w')" for r w'
      using keeps_snd [OF frame_recv_append 1(2), of A i] that by simp
    show ?case
      using 1 r unfolding wp_def recv_loop.simps [of A i w]
      by (auto split: prod.splits sum.splits)
  qed
qed

lemma frame_HandleActiveState [keeps_intros]: "keeps P (HandleActiveState A i ev)"
  unfolding HandleActiveState_def HandleActiveState_with_def RecvAppendResponses_def SendAppendRequests_def
  by (intro keeps_intros frame_upd_sk; simp add: slot_defs)

end

section \<open>Events\<close>

definition no_events :: wp_events where
  "no_events = \<lparr>ev_readable = False, ev_writeable = False, ev_closed = False\<rparr>"

definition any_event :: "wp_events \<Rightarrow> bool" where
  "any_event e \<longleftrightarrow> ev_readable e \<or> ev_writeable e \<or> ev_closed e"

definition both_events :: "wp_events \<Rightarrow> wp_events \<Rightarrow> wp_events" where
  "both_events d e =
     \<lparr>ev_readable = (ev_readable d \<and> ev_readable e), ev_writeable = (ev_writeable d \<and> ev_writeable e),
      ev_closed = (ev_closed d \<and> ev_closed e)\<rparr>"

text \<open>The events of the safekeeper's socket and of the WAL reader's socket.\<close>

definition SafekeeperStateDesiredEvents :: "wp_config \<Rightarrow> c_Safekeeper \<Rightarrow> wp_events \<times> wp_events" where
  "SafekeeperStateDesiredEvents A sk =
     (let rd = no_events\<lparr>ev_readable := True\<rparr>; wr = no_events\<lparr>ev_writeable := True\<rparr>; rw = rd\<lparr>ev_writeable := True\<rparr>;
          closed = (if any_event (api_wal_reader_events A) then no_events\<lparr>ev_closed := True\<rparr> else no_events)
      in case cs_state sk of
        SS_OFFLINE \<Rightarrow> (no_events, no_events)
      | SS_CONNECTING_WRITE \<Rightarrow> (wr, no_events)
      | SS_SEND_ELECTED_FLUSH \<Rightarrow> (rw, no_events)
      | SS_ACTIVE \<Rightarrow> (case cs_active_state sk of
            SS_ACTIVE_SEND \<Rightarrow> (rd, closed)
          | SS_ACTIVE_READ_WAL \<Rightarrow> (rd, api_wal_reader_events A)
          | SS_ACTIVE_FLUSH \<Rightarrow> (rw, closed))
      | _ \<Rightarrow> (rd, no_events))"

definition AssertEventsOkForState :: "wp_config \<Rightarrow> wp_events \<Rightarrow> nat \<Rightarrow> unit wp" where
  "AssertEventsOkForState A ev i =
     bindE (getE (\<lambda>w. SafekeeperStateDesiredEvents A (sk_at w i))) (\<lambda>(sk_events, nwr_events).
     c_assert (any_event (both_events ev sk_events) \<or> any_event (both_events ev nwr_events)))"

definition AdvancePollState :: "wp_config \<Rightarrow> nat \<Rightarrow> wp_events \<Rightarrow> unit wp" where
  "AdvancePollState A i ev =
     thenE (AssertEventsOkForState A ev i)
     (bindE (getE (\<lambda>w. cs_state (sk_at w i))) (\<lambda>st. case st of
        SS_OFFLINE \<Rightarrow> fatal ''unexpected safekeeper state advancement: is offline''
      | SS_CONNECTING_READ \<Rightarrow> HandleConnectionEvent i
      | SS_CONNECTING_WRITE \<Rightarrow> HandleConnectionEvent i
      | SS_WAIT_EXEC_RESULT \<Rightarrow> RecvStartWALPushResult A i
      | SS_HANDSHAKE_RECV \<Rightarrow> RecvAcceptorGreeting A i
      | SS_WAIT_VOTING \<Rightarrow> ResetConnection i
      | SS_WAIT_VERDICT \<Rightarrow> RecvVoteResponse A i
      | SS_SEND_ELECTED_FLUSH \<Rightarrow> bindE (AsyncFlush i) (\<lambda>ok. if ok then StartStreaming A i else retE ())
      | SS_WAIT_ELECTED \<Rightarrow> ResetConnection i
      | SS_ACTIVE \<Rightarrow> HandleActiveState A i ev))"

section \<open>The poll loop\<close>

datatype wait_result = WaitTimeout | WaitLatch | WaitSocket nat wp_events

text \<open>One round, given what the wait returned: whether to leave the loop.\<close>

definition poll_tail :: "wp_config \<Rightarrow> wait_result \<Rightarrow> bool wp" where
  "poll_tail A r =
     thenE (ReconnectSafekeepers A)
       (bindE (getE id) (\<lambda>w.
        if r = WaitTimeout \<and> \<not> wpc_syncSafekeepers A \<and> api_flush_rec_ptr A > wp_availableLsn w then retE True
        else if r = WaitTimeout \<or> TimeToReconnect A w (wp_clock w) \<le> 0 then
          thenE (if wp_availableLsn w \<noteq> 0 then BroadcastAppendRequest A else retE ())
          (thenE (for_slots (\<lambda>i. bindE (getE id) (\<lambda>w.
             if wp_clock w - cs_latestMsgReceivedAt (sk_at w i) \<ge> wpc_connection_timeout A * 1000
             then ShutdownConnection i else retE ())))
           (retE False))
        else retE False))"

definition poll_round :: "wp_config \<Rightarrow> wait_result \<Rightarrow> bool wp" where
  "poll_round A r =
     (if r = WaitLatch then retE True
      else thenE (case r of WaitSocket i ev \<Rightarrow> if any_event ev then AdvancePollState A i ev else retE () | _ \<Rightarrow> retE ())
        (poll_tail A r))"

text \<open>The loop over the waits of a run; the clock moves on between them.\<close>

fun WalProposerPoll :: "wp_config \<Rightarrow> (int \<times> wait_result) list \<Rightarrow> bool wp" where
  "WalProposerPoll A [] = retE False"
| "WalProposerPoll A ((t, r) # rs) =
     thenE (modifyE (\<lambda>w. w\<lparr>wp_clock := t\<rparr>))
     (bindE (poll_round A r) (\<lambda>leave. if leave then retE True else WalProposerPoll A rs))"

definition WalProposerStart :: "unit wp" where
  "WalProposerStart = for_slots ResetConnection"

section \<open>Creation\<close>

text \<open>\<open>strtoul\<close> in base 10: white space, a sign, digits; the value and what follows, or a range error.\<close>

definition is_space :: "u8 \<Rightarrow> bool" where
  "is_space c \<longleftrightarrow> c = 0x20 \<or> (0x09 \<le> c \<and> c \<le> 0x0D)"

definition is_digit :: "u8 \<Rightarrow> bool" where
  "is_digit c \<longleftrightarrow> 0x30 \<le> c \<and> c \<le> 0x39"

definition digits_value :: "bytes \<Rightarrow> nat" where
  "digits_value ds = foldl (\<lambda>v c. v * 10 + (unat c - 0x30)) 0 ds"

definition strtoul :: "bytes \<Rightarrow> (u64 \<times> bytes) option" where
  "strtoul s =
     (let t = dropWhile is_space s;
          neg = (t \<noteq> [] \<and> hd t = 0x2D);
          u = (if t \<noteq> [] \<and> (hd t = 0x2D \<or> hd t = 0x2B) then tl t else t);
          ds = takeWhile is_digit u
      in if ds = [] then Some (0, s)
         else if digits_value ds \<ge> 2 ^ 64 then None
         else Some (if neg then - word_of_nat (digits_value ds) else word_of_nat (digits_value ds), dropWhile is_digit u))"

definition safekeepers_prefix :: "bytes \<Rightarrow> (Generation \<times> bytes) res" where
  "safekeepers_prefix l =
     (if take 2 l = [0x67, 0x23] then
        (case strtoul (drop 2 l) of
           None \<Rightarrow> Inl (Panic ''failed to parse neon.safekeepers generation number'')
         | Some (g, r) \<Rightarrow>
             if r = [] \<or> hd r \<noteq> 0x3A then Inl (Panic ''failed to parse neon.safekeepers: no colon after generation'')
             else Inr (ucast g, tl r))
      else Inr (INVALID_GENERATION, l))"

text \<open>\<open>snprintf\<close> cuts the connection string to its buffer and returns the length it would have had.\<close>

definition conninfo_text :: "wp_config \<Rightarrow> bytes \<Rightarrow> bytes \<Rightarrow> bytes" where
  "conninfo_text A host port =
     wpc_conninfo_options A @ ascii_bytes '' host='' @ host @ ascii_bytes '' port='' @ port @
     ascii_bytes '' dbname=replication options='' @ [0x27] @ ascii_bytes ''-c timeline_id='' @ wpc_timeline A @
     ascii_bytes '' tenant_id='' @ wpc_tenant A @ [0x27]"

definition zero_safekeeper :: c_Safekeeper where
  "zero_safekeeper =
     \<lparr>cs_host = [], cs_port = [], cs_conninfo = [], cs_startStreamingAt = 0, cs_streamingAt = 0,
      cs_appendRequest = \<lparr>ah_generation = 0, ah_term = 0, ah_begin_lsn = 0, ah_end_lsn = 0, ah_commit_lsn = 0, ah_truncate_lsn = 0\<rparr>,
      cs_state = SS_OFFLINE, cs_active_state = SS_ACTIVE_SEND, cs_latestMsgReceivedAt = 0,
      cs_greetResponse = \<lparr>cag_nodeId = 0, cag_mconf = \<lparr>cm_generation = 0, cm_members = [], cm_new_members = []\<rparr>, cag_term = 0\<rparr>,
      cs_voteResponse = \<lparr>cvr_generation = 0, cvr_term = 0, cvr_voteGiven = 0, cvr_flushLsn = 0, cvr_truncateLsn = 0, cvr_termHistory = []\<rparr>,
      cs_entries_null = True,
      cs_appendResponse = \<lparr>car_generation = 0, car_term = 0, car_flushLsn = 0, car_commitLsn = 0, car_hs = hs_empty,
         car_ps_feedback = c_feedback_zero\<rparr>,
      cs_inbox = []\<rparr>"

definition new_safekeeper :: "wp_config \<Rightarrow> bytes \<Rightarrow> bytes \<Rightarrow> c_Safekeeper res" where
  "new_safekeeper A host port =
     (if length (conninfo_text A host port) > MAXCONNINFO then Inl (Panic ''could not create connection string'')
      else Inr (zero_safekeeper\<lparr>cs_host := host, cs_port := port,
                 cs_conninfo := take (MAXCONNINFO - 1) (conninfo_text A host port)\<rparr>))"

function parse_hosts :: "wp_config \<Rightarrow> bytes \<Rightarrow> nat \<Rightarrow> c_Safekeeper list res" where
  "parse_hosts A s n =
     (if s = [] then Inr []
      else let host = takeWhile (\<lambda>c. c \<noteq> 0x3A) s; p0 = drop (Suc (length host)) s; port = takeWhile (\<lambda>c. c \<noteq> 0x2C) p0;
               sep = drop (Suc (length port)) p0
           in if length host = length s then Inl (Panic ''port is not specified'')
              else if n + 1 \<ge> MAX_SAFEKEEPERS then Inl (Panic ''too many safekeepers'')
              else bind_res (new_safekeeper A host port) (\<lambda>sk. map_res ((#) sk) (parse_hosts A sep (n + 1))))"
  by pat_completeness auto
termination
  by (relation "measure (\<lambda>(A, s, n). length s)") auto

declare parse_hosts.simps [simp del]

text \<open>
  Memory is allocated zeroed. What shared memory holds was left by an earlier proposer of the
  same compute, if there was one. The configuration gives the identifiers of tenant and timeline.
\<close>

definition zero_proposer :: "lsn \<Rightarrow> Term \<Rightarrow> (nat \<times> lsn) option \<Rightarrow> c_WalProposer" where
  "zero_proposer epoch mine dn =
     \<lparr>wp_state = WPS_COLLECTING_TERMS, wp_mconf = \<lparr>cm_generation = INVALID_GENERATION, cm_members = [], cm_new_members = []\<rparr>,
      wp_members_safekeepers = replicate MAX_SAFEKEEPERS None, wp_new_members_safekeepers = replicate MAX_SAFEKEEPERS None,
      wp_quorum = 0, wp_safekeepers_generation = 0, wp_safekeeper = [], wp_availableLsn = 0, wp_commitLsn = 0,
      wp_voteRequest = \<lparr>vq_generation = 0, vq_term = 0\<rparr>, wp_truncateLsn = 0, wp_propTerm = 0, wp_propTermHistory = [],
      wp_propTermStartLsn = 0, wp_donorLastLogTerm = 0, wp_donor = None, wp_n_connected = 0, wp_last_reconnect_attempt = 0,
      shm_propEpochStartLsn = epoch, shm_mineLastElectedTerm = mine, shm_donor = dn, wp_clock = 0, wp_replies = [], wp_sent = []\<rparr>"

definition WalProposerCreate :: "wp_config \<Rightarrow> lsn \<Rightarrow> Term \<Rightarrow> (nat \<times> lsn) option \<Rightarrow> c_WalProposer res" where
  "WalProposerCreate A epoch mine dn =
     bind_res (safekeepers_prefix (wpc_safekeepers_list A)) (\<lambda>(gen, hosts).
     bind_res (parse_hosts A hosts 0) (\<lambda>sks.
     if sks = [] then Inl (Panic ''safekeepers addresses are not specified'')
     else if wpc_proto_version A \<noteq> 2 \<and> wpc_proto_version A \<noteq> 3 then Inl (Panic ''unsupported safekeeper protocol version'')
     else if gen > INVALID_GENERATION \<and> wpc_proto_version A < 3 then Inl (Panic ''enabling generations requires protocol version 3'')
     else Inr ((zero_proposer epoch mine dn)\<lparr>wp_quorum := length sks div 2 + 1, wp_safekeepers_generation := gen, wp_safekeeper := sks\<rparr>)))"

end
