(* ===== verification/Proposer_Quorum.thy ===== *)
theory Proposer_Quorum
  imports Proposer
begin

text \<open>
  What the WAL proposer computes from the answers of the safekeepers: the position a quorum has
  acknowledged, the highest vote, the point from which a safekeeper is streamed to, and the
  append requests a connection is sent.
\<close>

named_theorems run_simps \<open>running the first step of a program\<close>

lemma run_first [run_simps]:
  "bindE (getE f) k s = k (f s) s"
  "bindE (retE x) k s = k x s"
  "thenE (retE x) m s = m s"
  "thenE (modifyE g) m s = m (g s)"
  "thenE (guardE c e) m s = (if c then m s else (Inl e, s))"
  "thenE (upd_sk i h) m' w = m' (w\<lparr>wp_safekeeper := (wp_safekeeper w)[i := h (wp_safekeeper w ! i)]\<rparr>)"
  by (simp_all add: bindE_def thenE_def getE_def modifyE_def guardE_def retE_def failE_def)

section \<open>Quorums\<close>

lemma sorted_count_ge:
  fixes xs :: "'a :: linorder list"
  assumes "sorted xs" and "0 < q" and "q \<le> length xs"
  shows "l \<le> xs ! (length xs - q) \<longleftrightarrow> q \<le> length (filter (\<lambda>x. l \<le> x) xs)"
proof
  assume l: "l \<le> xs ! (length xs - q)"
  have "l \<le> x" if x: "x \<in> set (drop (length xs - q) xs)" for x
  proof -
    obtain j where "j < q" "x = xs ! (length xs - q + j)" using x assms(3) by (auto simp: in_set_conv_nth)
    then have "xs ! (length xs - q) \<le> x" using assms(1,3) by (auto intro!: sorted_nth_mono)
    with l show ?thesis by (rule order_trans)
  qed
  then have "filter (\<lambda>x. l \<le> x) (drop (length xs - q) xs) = drop (length xs - q) xs" by simp
  then have "length (filter (\<lambda>x. l \<le> x) (take (length xs - q) xs @ drop (length xs - q) xs)) \<ge> q"
    using assms(3) unfolding filter_append by simp
  then show "q \<le> length (filter (\<lambda>x. l \<le> x) xs)" by simp
next
  assume n: "q \<le> length (filter (\<lambda>x. l \<le> x) xs)"
  show "l \<le> xs ! (length xs - q)"
  proof (rule ccontr)
    assume nl: "\<not> l \<le> xs ! (length xs - q)"
    let ?k = "Suc (length xs - q)"
    have "\<not> l \<le> x" if x: "x \<in> set (take ?k xs)" for x
    proof -
      obtain j where "j < ?k" "j < length xs" "x = xs ! j" using x by (auto simp: in_set_conv_nth)
      then have "x \<le> xs ! (length xs - q)" using assms by (auto intro!: sorted_nth_mono)
      then show ?thesis using nl order_trans by blast
    qed
    then have "filter (\<lambda>x. l \<le> x) (take ?k xs) = []" by (simp add: filter_empty_conv)
    then have "length (filter (\<lambda>x. l \<le> x) (take ?k xs @ drop ?k xs)) \<le> length (drop ?k xs)"
      unfolding filter_append using length_filter_le [of "\<lambda>x. l \<le> x" "drop ?k xs"] by simp
    with n assms show False by simp
  qed
qed

lemma quorum_lsn_iff:
  assumes "0 < q" and "q \<le> length xs"
  shows "l \<le> quorum_lsn q xs \<longleftrightarrow> q \<le> length (filter (\<lambda>x. l \<le> x) xs)"
proof -
  have "length (filter (\<lambda>x. l \<le> x) (sort xs)) = length (filter (\<lambda>x. l \<le> x) xs)"
    by (simp add: filter_sort)
  then show ?thesis
    using sorted_count_ge [of "sort xs" q l] assms by (simp add: quorum_lsn_def)
qed

text \<open>A member acknowledged a position: its connection reported at least it, and not less than the start of the term.\<close>

definition acked :: "c_WalProposer \<Rightarrow> lsn \<Rightarrow> nat option \<Rightarrow> bool" where
  "acked w l p = (case p of None \<Rightarrow> False
     | Some i \<Rightarrow> let f = car_flushLsn (cs_appendResponse (sk_at w i)) in l \<le> f \<and> wp_propTermStartLsn w \<le> f)"

lemma acked_iff: "0 < l \<Longrightarrow> l \<le> member_ack w p \<longleftrightarrow> acked w l p"
  by (auto simp: member_ack_def ack_lsn_def acked_def Let_def word_gt_0 split: option.splits)

lemma MsetQuorum_bounds: "0 < n \<Longrightarrow> 0 < MsetQuorum n \<and> MsetQuorum n \<le> n"
  by (auto simp: MsetQuorum_def)

lemma committed_iff:
  assumes "ms \<noteq> []" and "length ms \<le> length ptrs" and "0 < l"
  shows "l \<le> GetCommittedMset w ms ptrs \<longleftrightarrow> MsetHasQuorum (length ms) (length (filter (acked w l) (take (length ms) ptrs)))"
  unfolding GetCommittedMset_def MsetHasQuorum_def
  using assms MsetQuorum_bounds [of "length ms"]
  by (subst quorum_lsn_iff) (auto simp: member_slots_def filter_map comp_def acked_iff)


section \<open>The start of streaming\<close>

lemma common_terms_idx:
  "common_terms ps ss = Inr n \<Longrightarrow> last_common_idx ps ss i acc = Inr (if n = 0 then acc else Some (i + n - 1))"
  by (induction ps ss arbitrary: n i acc rule: common_terms.induct) (auto simp: map_res_Inr split: if_splits)

lemma common_terms_fails: "isl (common_terms ps ss) \<longleftrightarrow> isl (last_common_idx ps ss i acc)"
  by (induction ps ss arbitrary: i acc rule: common_terms.induct) (auto simp: map_res_def split: sum.splits)

lemma common_terms_le: "common_terms ps ss = Inr n \<Longrightarrow> n \<le> length ps \<and> n \<le> length ss"
  by (induction ps ss arbitrary: n rule: common_terms.induct) (auto simp: map_res_Inr split: if_splits)

lemma history_last_iff:
  assumes "history_ok th" and "i < length th"
  shows "tl_term (th ! i) = tl_term (last th) \<longleftrightarrow> i = length th - 1"
proof -
  have "th \<noteq> []" using assms(2) by auto
  then have l: "last th = th ! (length th - 1)" by (rule last_conv_nth)
  show ?thesis
  proof (cases "i = length th - 1")
    case False
    then have "tl_term (th ! i) < tl_term (th ! (length th - 1))"
      using assms sorted_wrt_nth_less [of "\<lambda>a b. tl_term a < tl_term b \<and> tl_lsn a \<le> tl_lsn b" th i "length th - 1"]
      by (auto simp: history_ok_def)
    with False show ?thesis unfolding l by simp
  qed (simp add: l)
qed

section \<open>The highest vote\<close>

text \<open>Votes are compared by the last term of the log, then by its end.\<close>

definition vote_le :: "Term \<times> lsn \<Rightarrow> Term \<times> lsn \<Rightarrow> bool" where
  "vote_le a b \<longleftrightarrow> fst a < fst b \<or> (fst a = fst b \<and> snd a \<le> snd b)"

definition vote_rank :: "c_Safekeeper \<Rightarrow> Term \<times> lsn" where
  "vote_rank sk = (GetHighestTerm (cvr_termHistory (cs_voteResponse sk)), cvr_flushLsn (cs_voteResponse sk))"

definition best_vote :: "c_WalProposer \<Rightarrow> Term \<times> lsn" where
  "best_vote w = (wp_donorLastLogTerm w, wp_propTermStartLsn w)"

lemma vote_le_refl [simp]: "vote_le a a"
  by (simp add: vote_le_def)

lemma vote_le_trans: "vote_le a b \<Longrightarrow> vote_le b c \<Longrightarrow> vote_le a c"
  by (auto simp: vote_le_def)

lemma vote_le_antisym: "vote_le a b \<Longrightarrow> vote_le b a \<Longrightarrow> a = b"
  by (cases a; cases b) (auto simp: vote_le_def)

lemma vote_le_zero [simp]: "vote_le (0, 0) a"
  by (cases a) (auto simp: vote_le_def word_gt_0)

text \<open>What counting the votes of some slots does to the proposer.\<close>

definition tally :: "c_WalProposer \<Rightarrow> nat set \<Rightarrow> c_WalProposer \<Rightarrow> bool" where
  "tally w S w' \<longleftrightarrow>
     same_core w w' \<and> vote_le (best_vote w) (best_vote w') \<and> wp_truncateLsn w \<le> wp_truncateLsn w' \<and>
     (\<forall>i \<in> S. vote_le (vote_rank (sk_at w i)) (best_vote w') \<and> cvr_truncateLsn (cs_voteResponse (sk_at w i)) \<le> wp_truncateLsn w') \<and>
     (best_vote w' = best_vote w \<and> wp_donor w' = wp_donor w \<or>
      (best_vote w' \<noteq> best_vote w \<or> wp_donor w = None) \<and> (\<exists>i \<in> S. wp_donor w' = Some i \<and> vote_rank (sk_at w i) = best_vote w'))"

definition donor_set :: "c_WalProposer \<Rightarrow> bool" where
  "donor_set w \<longleftrightarrow> (wp_donor w = None \<longrightarrow> best_vote w = (0, 0))"

lemma tally_refl: "tally w {} w"
  by (simp add: tally_def same_core_def)

lemma tally_trans: "tally w S w1 \<Longrightarrow> tally w1 T w2 \<Longrightarrow> tally w (S \<union> T) w2"
  unfolding tally_def same_core_def by (auto intro: vote_le_trans order_trans dest: vote_le_antisym)

lemma tally_donor_set: "tally w S w' \<Longrightarrow> donor_set w \<Longrightarrow> donor_set w'"
  by (auto simp: tally_def donor_set_def)

lemma take_vote_tally:
  assumes "take_vote i w = (Inr x, w')" and "donor_set w"
  shows "tally w {i} w'"
  using assms
  by (auto simp: take_vote_def Let_def GetLastLogTerm_def vote_history_def tally_def same_core_def best_vote_def vote_rank_def
      vote_le_def map_res_def donor_set_def not_less not_le elim!: bindE_InrE thenE_InrE split: if_splits)

definition elected_slot :: "c_WalProposer \<Rightarrow> nat option \<Rightarrow> bool" where
  "elected_slot w p \<longleftrightarrow> (case p of None \<Rightarrow> False | Some i \<Rightarrow> cs_state (sk_at w i) = SS_WAIT_ELECTED)"

lemma elected_slot_core: "same_core w w' \<Longrightarrow> elected_slot w' = elected_slot w"
  by (auto simp: elected_slot_def same_core_def fun_eq_iff split: option.splits)

lemma count_votes_tally:
  assumes "count_votes ps n w = (Inr m, w')" and "donor_set w"
  shows "tally w {i. Some i \<in> set (filter (elected_slot w) ps)} w' \<and> m = n + length (filter (elected_slot w) ps)"
  using assms
proof (induction ps n arbitrary: w rule: count_votes.induct)
  case (2 p ps n)
  show ?case
  proof (cases "elected_slot w p")
    case False
    then show ?thesis using 2 by (auto simp: elected_slot_def bindE_def getE_def split: option.splits if_splits)
  next
    case True
    then obtain i where i: "p = Some i" "cs_state (sk_at w i) = SS_WAIT_ELECTED"
      by (auto simp: elected_slot_def split: option.splits)
    obtain x w1 where t: "take_vote i w = (Inr x, w1)" and c: "count_votes ps (n + 1) w1 = (Inr m, w')"
      using 2(4) i by (auto simp: bindE_def getE_def elim!: thenE_InrE split: if_splits)
    have t1: "tally w {i} w1" by (rule take_vote_tally [OF t 2(5)])
    have e: "elected_slot w1 = elected_slot w" using t1 by (simp add: tally_def elected_slot_core)
    have "tally w1 {i. Some i \<in> set (filter (elected_slot w) ps)} w' \<and> m = n + 1 + length (filter (elected_slot w) ps)"
      using 2(2) [OF i c tally_donor_set [OF t1 2(5)]] e by simp
    moreover have "{i. Some i \<in> set (filter (elected_slot w) (p # ps))} = {i} \<union> {i. Some i \<in> set (filter (elected_slot w) ps)}"
      using True i(1) by auto
    ultimately show ?thesis
      using tally_trans [OF t1, of _ w'] True by simp
  qed
qed (simp add: tally_refl)


lemma count_ready_tally:
  assumes "count_ready is n w = (Inr m, w')" and "donor_set w"
  shows "tally w {i. Some i \<in> set (filter (elected_slot w) (map Some is))} w' \<and> m = n + length (filter (elected_slot w) (map Some is))"
  using assms
proof (induction "is" n arbitrary: w rule: count_ready.induct)
  case (2 i "is" n)
  show ?case
  proof (cases "elected_slot w (Some i)")
    case False
    then show ?thesis using 2 by (auto simp: elected_slot_def bindE_def getE_def split: if_splits)
  next
    case True
    then have i: "cs_state (sk_at w i) = SS_WAIT_ELECTED" by (simp add: elected_slot_def)
    obtain x w1 where t: "take_vote i w = (Inr x, w1)" and c: "count_ready is (n + 1) w1 = (Inr m, w')"
      using 2(3) i by (auto simp: bindE_def getE_def elim!: thenE_InrE)
    have t1: "tally w {i} w1" by (rule take_vote_tally [OF t 2(4)])
    have e: "elected_slot w1 = elected_slot w" using t1 by (simp add: tally_def elected_slot_core)
    have "tally w1 {i. Some i \<in> set (filter (elected_slot w) (map Some is))} w' \<and>
        m = n + 1 + length (filter (elected_slot w) (map Some is))"
      using 2(1) [OF i c tally_donor_set [OF t1 2(4)]] e by simp
    moreover have "{j. Some j \<in> set (filter (elected_slot w) (map Some (i # is)))} = {i} \<union> {j. Some j \<in> set (filter (elected_slot w) (map Some is))}"
      using True by auto
    ultimately show ?thesis
      using tally_trans [OF t1, of _ w'] True by simp
  qed
qed (simp add: tally_refl)

text \<open>The slots whose votes count, and whether a quorum of them gave one.\<close>

definition no_generations :: "c_WalProposer \<Rightarrow> bool" where
  "no_generations w \<longleftrightarrow> \<not> WalProposerGenerationsEnabled w \<and> cm_generation (wp_mconf w) = INVALID_GENERATION"

definition vote_slots :: "c_WalProposer \<Rightarrow> nat option list" where
  "vote_slots w =
     (if no_generations w then map Some [0..<length (wp_safekeeper w)]
      else member_slots (cm_members (wp_mconf w)) (wp_members_safekeepers w) @
           member_slots (cm_new_members (wp_mconf w)) (wp_new_members_safekeepers w))"

definition voters :: "c_WalProposer \<Rightarrow> nat set" where
  "voters w = {i. Some i \<in> set (filter (elected_slot w) (vote_slots w))}"

definition mset_elected :: "c_WalProposer \<Rightarrow> SafekeeperId list \<Rightarrow> nat option list \<Rightarrow> bool" where
  "mset_elected w ms ptrs \<longleftrightarrow> MsetHasQuorum (length ms) (length (filter (elected_slot w) (member_slots ms ptrs)))"

definition quorum_elected :: "c_WalProposer \<Rightarrow> bool" where
  "quorum_elected w \<longleftrightarrow>
     (if no_generations w then wp_quorum w \<le> length (filter (elected_slot w) (vote_slots w))
      else mset_elected w (cm_members (wp_mconf w)) (wp_members_safekeepers w) \<and>
           (cm_new_members (wp_mconf w) \<noteq> [] \<longrightarrow> mset_elected w (cm_new_members (wp_mconf w)) (wp_new_members_safekeepers w)))"

definition vote_reset :: "c_WalProposer \<Rightarrow> c_WalProposer" where
  "vote_reset w = w\<lparr>wp_propTermStartLsn := 0, wp_donorLastLogTerm := 0, wp_truncateLsn := 0\<rparr>"

lemma mset_votes_tally:
  assumes "VotesCollectedMset ms ptrs w = (Inr c, w')" and "donor_set w"
  shows "tally w {i. Some i \<in> set (filter (elected_slot w) (member_slots ms ptrs))} w' \<and> c = mset_elected w ms ptrs"
  using assms
  by (auto simp: VotesCollectedMset_def mset_elected_def elim!: bindE_InrE thenE_InrE dest!: count_votes_tally split: if_splits)

lemma vote_reset_same:
  "same_core w (vote_reset w)" "donor_set (vote_reset w)" "elected_slot (vote_reset w) = elected_slot w"
  "no_generations (vote_reset w) = no_generations w"
proof -
  show c: "same_core w (vote_reset w)" by (simp add: vote_reset_def same_core_def)
  show "elected_slot (vote_reset w) = elected_slot w" by (rule elected_slot_core [OF c])
qed (simp_all add: vote_reset_def donor_set_def best_vote_def no_generations_def WalProposerGenerationsEnabled_def)

lemma mset_elected_core: "same_core w w' \<Longrightarrow> mset_elected w' = mset_elected w"
  by (simp add: mset_elected_def fun_eq_iff elected_slot_core)

lemma VotesCollected_tally:
  assumes "VotesCollected w = (Inr True, w')"
  shows "wp_state w = WPS_CAMPAIGN \<and> tally (vote_reset w) (voters w) w' \<and> quorum_elected w"
proof -
  let ?w = "vote_reset w" and ?mc = "wp_mconf w"
  note r = vote_reset_same [of w]
  have same: "wp_mconf ?w = ?mc" "wp_safekeeper ?w = wp_safekeeper w" "wp_members_safekeepers ?w = wp_members_safekeepers w"
    "wp_new_members_safekeepers ?w = wp_new_members_safekeepers w" "wp_quorum ?w = wp_quorum w"
    by (simp_all add: vote_reset_def)
  have st: "wp_state w = WPS_CAMPAIGN" and
    v0: "(let mc = wp_mconf ?w in if no_generations ?w then
        bindE (count_ready [0..<length (wp_safekeeper ?w)] 0) (\<lambda>n_ready. retE (n_ready \<ge> wp_quorum ?w))
      else thenE (c_assert (cm_generation mc \<noteq> INVALID_GENERATION))
        (bindE (VotesCollectedMset (cm_members mc) (wp_members_safekeepers ?w)) (\<lambda>c.
         if \<not> c then retE False
         else if cm_new_members mc \<noteq> [] then VotesCollectedMset (cm_new_members mc) (wp_new_members_safekeepers ?w)
         else retE True))) ?w = (Inr True, w')"
    using assms
    by (auto simp only: VotesCollected_def run_simps id_apply vote_reset_def no_generations_def Let_def Inl_not_Inr prod.inject split: if_splits)
  note v = v0 [unfolded same r(4) Let_def]
  show ?thesis
  proof (cases "no_generations w")
    case True
    then show ?thesis
      using v st r by (auto simp: voters_def vote_slots_def quorum_elected_def elim!: bindE_InrE dest!: count_ready_tally)
  next
    case False
    obtain w1 where v1: "VotesCollectedMset (cm_members ?mc) (wp_members_safekeepers w) ?w = (Inr True, w1)"
      and v2: "if cm_new_members ?mc \<noteq> [] then VotesCollectedMset (cm_new_members ?mc) (wp_new_members_safekeepers w) w1 = (Inr True, w')
        else w' = w1"
      using v False by (auto elim!: bindE_InrE thenE_InrE split: if_splits)
    note t1 = mset_votes_tally [OF v1 r(2)]
    have c1: "same_core ?w w1" using t1 by (simp add: tally_def)
    have e: "elected_slot w1 = elected_slot w" "mset_elected w1 = mset_elected w" "mset_elected ?w = mset_elected w"
      using elected_slot_core [OF c1] mset_elected_core [OF c1] mset_elected_core [OF r(1)] r(3) by simp_all
    show ?thesis
    proof (cases "cm_new_members ?mc = []")
      case True
      then show ?thesis
        using t1 v2 False r st e by (simp add: voters_def vote_slots_def quorum_elected_def member_slots_def)
    next
      case new: False
      then have t2: "tally w1 {i. Some i \<in> set (filter (elected_slot w1) (member_slots (cm_new_members ?mc) (wp_new_members_safekeepers w)))} w' \<and>
          True = mset_elected w1 (cm_new_members ?mc) (wp_new_members_safekeepers w)"
        using mset_votes_tally tally_donor_set [OF conjunct1 [OF t1] r(2)] v2 by auto
      show ?thesis
        using tally_trans [OF conjunct1 [OF t1] conjunct1 [OF t2]] t1 t2 False new r(3) st e
        by (simp add: voters_def vote_slots_def quorum_elected_def Un_def conj_disj_distribR)
    qed
  qed
qed

section \<open>Append requests\<close>

text \<open>A request the safekeeper accepts: its range does not wrap and is not too long.\<close>

definition req_ok :: "AppendRequestHeader \<Rightarrow> bool" where
  "req_ok r \<longleftrightarrow> ah_begin_lsn r \<le> ah_end_lsn r \<and> unat (ah_end_lsn r - ah_begin_lsn r) \<le> MAX_SEND_SIZE"

definition requests :: "nat \<Rightarrow> AppendRequestHeader list \<Rightarrow> (nat \<times> c_ProposerAcceptorMessage) list" where
  "requests i rs = map (\<lambda>r. (i, CAppendRequest r)) rs"

lemma request_range_ok:
  assumes "b \<le> e" and "e \<le> b + word_of_nat MAX_SEND_SIZE \<or> e = b + word_of_nat MAX_SEND_SIZE"
  shows "unat (e - b :: lsn) \<le> MAX_SEND_SIZE"
proof -
  have "unat (e - b) = unat e - unat b" using assms(1) by (simp add: unat_sub)
  moreover have "unat (b + word_of_nat MAX_SEND_SIZE) \<le> unat b + unat (word_of_nat MAX_SEND_SIZE :: lsn)"
    unfolding unat_word_ariths(1) by (rule mod_less_eq_dividend)
  moreover have "unat (word_of_nat MAX_SEND_SIZE :: lsn) = MAX_SEND_SIZE" by (simp add: MAX_SEND_SIZE_def)
  ultimately show ?thesis using assms(2) by (auto simp: word_le_nat_alt)
qed

text \<open>A sequence of requests that covers a range of the log without gap or overlap.\<close>

fun covers :: "lsn \<Rightarrow> lsn \<Rightarrow> AppendRequestHeader list \<Rightarrow> bool" where
  "covers b e [] \<longleftrightarrow> b = e"
| "covers b e (r # rs) \<longleftrightarrow> ah_begin_lsn r = b \<and> req_ok r \<and> covers (ah_end_lsn r) e rs"

definition append_request :: "c_WalProposer \<Rightarrow> lsn \<Rightarrow> lsn \<Rightarrow> AppendRequestHeader" where
  "append_request w b e =
     \<lparr>ah_generation = cm_generation (wp_mconf w), ah_term = wp_propTerm w, ah_begin_lsn = b, ah_end_lsn = e,
      ah_commit_lsn = wp_commitLsn w, ah_truncate_lsn = wp_truncateLsn w\<rparr>"

lemma wp_serialize_append:
  "wpc_proto_version A \<in> {2, 3} \<Longrightarrow> wp_serialize A (CAppendRequest r) w = (Inr (), w)"
  by (auto simp: wp_serialize_def PAMessageSerialize_def PAMessageSerialize_v2_def bindE_def liftR_def retE_def)

lemma send_round_ok:
  fixes w :: c_WalProposer
  assumes "i < length (wp_safekeeper w)" and "wp_replies w = []" and "cs_active_state (sk_at w i) = SS_ACTIVE_SEND"
    and "wpc_proto_version A \<in> {2, 3}"
    and b: "b = cs_streamingAt (sk_at w i)"
    and e: "e = (if b + word_of_nat MAX_SEND_SIZE > wp_availableLsn w then wp_availableLsn w else b + word_of_nat MAX_SEND_SIZE)"
    and "b \<le> e"
  shows "send_round A i w = (Inr None, w\<lparr>wp_sent := wp_sent w @ [(i, CAppendRequest (append_request w b e))],
     wp_safekeeper := (wp_safekeeper w)[i := (sk_at w i)\<lparr>cs_appendRequest := append_request w b e, cs_streamingAt := e,
       cs_active_state := SS_ACTIVE_SEND\<rparr>]\<rparr>)"
proof -
  have p: "prepare_round A i w = (Inr (), w\<lparr>wp_safekeeper := (wp_safekeeper w)[i := (sk_at w i)\<lparr>
      cs_appendRequest := append_request w b e, cs_active_state := SS_ACTIVE_READ_WAL\<rparr>]\<rparr>)"
    using assms(1,7) wp_serialize_append [OF assms(4)] unfolding prepare_round_def PrepareAppendRequest_def Let_def b [symmetric] run_simps id_apply
    by (simp add: e [symmetric] bindE_def thenE_def getE_def guardE_def retE_def append_request_def)
  show ?thesis
    using assms(1-3) p
    by (simp add: send_round_def write_request_def bindE_def thenE_def api_call_def getE_def retE_def append_request_def)
qed

lemma send_loop_covers:
  assumes "i < length (wp_safekeeper w)" and "wp_replies w = []" and "cs_active_state (sk_at w i) = SS_ACTIVE_SEND"
    and "wpc_proto_version A \<in> {2, 3}" and "cs_streamingAt (sk_at w i) \<le> wp_availableLsn w"
    and "unat (wp_availableLsn w) + MAX_SEND_SIZE < 2 ^ 64"
  shows "\<exists>w' rs. send_loop A i sent w = (Inr True, w') \<and> wp_sent w' = wp_sent w @ requests i rs \<and> (\<not> sent \<longrightarrow> rs \<noteq> []) \<and>
     covers (cs_streamingAt (sk_at w i)) (wp_availableLsn w) rs \<and>
     (\<forall>r \<in> set rs. r = append_request w (ah_begin_lsn r) (ah_end_lsn r)) \<and>
     cs_streamingAt (sk_at w' i) = wp_availableLsn w \<and> cs_state (sk_at w' i) = cs_state (sk_at w i)"
  using assms
proof (induction A i sent w rule: send_loop.induct)
  case (1 A i sent w)
  define b where "b = cs_streamingAt (sk_at w i)"
  define e where "e = (if b + word_of_nat MAX_SEND_SIZE > wp_availableLsn w then wp_availableLsn w else b + word_of_nat MAX_SEND_SIZE)"
  define r where "r = append_request w b e"
  define w1 where "w1 = w\<lparr>wp_sent := wp_sent w @ [(i, CAppendRequest r)],
     wp_safekeeper := (wp_safekeeper w)[i := (sk_at w i)\<lparr>cs_appendRequest := r, cs_streamingAt := e,
       cs_active_state := SS_ACTIVE_SEND\<rparr>]\<rparr>"
  have m: "unat (word_of_nat MAX_SEND_SIZE :: lsn) = MAX_SEND_SIZE" by (simp add: MAX_SEND_SIZE_def)
  have ba: "b \<le> wp_availableLsn w" using 1(6) by (simp add: b_def)
  have "unat (b + word_of_nat MAX_SEND_SIZE) = unat b + MAX_SEND_SIZE"
    using 1(7) ba by (simp add: unat_word_ariths m word_le_nat_alt)
  then have be: "b \<le> e" "e \<le> wp_availableLsn w" using ba by (auto simp: e_def word_le_nat_alt not_less)
  have rok: "req_ok r"
    using be(1) by (simp add: r_def req_ok_def append_request_def) (rule request_range_ok, auto simp: e_def)
  show ?case
  proof (cases "cs_streamingAt (sk_at w i) = wp_availableLsn w \<and> sent")
    case True
    then show ?thesis
      using 1(2) by (intro exI [of _ w] exI [of _ "[]"]) (simp add: send_loop.simps [of A i True w] requests_def)
  next
    case False
    have s: "send_round A i w = (Inr None, w1)"
      unfolding w1_def r_def by (rule send_round_ok [OF 1(2-5) b_def e_def be(1)])
    have f: "i < length (wp_safekeeper w1)" "wp_replies w1 = []" "cs_active_state (sk_at w1 i) = SS_ACTIVE_SEND"
      "cs_streamingAt (sk_at w1 i) = e" "wp_availableLsn w1 = wp_availableLsn w" "cs_state (sk_at w1 i) = cs_state (sk_at w i)"
      "append_request w1 = append_request w" "wp_sent w1 = wp_sent w @ [(i, CAppendRequest r)]"
      using 1(2-4) by (simp_all add: w1_def append_request_def fun_eq_iff)
    obtain w' rs where w': "send_loop A i True w1 = (Inr True, w')" "wp_sent w' = wp_sent w1 @ requests i rs"
      "covers e (wp_availableLsn w) rs" "\<forall>r \<in> set rs. r = append_request w (ah_begin_lsn r) (ah_end_lsn r)"
      "cs_streamingAt (sk_at w' i) = wp_availableLsn w" "cs_state (sk_at w' i) = cs_state (sk_at w i)"
      using 1(1) [OF _ False s [symmetric] refl refl f(1-3) 1(5)] f(4-7) 1(2,4,7) be(2) by auto
    have "send_loop A i sent w = (Inr True, w')"
      using False s w'(1) 1(2,4) by (auto simp: send_loop.simps [of A i sent w])
    then show ?thesis
      using w' f(8) rok by (intro exI [of _ w'] exI [of _ "r # rs"]) (simp add: requests_def r_def append_request_def b_def)
  qed
qed


section \<open>A sample proposer\<close>

definition sample_wp_config :: wp_config where
  "sample_wp_config =
     \<lparr>cc_systemId = 7, cc_pgTimeline = 1, cc_wal_segment_size = 0x1000000, wpc_tenant = [], wpc_timeline = [],
      wpc_safekeepers_list = [], wpc_conninfo_options = [], wpc_reconnect_timeout = 1000, wpc_connection_timeout = 10000,
      wpc_syncSafekeepers = False, wpc_proto_version = 3, api_pg_version_num = 170000, api_redo_start_lsn = 0x16B9200,
      api_flush_rec_ptr = 0, api_replica_promote = False,
      api_wal_reader_events = \<lparr>ev_readable = False, ev_writeable = False, ev_closed = False\<rparr>, api_stack = []\<rparr>"

text \<open>Three members whose connections reported the given flushed positions and votes.\<close>

definition sample_slot :: "lsn \<Rightarrow> Term \<Rightarrow> c_Safekeeper" where
  "sample_slot l t = zero_safekeeper\<lparr>
     cs_state := SS_WAIT_ELECTED, cs_entries_null := False,
     cs_voteResponse := \<lparr>cvr_generation = 1, cvr_term = 5, cvr_voteGiven = 1, cvr_flushLsn = l, cvr_truncateLsn = 8,
       cvr_termHistory = [\<lparr>tl_term = t, tl_lsn = 8\<rparr>]\<rparr>,
     cs_appendResponse := (cs_appendResponse zero_safekeeper)\<lparr>car_flushLsn := l\<rparr>\<rparr>"

definition sample_proposer :: c_WalProposer where
  "sample_proposer = (zero_proposer 0 0 None)\<lparr>
     wp_state := WPS_CAMPAIGN, wp_propTerm := 5, wp_propTermStartLsn := 10, wp_quorum := 2,
     wp_mconf := \<lparr>cm_generation = 1, cm_members = map (\<lambda>n. \<lparr>sk_id = n, sk_host = [], sk_pg_port = 0\<rparr>) [1, 2, 3], cm_new_members = []\<rparr>,
     wp_members_safekeepers := [Some 0, Some 1, Some 2] @ replicate 29 None,
     wp_safekeeper := [sample_slot 30 2, sample_slot 20 3, sample_slot 5 1]\<rparr>"

lemmas sample_defs = sample_proposer_def zero_proposer_def sample_slot_def zero_safekeeper_def INVALID_GENERATION_def

lemma sample_fields [simp]:
  "cm_generation (wp_mconf sample_proposer) = 1" "cm_new_members (wp_mconf sample_proposer) = []"
  "length (cm_members (wp_mconf sample_proposer)) = 3" "\<not> no_generations sample_proposer"
  "wp_members_safekeepers sample_proposer = [Some 0, Some 1, Some 2] @ replicate 29 None"
  "wp_safekeeper sample_proposer = [sample_slot 30 2, sample_slot 20 3, sample_slot 5 1]"
  "wp_propTermStartLsn sample_proposer = 10" "wp_state sample_proposer = WPS_CAMPAIGN"
  by (simp_all add: sample_defs no_generations_def)

section \<open>Properties\<close>

text \<open>C26: With a membership configuration, a position counts as committed exactly when more than half of
  the members (and, while membership is changing, more than half of the new members too) have
  reported a flushed position at or above it, not counting reports below the start of the
  proposer's own term.\<close>

theorem commit_is_acked_by_quorum:
  assumes "\<not> no_generations w" and "0 < l"
    and "cm_members (wp_mconf w) \<noteq> []"
    and "length (cm_members (wp_mconf w)) \<le> length (wp_members_safekeepers w)"
    and "length (cm_new_members (wp_mconf w)) \<le> length (wp_new_members_safekeepers w)"
  shows "l \<le> GetAcknowledgedByQuorumWALPosition w \<longleftrightarrow>
     MsetHasQuorum (length (cm_members (wp_mconf w)))
       (length (filter (acked w l) (take (length (cm_members (wp_mconf w))) (wp_members_safekeepers w)))) \<and>
     (cm_new_members (wp_mconf w) \<noteq> [] \<longrightarrow> MsetHasQuorum (length (cm_new_members (wp_mconf w)))
       (length (filter (acked w l) (take (length (cm_new_members (wp_mconf w))) (wp_new_members_safekeepers w)))))"
  using assms committed_iff [OF assms(3,4,2), of w] committed_iff [OF _ assms(5,2), of w]
  unfolding GetAcknowledgedByQuorumWALPosition_def no_generations_def [symmetric] Let_def by auto

theorem commit_is_acked_by_quorum_witness:
  "20 \<le> GetAcknowledgedByQuorumWALPosition sample_proposer \<and> \<not> 21 \<le> GetAcknowledgedByQuorumWALPosition sample_proposer"
proof -
  have m: "cm_members (wp_mconf sample_proposer) \<noteq> []" by (simp add: sample_defs)
  have l: "length (cm_members (wp_mconf sample_proposer)) \<le> length (wp_members_safekeepers sample_proposer)" by simp
  have n: "length (cm_new_members (wp_mconf sample_proposer)) \<le> length (wp_new_members_safekeepers sample_proposer)" by simp
  have f: "car_flushLsn (cs_appendResponse (sample_slot k t)) = k" for k t by (simp add: sample_slot_def)
  show ?thesis
    using commit_is_acked_by_quorum [OF sample_fields(4) _ m l n, of 20] commit_is_acked_by_quorum [OF sample_fields(4) _ m l n, of 21]
    by (simp add: acked_def f MsetHasQuorum_def MsetQuorum_def numeral_3_eq_3)
qed

text \<open>C28: The point from which the elected proposer streams to a safekeeper is the one the safekeeper
  itself computes from the same histories as the end of the common log, and the beginning of the
  proposer's history if the two have no term in common.\<close>

theorem start_streaming_agrees:
  assumes "history_ok prop_th" and "prop_th \<noteq> []" and "tl_term (last prop_th) = propTerm"
    and "find_highest_common_point prop_th th flushLsn = Inr r"
  shows "start_streaming_at propTerm prop_th th flushLsn =
     Inr (case r of Some p \<Rightarrow> tl_lsn p | None \<Rightarrow> tl_lsn (hd prop_th))"
proof -
  have "\<not> isl (last_common_idx prop_th th 0 None)"
    using assms(4) by (auto simp: find_highest_common_point_def split: if_splits sum.splits)
  then obtain n where n: "common_terms prop_th th = Inr n"
    using common_terms_fails [of prop_th th 0 None] by (cases "common_terms prop_th th") auto
  note idx = common_terms_idx [OF n, of 0 None] and le = common_terms_le [OF n]
  show ?thesis
  proof (cases "n = 0")
    case True
    then show ?thesis
      using assms(2,4) idx n by (auto simp: start_streaming_at_def bind_res_def find_highest_common_point_def hd_conv_nth split: if_splits)
  next
    case False
    have "n - 1 < length prop_th" using le False assms(2) by (cases n) auto
    then have "tl_term (prop_th ! (n - 1)) = propTerm \<longleftrightarrow> n - 1 = length prop_th - 1"
      using history_last_iff [OF assms(1), of "n - 1"] assms(3) by simp
    moreover have "n - 1 \<noteq> length prop_th - 1 \<Longrightarrow> n < length prop_th" using le False by (cases n) auto
    ultimately show ?thesis
      using assms(4) idx n False
      by (auto simp: start_streaming_at_def bind_res_def find_highest_common_point_def Let_def split: if_splits)
  qed
qed

theorem start_streaming_agrees_witness:
  "start_streaming_at 4 [\<lparr>tl_term = 1, tl_lsn = 10\<rparr>, \<lparr>tl_term = 2, tl_lsn = 20\<rparr>, \<lparr>tl_term = 4, tl_lsn = 40\<rparr>]
     [\<lparr>tl_term = 1, tl_lsn = 10\<rparr>, \<lparr>tl_term = 2, tl_lsn = 20\<rparr>, \<lparr>tl_term = 3, tl_lsn = 30\<rparr>] 35 = Inr 30"
  using start_streaming_agrees [of "[\<lparr>tl_term = 1, tl_lsn = 10\<rparr>, \<lparr>tl_term = 2, tl_lsn = 20\<rparr>, \<lparr>tl_term = 4, tl_lsn = 40\<rparr>]" 4
      "[\<lparr>tl_term = 1, tl_lsn = 10\<rparr>, \<lparr>tl_term = 2, tl_lsn = 20\<rparr>, \<lparr>tl_term = 3, tl_lsn = 30\<rparr>]" 35 "Some \<lparr>tl_term = 2, tl_lsn = 30\<rparr>"]
  by (simp add: history_ok_def find_highest_common_point_def)

text \<open>C27: When enough votes are collected, a quorum of slots has voted, and the proposer starts at the
  highest vote, by last log term and then by flushed position, among all slots whose votes count;
  the donor is a slot with that vote, unless all logs are empty, and the truncation position is
  not below any reported one.\<close>

theorem highest_vote_wins:
  assumes "VotesCollected w = (Inr True, w')"
  shows "quorum_elected w \<and>
     (\<forall>i \<in> voters w. vote_le (vote_rank (sk_at w i)) (best_vote w') \<and> cvr_truncateLsn (cs_voteResponse (sk_at w i)) \<le> wp_truncateLsn w') \<and>
     (best_vote w' \<noteq> (0, 0) \<longrightarrow> (\<exists>i \<in> voters w. wp_donor w' = Some i \<and> vote_rank (sk_at w i) = best_vote w'))"
proof -
  have "wp_safekeeper (vote_reset w) = wp_safekeeper w" "best_vote (vote_reset w) = (0, 0)"
    by (simp_all add: vote_reset_def best_vote_def)
  then show ?thesis
    using VotesCollected_tally [OF assms] unfolding tally_def by auto
qed

theorem highest_vote_wins_witness:
  "\<exists>w'. VotesCollected sample_proposer = (Inr True, w') \<and> voters sample_proposer = {0, 1, 2} \<and> best_vote w' = (3, 20) \<and>
     (\<forall>i \<in> {0, 1, 2}. vote_le (vote_rank (sk_at sample_proposer i)) (best_vote w'))"
proof -
  have "\<exists>w'. VotesCollected sample_proposer = (Inr True, w') \<and> best_vote w' = (3, 20)"
    unfolding VotesCollected_def run_simps id_apply Let_def
    by (simp add: sample_defs run_simps VotesCollectedMset_def member_slots_def take_vote_def GetLastLogTerm_def vote_history_def
        GetHighestTerm_def bindE_def thenE_def getE_def guardE_def modifyE_def retE_def liftR_def map_res_def MsetHasQuorum_def
        MsetQuorum_def best_vote_def numeral_3_eq_3 WalProposerGenerationsEnabled_def)
  then obtain w' where w': "VotesCollected sample_proposer = (Inr True, w')" "best_vote w' = (3, 20)" by blast
  have "voters sample_proposer = {0, 1, 2}"
    by (auto simp: voters_def vote_slots_def member_slots_def numeral_3_eq_3 elected_slot_def sample_slot_def split: if_splits)
  then show ?thesis using highest_vote_wins [OF w'(1)] w' by auto
qed

text \<open>C29: When every call succeeds, sending to a safekeeper ends, and the requests sent cover the log
  from the position of the connection to the end of the available WAL in order, without gap or
  overlap, each within the limit and with the proposer's term, generation and positions.\<close>

theorem streams_all_available:
  assumes "i < length (wp_safekeeper w)" and "wp_replies w = []" and "cs_active_state (sk_at w i) = SS_ACTIVE_SEND"
    and "wpc_proto_version A \<in> {2, 3}" and "cs_streamingAt (sk_at w i) \<le> wp_availableLsn w"
    and "unat (wp_availableLsn w) + MAX_SEND_SIZE < 2 ^ 64"
  shows "\<exists>w' rs. SendAppendRequests A i w = (Inr True, w') \<and> wp_sent w' = wp_sent w @ requests i rs \<and> rs \<noteq> [] \<and>
     covers (cs_streamingAt (sk_at w i)) (wp_availableLsn w) rs \<and>
     (\<forall>r \<in> set rs. r = append_request w (ah_begin_lsn r) (ah_end_lsn r)) \<and>
     cs_streamingAt (sk_at w' i) = wp_availableLsn w"
  using send_loop_covers [OF assms, of False] assms(3) by (auto simp: SendAppendRequests_def run_simps)

theorem streams_all_available_witness:
  "\<exists>w' rs. SendAppendRequests sample_wp_config 0 (sample_proposer\<lparr>wp_availableLsn := 300000\<rparr>) = (Inr True, w') \<and>
     wp_sent w' = requests 0 rs \<and> covers 0 300000 rs"
  using streams_all_available [of 0 "sample_proposer\<lparr>wp_availableLsn := 300000\<rparr>" sample_wp_config]
  by (auto simp: sample_defs sample_wp_config_def MAX_SEND_SIZE_def)

end
