(* ===== verification/Control_File.thy ===== *)
theory Control_File
  imports Timeline_State Fs
begin

text \<open>
  The control file of a timeline (\<open>safekeeper/src/control_file.rs\<close> and
  \<open>safekeeper/src/control_file_upgrade.rs\<close>): its framing by magic, format version and
  checksum, the upgrade of older formats, and its replacement through a partial file and a
  durable rename. The serializers derived by \<open>serde\<close> and the CRC are parameters.
\<close>

section \<open>Formats before version 10\<close>

record AcceptorStateV1 =
  as1_term :: Term
  as1_epoch :: Term

record ServerInfoV2 =
  si2_pg_version :: PgVersionId
  si2_system_id :: u64
  si2_tenant_id :: Id16
  si2_timeline_id :: Id16
  si2_wal_seg_size :: u32

record SafeKeeperStateV1 =
  v1_acceptor_state :: AcceptorStateV1
  v1_server :: ServerInfoV2
  v1_proposer_uuid :: Id16
  v1_commit_lsn :: lsn
  v1_truncate_lsn :: lsn
  v1_wal_start_lsn :: lsn

record SafeKeeperStateV2 =
  v2_acceptor_state :: AcceptorState
  v2_server :: ServerInfoV2
  v2_proposer_uuid :: Id16
  v2_commit_lsn :: lsn
  v2_truncate_lsn :: lsn
  v2_wal_start_lsn :: lsn

record ServerInfoV3 =
  si3_pg_version :: PgVersionId
  si3_system_id :: u64
  si3_tenant_id :: Id16
  si3_timeline_id :: Id16
  si3_wal_seg_size :: u32

record SafeKeeperStateV3 =
  v3_acceptor_state :: AcceptorState
  v3_server :: ServerInfoV3
  v3_proposer_uuid :: Id16
  v3_commit_lsn :: lsn
  v3_truncate_lsn :: lsn
  v3_wal_start_lsn :: lsn

record PersistedPeerInfo =
  ppi_backup_lsn :: lsn
  ppi_term :: Term
  ppi_flush_lsn :: lsn
  ppi_commit_lsn :: lsn

definition persisted_peer_info_new :: PersistedPeerInfo where
  "persisted_peer_info_new =
     \<lparr>ppi_backup_lsn = LSN_INVALID, ppi_term = INITIAL_TERM, ppi_flush_lsn = 0, ppi_commit_lsn = 0\<rparr>"

type_synonym PersistedPeers = "(NodeId \<times> PersistedPeerInfo) list"

record SafeKeeperStateV4 =
  v4_tenant_id :: Id16
  v4_timeline_id :: Id16
  v4_acceptor_state :: AcceptorState
  v4_server :: ServerInfo
  v4_proposer_uuid :: Id16
  v4_commit_lsn :: lsn
  v4_s3_wal_lsn :: lsn
  v4_peer_horizon_lsn :: lsn
  v4_remote_consistent_lsn :: lsn
  v4_peers :: PersistedPeers

record SafeKeeperStateV7 =
  v7_tenant_id :: Id16
  v7_timeline_id :: Id16
  v7_acceptor_state :: AcceptorState
  v7_server :: ServerInfo
  v7_proposer_uuid :: Id16
  v7_timeline_start_lsn :: lsn
  v7_local_start_lsn :: lsn
  v7_commit_lsn :: lsn
  v7_backup_lsn :: lsn
  v7_peer_horizon_lsn :: lsn
  v7_remote_consistent_lsn :: lsn
  v7_peers :: PersistedPeers

record SafeKeeperStateV8 =
  v8_tenant_id :: Id16
  v8_timeline_id :: Id16
  v8_acceptor_state :: AcceptorState
  v8_server :: ServerInfo
  v8_proposer_uuid :: Id16
  v8_timeline_start_lsn :: lsn
  v8_local_start_lsn :: lsn
  v8_commit_lsn :: lsn
  v8_backup_lsn :: lsn
  v8_peer_horizon_lsn :: lsn
  v8_remote_consistent_lsn :: lsn
  v8_peers :: PersistedPeers
  v8_partial_backup :: PartialBackupState

record TimelinePersistentStateV9 =
  v9_tenant_id :: Id16
  v9_timeline_id :: Id16
  v9_acceptor_state :: AcceptorState
  v9_server :: ServerInfo
  v9_proposer_uuid :: Id16
  v9_timeline_start_lsn :: lsn
  v9_local_start_lsn :: lsn
  v9_commit_lsn :: lsn
  v9_backup_lsn :: lsn
  v9_peer_horizon_lsn :: lsn
  v9_remote_consistent_lsn :: lsn
  v9_peers :: PersistedPeers
  v9_partial_backup :: PartialBackupState
  v9_eviction_state :: EvictionState

text \<open>The derived serializers of each format and the checksum, which the sources only call.\<close>

record codec =
  ser_v10 :: "TimelinePersistentState \<Rightarrow> bytes res"
  des_v10 :: "bytes \<Rightarrow> TimelinePersistentState res"
  ser_v9 :: "TimelinePersistentStateV9 \<Rightarrow> bytes res"
  des_v9 :: "bytes \<Rightarrow> TimelinePersistentStateV9 res"
  des_v8 :: "bytes \<Rightarrow> SafeKeeperStateV8 res"
  des_v7 :: "bytes \<Rightarrow> SafeKeeperStateV7 res"
  des_v4 :: "bytes \<Rightarrow> SafeKeeperStateV4 res"
  des_v3 :: "bytes \<Rightarrow> SafeKeeperStateV3 res"
  des_v2 :: "bytes \<Rightarrow> SafeKeeperStateV2 res"
  des_v1 :: "bytes \<Rightarrow> SafeKeeperStateV1 res"
  crc32c :: "bytes \<Rightarrow> u32"

section \<open>Upgrade\<close>

definition upgrade_v1 :: "SafeKeeperStateV1 \<Rightarrow> TimelinePersistentState" where
  "upgrade_v1 old =
     \<lparr>tenant_id = si2_tenant_id (v1_server old),
      timeline_id = si2_timeline_id (v1_server old),
      mconf = configuration_empty,
      acceptor_state = \<lparr>acc_term = as1_term (v1_acceptor_state old),
        term_history = [\<lparr>tl_term = as1_epoch (v1_acceptor_state old), tl_lsn = 0\<rparr>]\<rparr>,
      server = \<lparr>pg_version = si2_pg_version (v1_server old), system_id = si2_system_id (v1_server old),
        wal_seg_size = si2_wal_seg_size (v1_server old)\<rparr>,
      proposer_uuid = v1_proposer_uuid old,
      timeline_start_lsn = 0,
      local_start_lsn = 0,
      commit_lsn = v1_commit_lsn old,
      backup_lsn = 0,
      peer_horizon_lsn = v1_truncate_lsn old,
      remote_consistent_lsn = 0,
      partial_backup = [],
      eviction_state = Present,
      creation_ts = UNIX_EPOCH\<rparr>"

definition upgrade_v2 :: "SafeKeeperStateV2 \<Rightarrow> TimelinePersistentState" where
  "upgrade_v2 old =
     \<lparr>tenant_id = si2_tenant_id (v2_server old),
      timeline_id = si2_timeline_id (v2_server old),
      mconf = configuration_empty,
      acceptor_state = v2_acceptor_state old,
      server = \<lparr>pg_version = si2_pg_version (v2_server old), system_id = si2_system_id (v2_server old),
        wal_seg_size = si2_wal_seg_size (v2_server old)\<rparr>,
      proposer_uuid = v2_proposer_uuid old,
      timeline_start_lsn = 0,
      local_start_lsn = 0,
      commit_lsn = v2_commit_lsn old,
      backup_lsn = 0,
      peer_horizon_lsn = v2_truncate_lsn old,
      remote_consistent_lsn = 0,
      partial_backup = [],
      eviction_state = Present,
      creation_ts = UNIX_EPOCH\<rparr>"

definition upgrade_v3 :: "SafeKeeperStateV3 \<Rightarrow> TimelinePersistentState" where
  "upgrade_v3 old =
     \<lparr>tenant_id = si3_tenant_id (v3_server old),
      timeline_id = si3_timeline_id (v3_server old),
      mconf = configuration_empty,
      acceptor_state = v3_acceptor_state old,
      server = \<lparr>pg_version = si3_pg_version (v3_server old), system_id = si3_system_id (v3_server old),
        wal_seg_size = si3_wal_seg_size (v3_server old)\<rparr>,
      proposer_uuid = v3_proposer_uuid old,
      timeline_start_lsn = 0,
      local_start_lsn = 0,
      commit_lsn = v3_commit_lsn old,
      backup_lsn = 0,
      peer_horizon_lsn = v3_truncate_lsn old,
      remote_consistent_lsn = 0,
      partial_backup = [],
      eviction_state = Present,
      creation_ts = UNIX_EPOCH\<rparr>"

definition upgrade_v4 :: "SafeKeeperStateV4 \<Rightarrow> TimelinePersistentState" where
  "upgrade_v4 old =
     \<lparr>tenant_id = v4_tenant_id old,
      timeline_id = v4_timeline_id old,
      mconf = configuration_empty,
      acceptor_state = v4_acceptor_state old,
      server = \<lparr>pg_version = pg_version (v4_server old), system_id = system_id (v4_server old),
        wal_seg_size = wal_seg_size (v4_server old)\<rparr>,
      proposer_uuid = v4_proposer_uuid old,
      timeline_start_lsn = 0,
      local_start_lsn = 0,
      commit_lsn = v4_commit_lsn old,
      backup_lsn = LSN_INVALID,
      peer_horizon_lsn = v4_peer_horizon_lsn old,
      remote_consistent_lsn = 0,
      partial_backup = [],
      eviction_state = Present,
      creation_ts = UNIX_EPOCH\<rparr>"

text \<open>Versions 5 and 6 are read with the current layout; 5 may lack the timeline start, 6 the version.\<close>

definition upgrade_v5 :: "TimelinePersistentState \<Rightarrow> TimelinePersistentState" where
  "upgrade_v5 old =
     (if timeline_start_lsn old \<noteq> 0 then old
      else old\<lparr>timeline_start_lsn := 1, local_start_lsn := 1\<rparr>)"

definition upgrade_v6 :: "TimelinePersistentState \<Rightarrow> TimelinePersistentState res" where
  "upgrade_v6 old =
     (if pg_version (server old) \<noteq> UNKNOWN_SERVER_VERSION then Inr old
      else map_res (\<lambda>v. old\<lparr>server := (server old)\<lparr>pg_version := v\<rparr>\<rparr>) (from_full_pg_version 140005))"

definition upgrade_v7 :: "SafeKeeperStateV7 \<Rightarrow> TimelinePersistentState" where
  "upgrade_v7 old =
     \<lparr>tenant_id = v7_tenant_id old,
      timeline_id = v7_timeline_id old,
      mconf = configuration_empty,
      acceptor_state = v7_acceptor_state old,
      server = v7_server old,
      proposer_uuid = v7_proposer_uuid old,
      timeline_start_lsn = v7_timeline_start_lsn old,
      local_start_lsn = v7_local_start_lsn old,
      commit_lsn = v7_commit_lsn old,
      backup_lsn = v7_backup_lsn old,
      peer_horizon_lsn = v7_peer_horizon_lsn old,
      remote_consistent_lsn = v7_remote_consistent_lsn old,
      partial_backup = [],
      eviction_state = Present,
      creation_ts = UNIX_EPOCH\<rparr>"

definition upgrade_v8 :: "SafeKeeperStateV8 \<Rightarrow> TimelinePersistentState" where
  "upgrade_v8 old =
     \<lparr>tenant_id = v8_tenant_id old,
      timeline_id = v8_timeline_id old,
      mconf = configuration_empty,
      acceptor_state = v8_acceptor_state old,
      server = v8_server old,
      proposer_uuid = v8_proposer_uuid old,
      timeline_start_lsn = v8_timeline_start_lsn old,
      local_start_lsn = v8_local_start_lsn old,
      commit_lsn = v8_commit_lsn old,
      backup_lsn = v8_backup_lsn old,
      peer_horizon_lsn = v8_peer_horizon_lsn old,
      remote_consistent_lsn = v8_remote_consistent_lsn old,
      partial_backup = v8_partial_backup old,
      eviction_state = Present,
      creation_ts = UNIX_EPOCH\<rparr>"

definition upgrade_v9 :: "TimelinePersistentStateV9 \<Rightarrow> TimelinePersistentState" where
  "upgrade_v9 old =
     \<lparr>tenant_id = v9_tenant_id old,
      timeline_id = v9_timeline_id old,
      mconf = configuration_empty,
      acceptor_state = v9_acceptor_state old,
      server = v9_server old,
      proposer_uuid = v9_proposer_uuid old,
      timeline_start_lsn = v9_timeline_start_lsn old,
      local_start_lsn = v9_local_start_lsn old,
      commit_lsn = v9_commit_lsn old,
      backup_lsn = v9_backup_lsn old,
      peer_horizon_lsn = v9_peer_horizon_lsn old,
      remote_consistent_lsn = v9_remote_consistent_lsn old,
      partial_backup = v9_partial_backup old,
      eviction_state = v9_eviction_state old,
      creation_ts = UNIX_EPOCH\<rparr>"

definition upgrade_control_file :: "codec \<Rightarrow> bytes \<Rightarrow> u32 \<Rightarrow> TimelinePersistentState res" where
  "upgrade_control_file K buf version =
     (if version = 1 then map_res upgrade_v1 (des_v1 K buf)
      else if version = 2 then map_res upgrade_v2 (des_v2 K buf)
      else if version = 3 then map_res upgrade_v3 (des_v3 K buf)
      else if version = 4 then map_res upgrade_v4 (des_v4 K buf)
      else if version = 5 then map_res upgrade_v5 (des_v10 K buf)
      else if version = 6 then bind_res (des_v10 K buf) upgrade_v6
      else if version = 7 then map_res upgrade_v7 (des_v7 K buf)
      else if version = 8 then map_res upgrade_v8 (des_v8 K buf)
      else if version = 9 then map_res upgrade_v9 (des_v9 K buf)
      else Inl (Bail ''unsupported safekeeper control file version''))"

definition downgrade_v10_to_v9 :: "TimelinePersistentState \<Rightarrow> TimelinePersistentStateV9 res" where
  "downgrade_v10_to_v9 state =
     (if generation (mconf state) = INVALID_GENERATION
      then Inr \<lparr>v9_tenant_id = tenant_id state, v9_timeline_id = timeline_id state,
                v9_acceptor_state = acceptor_state state, v9_server = server state,
                v9_proposer_uuid = proposer_uuid state,
                v9_timeline_start_lsn = timeline_start_lsn state,
                v9_local_start_lsn = local_start_lsn state, v9_commit_lsn = commit_lsn state,
                v9_backup_lsn = backup_lsn state, v9_peer_horizon_lsn = peer_horizon_lsn state,
                v9_remote_consistent_lsn = remote_consistent_lsn state, v9_peers = [],
                v9_partial_backup = partial_backup state,
                v9_eviction_state = eviction_state state\<rparr>
      else Inl (Panic ''assertion failed: state.mconf.generation == INVALID_GENERATION''))"

section \<open>The file\<close>

definition SK_MAGIC :: u32 where
  "SK_MAGIC = 0xcafeceef"

definition SK_FORMAT_VERSION :: u32 where
  "SK_FORMAT_VERSION = 10"

definition CONTROL_FILE_NAME :: path where
  "CONTROL_FILE_NAME = ''safekeeper.control''"

definition CONTROL_FILE_NAME_PARTIAL :: path where
  "CONTROL_FILE_NAME_PARTIAL = ''safekeeper.control.partial''"

definition CHECKSUM_SIZE :: nat where
  "CHECKSUM_SIZE = 4"

text \<open>The model's \<open>timeline_dir\<close> is the directory itself, not its path.\<close>

record FileStorage =
  timeline_dir :: fs
  no_sync :: bool
  state :: TimelinePersistentState
  last_persist_at :: nat

definition read_u32_le :: "bytes \<Rightarrow> (u32 \<times> bytes) res" where
  "read_u32_le b = (if length b < 4 then Inl IoError else Inr (le_word (take 4 b), drop 4 b))"

definition deser_sk_state :: "codec \<Rightarrow> bytes \<Rightarrow> TimelinePersistentState res" where
  "deser_sk_state K buf =
     bind_res (read_u32_le buf) (\<lambda>(magic, buf).
       if magic \<noteq> SK_MAGIC then Inl (Bail ''bad control file magic'')
       else bind_res (read_u32_le buf) (\<lambda>(version, buf).
         if version = SK_FORMAT_VERSION then des_v10 K buf
         else upgrade_control_file K buf version))"

text \<open>\<open>buf.len() - CHECKSUM_SIZE\<close> wraps for a shorter file, and the slice then panics.\<close>

definition parse_control_file :: "codec \<Rightarrow> bytes \<Rightarrow> TimelinePersistentState res" where
  "parse_control_file K buf =
     (if length buf < CHECKSUM_SIZE then Inl (Panic ''slice index out of range'')
      else
        let body = take (length buf - CHECKSUM_SIZE) buf;
            expected_checksum = le_word (drop (length buf - CHECKSUM_SIZE) buf)
        in if crc32c K body = expected_checksum then deser_sk_state K body
           else Inl (Bail ''safekeeper control file checksum mismatch''))"

definition load_control_file :: "codec \<Rightarrow> path \<Rightarrow> (fs, TimelinePersistentState) prog" where
  "load_control_file K p =
     bindE (fs_open p) (\<lambda>fo. case fo of
        None \<Rightarrow> failE (Bail ''failed to open control file'')
      | Some f \<Rightarrow> thenE fs_nop (liftR (parse_control_file K (f_data f))))"

definition load_control_file_from_dir :: "codec \<Rightarrow> (fs, TimelinePersistentState) prog" where
  "load_control_file_from_dir K = load_control_file K CONTROL_FILE_NAME"

definition restore_new :: "codec \<Rightarrow> nat \<Rightarrow> bool \<Rightarrow> (fs, FileStorage) prog" where
  "restore_new K now nosync =
     bindE (load_control_file_from_dir K) (\<lambda>st.
     getE (\<lambda>d. \<lparr>timeline_dir = d, no_sync = nosync, state = st, last_persist_at = now\<rparr>))"

definition write_to_buf :: "codec \<Rightarrow> TimelinePersistentState \<Rightarrow> bytes res" where
  "write_to_buf K s =
     bind_res
       (if generation (mconf s) = INVALID_GENERATION
        then bind_res (downgrade_v10_to_v9 s) (\<lambda>prev.
             map_res (\<lambda>b. word_le 4 SK_MAGIC @ word_le 4 (9 :: u32) @ b) (ser_v9 K prev))
        else map_res (\<lambda>b. word_le 4 SK_MAGIC @ word_le 4 SK_FORMAT_VERSION @ b) (ser_v10 K s))
       (\<lambda>buf. Inr (buf @ word_le 4 (crc32c K buf)))"

definition on_dir :: "(fs, 'a) prog \<Rightarrow> (FileStorage, 'a) prog" where
  "on_dir = zoomE timeline_dir (\<lambda>d st. st\<lparr>timeline_dir := d\<rparr>)"

definition persist :: "codec \<Rightarrow> TimelinePersistentState \<Rightarrow> (FileStorage, unit) prog" where
  "persist K s =
     thenE (on_dir (fs_create CONTROL_FILE_NAME_PARTIAL))
     (bindE (liftR (write_to_buf K s)) (\<lambda>buf.
     thenE (on_dir (fs_write CONTROL_FILE_NAME_PARTIAL 0 buf))
     (thenE (on_dir fs_nop)
     (bindE (getE no_sync) (\<lambda>nosync.
     thenE (on_dir (durable_rename CONTROL_FILE_NAME_PARTIAL CONTROL_FILE_NAME (\<not> nosync)))
     (modifyE (\<lambda>st. st\<lparr>state := s\<rparr>)))))))"

definition create_new ::
  "codec \<Rightarrow> nat \<Rightarrow> TimelinePersistentState \<Rightarrow> bool \<Rightarrow> (fs, FileStorage) prog" where
  "create_new K now st nosync d =
     (if eviction_state st \<noteq> Present then (Inl (Panic ''assertion failed''), d)
      else
        let store = \<lparr>timeline_dir = d, no_sync = nosync, state = st, last_persist_at = now\<rparr>
        in case persist K st store of
             (Inl e, store') \<Rightarrow> (Inl e, timeline_dir store')
           | (Inr (), store') \<Rightarrow> (Inr store', timeline_dir store'))"

definition file_ctrl_ops :: "codec \<Rightarrow> FileStorage ctrl_ops" where
  "file_ctrl_ops K = \<lparr>ctrl_state = state, ctrl_persist = persist K\<rparr>"

section \<open>Writing and reading back\<close>

text \<open>What the derived serializers promise on one state: decoding inverts encoding.\<close>

definition codec_roundtrips :: "codec \<Rightarrow> TimelinePersistentState \<Rightarrow> bool" where
  "codec_roundtrips K s \<longleftrightarrow>
     (\<forall>b. ser_v10 K s = Inr b \<longrightarrow> des_v10 K b = Inr s) \<and>
     (\<forall>p b. downgrade_v10_to_v9 s = Inr p \<longrightarrow> ser_v9 K p = Inr b \<longrightarrow> des_v9 K b = Inr p)"

text \<open>
  What a reader gets back: without a membership generation the file has format 9, which has no
  membership configuration and no creation time.
\<close>

definition reloaded :: "TimelinePersistentState \<Rightarrow> TimelinePersistentState" where
  "reloaded s =
     (if generation (mconf s) = INVALID_GENERATION
      then s\<lparr>mconf := configuration_empty, creation_ts := UNIX_EPOCH\<rparr> else s)"

lemma parse_framed:
  assumes "deser_sk_state K body = r"
  shows "parse_control_file K (body @ word_le 4 (crc32c K body)) = r"
  using assms by (simp add: parse_control_file_def CHECKSUM_SIZE_def Let_def)

lemma deser_framed:
  "deser_sk_state K (word_le 4 SK_MAGIC @ word_le 4 v @ b) =
     (if v = SK_FORMAT_VERSION then des_v10 K b else upgrade_control_file K b v)"
  by (simp add: deser_sk_state_def read_u32_le_def bind_res_def)

lemma upgrade_downgrade:
  assumes "downgrade_v10_to_v9 s = Inr p"
  shows "upgrade_v9 p = s\<lparr>mconf := configuration_empty, creation_ts := UNIX_EPOCH\<rparr>"
  using assms by (auto simp: downgrade_v10_to_v9_def upgrade_v9_def split: if_splits)

lemma parse_write_to_buf:
  assumes K: "codec_roundtrips K s" and w: "write_to_buf K s = Inr buf"
  shows "parse_control_file K buf = Inr (reloaded s)"
proof (cases "generation (mconf s) = INVALID_GENERATION")
  case True
  obtain p where p: "downgrade_v10_to_v9 s = Inr p" using True by (simp add: downgrade_v10_to_v9_def)
  obtain b where b: "ser_v9 K p = Inr b"
    and buf: "buf = (word_le 4 SK_MAGIC @ word_le 4 (9 :: u32) @ b)
                    @ word_le 4 (crc32c K (word_le 4 SK_MAGIC @ word_le 4 (9 :: u32) @ b))"
    using w True p by (auto simp: write_to_buf_def bind_res_def map_res_def split: sum.splits)
  have "des_v9 K b = Inr p" using K p b by (simp add: codec_roundtrips_def)
  then have "upgrade_control_file K b 9 = Inr (reloaded s)"
    using upgrade_downgrade [OF p] True by (simp add: upgrade_control_file_def map_res_def reloaded_def)
  then show ?thesis unfolding buf by (intro parse_framed) (simp add: deser_framed SK_FORMAT_VERSION_def)
next
  case False
  obtain b where b: "ser_v10 K s = Inr b"
    and buf: "buf = (word_le 4 SK_MAGIC @ word_le 4 SK_FORMAT_VERSION @ b)
                    @ word_le 4 (crc32c K (word_le 4 SK_MAGIC @ word_le 4 SK_FORMAT_VERSION @ b))"
    using w False by (auto simp: write_to_buf_def bind_res_def map_res_def split: sum.splits)
  have "des_v10 K b = Inr s" using K b by (simp add: codec_roundtrips_def)
  then show ?thesis unfolding buf using False by (intro parse_framed) (simp add: deser_framed reloaded_def)
qed

section \<open>Replacement of the file\<close>

text \<open>
  The control file in a directory is complete, synced, and holds one of the states \<open>V\<close>; the
  partial file is another file.
\<close>

definition good_main :: "codec \<Rightarrow> TimelinePersistentState set \<Rightarrow> fnode \<Rightarrow> bool" where
  "good_main K V f \<longleftrightarrow> f_synced f = length (f_data f) \<and> (\<exists>v \<in> V. parse_control_file K (f_data f) = Inr v)"

definition cf_inv :: "codec \<Rightarrow> TimelinePersistentState set \<Rightarrow> fs \<Rightarrow> bool" where
  "cf_inv K V s \<longleftrightarrow>
     (\<forall>p. fs_file s CONTROL_FILE_NAME_PARTIAL = Some p \<longrightarrow> f_ino p < fs_next s) \<and>
     (\<forall>d \<in> set (fs_cur s # fs_prev s).
        (\<exists>f. map_of d CONTROL_FILE_NAME = Some f \<and> good_main K V f \<and> f_ino f < fs_next s \<and>
             (\<forall>p. fs_file s CONTROL_FILE_NAME_PARTIAL = Some p \<longrightarrow> f_ino p \<noteq> f_ino f) \<and>
             (\<forall>p. map_of d CONTROL_FILE_NAME_PARTIAL = Some p \<longrightarrow> f_ino p < fs_next s \<and> f_ino p \<noteq> f_ino f)))"

definition partial_holds :: "bytes \<Rightarrow> bool \<Rightarrow> fs \<Rightarrow> bool" where
  "partial_holds buf durable s \<longleftrightarrow>
     (\<exists>p. fs_file s CONTROL_FILE_NAME_PARTIAL = Some p \<and> f_data p = buf \<and>
          (durable \<longrightarrow> f_synced p = length (f_data p)))"

lemma names_differ [simp]:
  "CONTROL_FILE_NAME \<noteq> CONTROL_FILE_NAME_PARTIAL" "CONTROL_FILE_NAME_PARTIAL \<noteq> CONTROL_FILE_NAME"
  by (simp_all add: CONTROL_FILE_NAME_def CONTROL_FILE_NAME_PARTIAL_def)

lemma cf_inv_io [simp]:
  "cf_inv K V (s\<lparr>fs_io := io\<rparr>) = cf_inv K V s"
  "cf_inv K V (s\<lparr>fs_io := io, fs_prev := ds\<rparr>) = cf_inv K V (s\<lparr>fs_prev := ds\<rparr>)"
  by (simp_all add: cf_inv_def)

lemma partial_holds_io [simp]: "partial_holds b d (s\<lparr>fs_io := io\<rparr>) = partial_holds b d s"
  by (simp add: partial_holds_def)

lemma cf_inv_prev: "cf_inv K V s \<Longrightarrow> cf_inv K V (s\<lparr>fs_prev := []\<rparr>)"
  by (simp add: cf_inv_def)

lemma cf_inv_change_partial:
  assumes inv: "cf_inv K V s" and g: "\<And>f. f_ino (g f) = f_ino f"
  shows "cf_inv K V (change_file CONTROL_FILE_NAME_PARTIAL g s)"
proof (cases "fs_file s CONTROL_FILE_NAME_PARTIAL")
  case None
  then show ?thesis using assms(1) by (simp add: change_file_def)
next
  case (Some p)
  let ?s = "change_file CONTROL_FILE_NAME_PARTIAL g s"
  have eff: "fs_file ?s CONTROL_FILE_NAME_PARTIAL = Some (g p)" "fs_next ?s = fs_next s"
    using Some by (simp_all add: change_file_def fs_file_def update_conv')
  have lt: "f_ino p < fs_next s" using inv Some by (simp add: cf_inv_def)
  have "\<exists>f. map_of d' CONTROL_FILE_NAME = Some f \<and> good_main K V f \<and> f_ino f < fs_next s \<and> f_ino p \<noteq> f_ino f \<and>
      (\<forall>q. map_of d' CONTROL_FILE_NAME_PARTIAL = Some q \<longrightarrow> f_ino q < fs_next s \<and> f_ino q \<noteq> f_ino f)"
    if mem: "d' \<in> set (fs_cur ?s # fs_prev ?s)" for d'
  proof -
    obtain d where d: "d \<in> set (fs_cur s # fs_prev s)"
      and d': "d' = AList.update CONTROL_FILE_NAME_PARTIAL (g p) d \<or> d' = update_ino (f_ino p) g d"
      using mem Some by (auto simp: change_file_def)
    obtain f where f: "map_of d CONTROL_FILE_NAME = Some f" "good_main K V f" "f_ino f < fs_next s" "f_ino p \<noteq> f_ino f"
      and q: "\<forall>q. map_of d CONTROL_FILE_NAME_PARTIAL = Some q \<longrightarrow> f_ino q < fs_next s \<and> f_ino q \<noteq> f_ino f"
      using inv d Some unfolding cf_inv_def by blast
    then show ?thesis
      using d' lt by (intro exI [of _ f]) (auto simp: update_conv' map_of_update_ino g split: if_splits)
  qed
  then show ?thesis unfolding cf_inv_def eff using lt g by auto
qed

lemma cf_inv_new_entry:
  assumes "cf_inv K V s" and "fs_file s CONTROL_FILE_NAME_PARTIAL = None"
  shows "cf_inv K V (new_entry CONTROL_FILE_NAME_PARTIAL s)"
  using assms unfolding cf_inv_def
  by (fastforce simp: new_entry_def change_dir_def update_conv' fs_file_def less_Suc_eq)

lemma cf_inv_move:
  assumes "cf_inv K V s" and "fs_file s CONTROL_FILE_NAME_PARTIAL = Some p"
    and "good_main K W p"
  shows "cf_inv K (V \<union> W) (change_dir (move_entry CONTROL_FILE_NAME_PARTIAL CONTROL_FILE_NAME p) s)"
  using assms unfolding cf_inv_def good_main_def
  by (fastforce simp: change_dir_def fs_file_def)

lemma wp_on_dir [wp_simps]:
  "wp (on_dir m) Q E st =
     wp m (\<lambda>x d. Q x (st\<lparr>timeline_dir := d\<rparr>)) (\<lambda>e d. E e (st\<lparr>timeline_dir := d\<rparr>)) (timeline_dir st)"
  by (simp add: on_dir_def wp_zoomE)

lemma wp_create_partial:
  assumes "cf_inv K V s"
  shows "wp (fs_create CONTROL_FILE_NAME_PARTIAL)
           (\<lambda>_ s'. cf_inv K V s' \<and> partial_holds [] False s') (\<lambda>_. cf_inv K V) s"
  unfolding fs_create_def Let_def
  by (rule wp_io_effect)
    (use assms in \<open>auto split: option.splits intro: cf_inv_new_entry cf_inv_change_partial
       simp: partial_holds_def resize_def\<close>)

lemma wp_write_partial:
  assumes "cf_inv K V s" and "partial_holds [] False s"
  shows "wp (fs_write CONTROL_FILE_NAME_PARTIAL 0 buf)
           (\<lambda>_ s'. cf_inv K V s' \<and> partial_holds buf False s') (\<lambda>_. cf_inv K V) s"
  unfolding fs_write_def
  by (rule wp_io_effect)
    (use assms in \<open>auto intro!: cf_inv_change_partial simp: partial_holds_def write_at_def\<close>)

lemma wp_fs_nop: "(\<And>io. Q () (s\<lparr>fs_io := io\<rparr>)) \<Longrightarrow> (\<And>io. E IoError (s\<lparr>fs_io := io\<rparr>)) \<Longrightarrow> wp fs_nop Q E s"
  unfolding fs_nop_def by (rule wp_io_effect) simp_all

lemma wp_sync_partial:
  assumes "cf_inv K V s" and "partial_holds buf False s"
  shows "wp (fsync_async_opt CONTROL_FILE_NAME_PARTIAL True)
           (\<lambda>_ s'. cf_inv K V s' \<and> partial_holds buf True s') (\<lambda>_. cf_inv K V) s"
  unfolding fsync_async_opt_def wp_if wp_bindE simp_thms if_True
  by (rule wp_fs_open)
    (use assms in \<open>auto simp: fs_sync_file_def wp_simps partial_holds_def
       intro!: wp_io_effect cf_inv_change_partial\<close>)

lemma wp_rename_partial:
  assumes "cf_inv K V s" and "partial_holds buf True s" and "parse_control_file K buf = Inr v"
  shows "wp (fs_rename CONTROL_FILE_NAME_PARTIAL CONTROL_FILE_NAME)
           (\<lambda>_ s'. cf_inv K (insert v V) s' \<and> cf_inv K {v} (s'\<lparr>fs_prev := []\<rparr>))
           (\<lambda>_. cf_inv K (insert v V)) s"
proof -
  obtain p where p: "fs_file s CONTROL_FILE_NAME_PARTIAL = Some p" "good_main K {v} p"
    using assms(2,3) by (auto simp: partial_holds_def good_main_def)
  have mono: "cf_inv K (insert v V) s"
    using assms(1) unfolding cf_inv_def good_main_def by blast
  have new: "cf_inv K {v} ((change_dir (move_entry CONTROL_FILE_NAME_PARTIAL CONTROL_FILE_NAME p)
                (s\<lparr>fs_io := io\<rparr>))\<lparr>fs_prev := []\<rparr>)" for io
    using assms(1) p by (auto simp: cf_inv_def change_dir_def fs_file_def)
  have old: "cf_inv K (insert v V)
      (change_dir (move_entry CONTROL_FILE_NAME_PARTIAL CONTROL_FILE_NAME p) (s\<lparr>fs_io := io\<rparr>))" for io
    using cf_inv_move [of K V "s\<lparr>fs_io := io\<rparr>" p "{v}"] assms(1) p by simp
  show ?thesis
    unfolding fs_rename_def
    by (simp add: wp_simps p(1)) (rule wp_io_effect; simp add: mono new old)
qed

lemma wp_durable_rename:
  assumes "cf_inv K V s" and "partial_holds buf False s" and "parse_control_file K buf = Inr v"
  shows "wp (durable_rename CONTROL_FILE_NAME_PARTIAL CONTROL_FILE_NAME True)
           (\<lambda>_. cf_inv K {v}) (\<lambda>_. cf_inv K (insert v V)) s"
proof -
  have dir: "wp (fsync_dir_opt True) (\<lambda>_. cf_inv K {v}) (\<lambda>_. cf_inv K (insert v V)) s'"
    if "cf_inv K (insert v V) s'" "cf_inv K {v} (s'\<lparr>fs_prev := []\<rparr>)" for s'
    using that by (auto simp: fsync_dir_opt_def wp_simps fs_sync_dir_def intro!: wp_fs_nop wp_io_effect)
  have mono: "cf_inv K V s' \<Longrightarrow> cf_inv K (insert v V) s'" for s'
    unfolding cf_inv_def good_main_def by blast
  show ?thesis
    unfolding durable_rename_def wp_thenE
    by (rule wp_mono [OF wp_sync_partial [OF assms(1,2)]])
      (auto intro: mono dir wp_mono [OF wp_rename_partial [OF _ _ assms(3)]])
qed

text \<open>
  The state machine of \<open>persist\<close> with fsync enabled: on success only the new state can be read
  from the directory, on failure the old states or the new one.
\<close>

lemma wp_persist_sync:
  assumes "cf_inv K V (timeline_dir st)" and "\<not> no_sync st" and "codec_roundtrips K s"
  shows "wp (persist K s)
           (\<lambda>_ st'. cf_inv K {reloaded s} (timeline_dir st'))
           (\<lambda>_ st'. cf_inv K (insert (reloaded s) V) (timeline_dir st')) st"
proof -
  have mono: "cf_inv K V d \<Longrightarrow> cf_inv K (insert v V) d" for d v
    unfolding cf_inv_def good_main_def by blast
  have wr: "wp (fs_write CONTROL_FILE_NAME_PARTIAL 0 buf)
      (\<lambda>_. wp fs_nop (\<lambda>_. wp (durable_rename CONTROL_FILE_NAME_PARTIAL CONTROL_FILE_NAME True)
          (\<lambda>_. cf_inv K {reloaded s}) (\<lambda>_. cf_inv K (insert (reloaded s) V)))
        (\<lambda>_. cf_inv K (insert (reloaded s) V)))
      (\<lambda>_. cf_inv K (insert (reloaded s) V)) d"
    if "cf_inv K V d" "partial_holds [] False d" "write_to_buf K s = Inr buf" for d buf
    by (rule wp_mono [OF wp_write_partial [OF that(1,2)]])
      (auto intro!: wp_fs_nop wp_durable_rename mono parse_write_to_buf [OF assms(3) that(3)])
  show ?thesis
    unfolding persist_def wp_thenE wp_on_dir
    by (rule wp_mono [OF wp_create_partial [OF assms(1)]])
      (auto simp: wp_simps assms(2) mono wr split: sum.splits)
qed

lemma load_after_crash:
  assumes "cf_inv K V s" and "crash_of s d" and "fs_io d = []"
  shows "\<exists>v \<in> V. load_control_file_from_dir K d = (Inr v, d)"
proof -
  obtain d0 where d0: "d0 \<in> set (fs_cur s # fs_prev s)"
    and sv: "rel_option survives (map_of d0 CONTROL_FILE_NAME) (fs_file d CONTROL_FILE_NAME)"
    using assms(2) by (auto simp: crash_of_def)
  obtain f where f: "map_of d0 CONTROL_FILE_NAME = Some f" "good_main K V f"
    using assms(1) d0 unfolding cf_inv_def by blast
  obtain g where g: "fs_file d CONTROL_FILE_NAME = Some g" "survives f g"
    using sv f(1) by (auto simp: option_rel_Some1)
  have "f_data g = f_data f" using f(2) g(2) by (simp add: good_main_def survives_def)
  then obtain v where "v \<in> V" "parse_control_file K (f_data g) = Inr v"
    using f(2) by (auto simp: good_main_def)
  then show ?thesis using g(1) assms(3)
    by (auto simp: load_control_file_from_dir_def load_control_file_def fs_open_def io_step_def
        bindE_def thenE_def fs_nop_def io_effect_def)
qed

section \<open>The file storage is a control file storage\<close>

lemma wp_True: "wp m (\<lambda>_ _. True) (\<lambda>_ _. True) s"
  by (simp add: wp_def split: prod.splits sum.splits)

lemma wp_persist_fields:
  "wp (persist K s)
     (\<lambda>_ st'. state st' = s \<and> no_sync st' = no_sync st \<and> last_persist_at st' = last_persist_at st)
     (\<lambda>_ st'. state st' = state st \<and> no_sync st' = no_sync st \<and> last_persist_at st' = last_persist_at st) st"
  unfolding persist_def wp_thenE wp_bindE wp_on_dir wp_liftR wp_getE wp_modifyE
  by (auto split: sum.splits intro!: wp_mono [OF wp_True])

interpretation file_ctrl: ctrl_storage "file_ctrl_ops K" "\<lambda>_. True" "\<lambda>_ _. True" for K
proof
  fix c c' :: FileStorage and s
  assume "ctrl_persist (file_ctrl_ops K) s c = (Inr (), c')"
  then show "ctrl_state (file_ctrl_ops K) c' = s \<and> True"
    using wp_runD [OF wp_persist_fields [of K s c]] by (auto simp: file_ctrl_ops_def)
next
  fix c c' :: FileStorage and s e
  assume "ctrl_persist (file_ctrl_ops K) s c = (Inl e, c')"
  then show "ctrl_state (file_ctrl_ops K) c' = ctrl_state (file_ctrl_ops K) c \<and> True"
    using wp_runD [OF wp_persist_fields [of K s c]] by (auto simp: file_ctrl_ops_def)
qed

section \<open>Crashes and restarts\<close>

text \<open>The directory a restarted process finds: nothing of it is pending any more.\<close>

definition reboot_of :: "fs \<Rightarrow> fs \<Rightarrow> bool" where
  "reboot_of s s' \<longleftrightarrow> crash_of s s' \<and> fs_prev s' = [] \<and> fs_next s' = fs_next s"

lemma cf_inv_mono: "cf_inv K V s \<Longrightarrow> V \<subseteq> W \<Longrightarrow> cf_inv K W s"
  unfolding cf_inv_def good_main_def by blast

lemma survives_good: "survives f g \<Longrightarrow> good_main K V f \<Longrightarrow> good_main K V g"
  by (auto simp: survives_def good_main_def)

lemma cf_inv_reboot:
  assumes "cf_inv K V s" and "reboot_of s s'"
  shows "cf_inv K V s'"
proof -
  obtain d where d: "d \<in> set (fs_cur s # fs_prev s)"
    and sv: "\<And>p. rel_option survives (map_of d p) (fs_file s' p)"
    using assms(2) by (auto simp: reboot_of_def crash_of_def)
  obtain f where f: "map_of d CONTROL_FILE_NAME = Some f" "good_main K V f" "f_ino f < fs_next s"
    and part: "\<And>p. map_of d CONTROL_FILE_NAME_PARTIAL = Some p \<Longrightarrow> f_ino p < fs_next s \<and> f_ino p \<noteq> f_ino f"
    using assms(1) d unfolding cf_inv_def by blast
  obtain g where g: "fs_file s' CONTROL_FILE_NAME = Some g" "survives f g"
    using sv [of CONTROL_FILE_NAME] f(1) by (auto simp: option_rel_Some1)
  have p: "f_ino q < fs_next s \<and> f_ino q \<noteq> f_ino g" if q: "fs_file s' CONTROL_FILE_NAME_PARTIAL = Some q" for q
  proof -
    obtain q0 where "map_of d CONTROL_FILE_NAME_PARTIAL = Some q0" "survives q0 q"
      using sv [of CONTROL_FILE_NAME_PARTIAL] q by (auto simp: option_rel_Some2)
    then show ?thesis using part [of q0] g(2) by (simp add: survives_def)
  qed
  have "f_ino g = f_ino f" using g(2) by (simp add: survives_def)
  then show ?thesis
    using assms(2) p f(3) g survives_good [OF g(2) f(2)]
    by (simp add: cf_inv_def reboot_of_def) (auto simp: fs_file_def)
qed

lemma wp_load:
  assumes "cf_inv K V s" and "fs_prev s = []"
  shows "wp (load_control_file_from_dir K)
     (\<lambda>v s'. v \<in> V \<and> cf_inv K {v} s') (\<lambda>_ _. True) s"
proof -
  obtain f where f: "fs_file s CONTROL_FILE_NAME = Some f" "good_main K V f"
    using assms(1) by (auto simp: cf_inv_def fs_file_def)
  then obtain v where v: "parse_control_file K (f_data f) = Inr v" "v \<in> V" by (auto simp: good_main_def)
  have "cf_inv K {v} s"
    using assms f v by (auto simp: cf_inv_def fs_file_def good_main_def)
  then show ?thesis
    unfolding load_control_file_from_dir_def load_control_file_def wp_bindE
    by (intro wp_fs_open) (auto simp: f(1) v wp_simps intro!: wp_fs_nop)
qed

lemma state_le_reloaded: "state_le s (reloaded s)"
  by (simp add: state_le_def reloaded_def configuration_empty_def)

text \<open>
  With fsync on, whatever a crash leaves of the control file is a state not behind the one the
  process had persisted.
\<close>

definition file_durable :: "codec \<Rightarrow> FileStorage \<Rightarrow> bool" where
  "file_durable K st \<longleftrightarrow>
     \<not> no_sync st \<and> (\<forall>s. codec_roundtrips K s) \<and> cf_inv K {v. state_le (state st) v} (timeline_dir st)"

interpretation durable_ctrl: ctrl_storage "file_ctrl_ops K" "file_durable K" state_le for K
proof
  fix c c' :: FileStorage and s
  assume d: "file_durable K c" and le: "state_le (ctrl_state (file_ctrl_ops K) c) s"
    and p: "ctrl_persist (file_ctrl_ops K) s c = (Inr (), c')"
  have p': "persist K s c = (Inr (), c')" using p by (simp add: file_ctrl_ops_def)
  have "cf_inv K {reloaded s} (timeline_dir c')"
    using wp_runD [OF wp_persist_sync p'] d by (auto simp: file_durable_def)
  then have "cf_inv K {v. state_le s v} (timeline_dir c')"
    by (rule cf_inv_mono) (simp add: state_le_reloaded)
  then show "ctrl_state (file_ctrl_ops K) c' = s \<and> file_durable K c'"
    using wp_runD [OF wp_persist_fields p'] d by (simp add: file_ctrl_ops_def file_durable_def)
next
  fix c c' :: FileStorage and s e
  assume d: "file_durable K c" and le: "state_le (ctrl_state (file_ctrl_ops K) c) s"
    and p: "ctrl_persist (file_ctrl_ops K) s c = (Inl e, c')"
  have p': "persist K s c = (Inl e, c')" using p by (simp add: file_ctrl_ops_def)
  have "cf_inv K (insert (reloaded s) {v. state_le (state c) v}) (timeline_dir c')"
    using wp_runD [OF wp_persist_sync p'] d by (auto simp: file_durable_def)
  moreover have "state_le (state c) (reloaded s)"
    using le state_le_trans [OF _ state_le_reloaded] by (simp add: file_ctrl_ops_def)
  ultimately have "cf_inv K {v. state_le (state c) v} (timeline_dir c')"
    by (elim cf_inv_mono) auto
  then show "ctrl_state (file_ctrl_ops K) c' = ctrl_state (file_ctrl_ops K) c \<and> file_durable K c'"
    using wp_runD [OF wp_persist_fields p'] d by (simp add: file_ctrl_ops_def file_durable_def)
qed

lemma restore_durable:
  assumes "file_durable K st" and "reboot_of (timeline_dir st) d"
    and "restore_new K now False d = (Inr st', d')"
  shows "file_durable K st'" and "state_le (state st) (state st')"
proof -
  have "cf_inv K {v. state_le (state st) v} d"
    using assms(1,2) by (auto simp: file_durable_def intro: cf_inv_reboot)
  then have "wp (restore_new K now False)
      (\<lambda>st' _. state_le (state st) (state st') \<and> cf_inv K {state st'} (timeline_dir st') \<and> \<not> no_sync st')
      (\<lambda>_ _. True) d"
    unfolding restore_new_def wp_bindE
    by (intro wp_mono [OF wp_load]) (use assms(2) in \<open>auto simp: reboot_of_def wp_simps\<close>)
  from wp_runD [OF this assms(3)]
  have *: "state_le (state st) (state st')" "cf_inv K {state st'} (timeline_dir st')" "\<not> no_sync st'" by simp_all
  then show "state_le (state st) (state st')" by blast
  from *(2) have "cf_inv K {v. state_le (state st') v} (timeline_dir st')" by (rule cf_inv_mono) simp
  then show "file_durable K st'" using * assms(1) by (simp add: file_durable_def)
qed

section \<open>Memory and disk\<close>

text \<open>
  What reading the control file can return after a crash that loses all, some or none of the unsynced
  changes, and the storages whose control file holds the state in memory, durably.
\<close>

definition disk_states :: "codec \<Rightarrow> FileStorage \<Rightarrow> TimelinePersistentState res set" where
  "disk_states K st = {fst (load_control_file_from_dir K d) | d. crash_of (timeline_dir st) d \<and> fs_io d = []}"

definition disk_terms :: "codec \<Rightarrow> FileStorage \<Rightarrow> Term res set" where
  "disk_terms K st = map_res (\<lambda>s. acc_term (acceptor_state s)) ` disk_states K st"

definition in_step :: "codec \<Rightarrow> FileStorage \<Rightarrow> bool" where
  "in_step K st \<longleftrightarrow> \<not> no_sync st \<and> cf_inv K {reloaded (state st)} (timeline_dir st)"

lemma disk_states_within: "cf_inv K V (timeline_dir st) \<Longrightarrow> disk_states K st \<subseteq> Inr ` V"
  by (fastforce simp: disk_states_def dest: load_after_crash)

lemma disk_states_nonempty: "disk_states K st \<noteq> {}"
proof -
  let ?s = "timeline_dir st"
  let ?d = "?s\<lparr>fs_cur := map (\<lambda>(p, f). (p, f\<lparr>f_synced := length (f_data f)\<rparr>)) (fs_cur ?s), fs_io := []\<rparr>"
  have "crash_of ?s ?d"
    by (auto simp: crash_of_def fs_file_def survives_def map_of_map option.rel_map intro!: option.rel_refl_strong)
  then show ?thesis unfolding disk_states_def by (auto intro!: exI [of _ ?d])
qed

lemma disk_states_in_step: "in_step K st \<Longrightarrow> disk_states K st = {Inr (reloaded (state st))}"
  using disk_states_within [of K "{reloaded (state st)}" st] disk_states_nonempty [of K st] by (auto simp: in_step_def)

text \<open>
  A change that succeeds leaves memory and disk in step; one that fails leaves memory as it was,
  but the file may already have been replaced.
\<close>

lemma wp_finish_disk:
  assumes "in_step K (pers ts)" and "codec_roundtrips K s"
  shows "wp (finish_change (file_ctrl_ops K) s)
     (\<lambda>_ ts'. ts_deref (file_ctrl_ops K) ts' = s \<and> inmem ts' = mem_of s \<and> in_step K (pers ts'))
     (\<lambda>_ ts'. ts_deref (file_ctrl_ops K) ts' = ts_deref (file_ctrl_ops K) ts \<and> inmem ts' = inmem ts \<and>
        disk_states K (pers ts') \<subseteq> {Inr (reloaded (ts_deref (file_ctrl_ops K) ts)), Inr (reloaded s)}) ts"
proof -
  let ?p = "pers ts"
  have "wp (persist K s)
      (\<lambda>_ st'. in_step K st' \<and> state st' = s)
      (\<lambda>_ st'. state st' = state ?p \<and> disk_states K st' \<subseteq> {Inr (reloaded (state ?p)), Inr (reloaded s)}) ?p"
    using assms
    by (intro wp_mono [OF wp_conj [OF wp_persist_sync [of K "{reloaded (state ?p)}" ?p s] wp_persist_fields [of K s ?p]]])
      (auto simp: in_step_def dest!: disk_states_within)
  then show ?thesis
    using assms(1)
    by (auto simp: finish_change_def wp_simps mem_of_updates ts_deref_def file_ctrl_ops_def elim!: wp_mono)
qed

lemma reloaded_term [simp]: "acceptor_state (reloaded s) = acceptor_state s"
  by (simp add: reloaded_def)

lemma disk_terms_simps:
  "in_step K st \<Longrightarrow> disk_terms K st = {Inr (acc_term (acceptor_state (state st)))}"
  "disk_states K st \<subseteq> {Inr a, Inr b} \<Longrightarrow>
     disk_terms K st \<subseteq> {Inr (acc_term (acceptor_state a)), Inr (acc_term (acceptor_state b))}"
  by (auto simp: disk_terms_def disk_states_in_step)

text \<open>The term a bump asks for: the increment stays put where it would wrap.\<close>

definition bumped_term :: "Term \<Rightarrow> Term option \<Rightarrow> Term" where
  "bumped_term t target = (case target of Some u \<Rightarrow> max t u | None \<Rightarrow> if t = - 1 then t else t + 1)"

lemma max_incr: "max t (t + 1) = (if t = - 1 then t else t + 1)" for t :: u64
proof (cases "t = - 1")
  case False
  then have "t + 1 \<noteq> 0" by (metis add.commute eq_neg_iff_add_eq_0)
  then have "unat (t + 1) = Suc (unat t)" by (metis add.commute unatSuc)
  then have "t \<le> t + 1" by (simp add: word_le_nat_alt)
  then show ?thesis using False by (simp add: max_def)
qed simp

lemma bumped_less:
  "t < (case target of Some u \<Rightarrow> max t u | None \<Rightarrow> t + 1) \<Longrightarrow> (case target of Some u \<Rightarrow> max t u | None \<Rightarrow> t + 1) = bumped_term t target"
  "\<not> t < (case target of Some u \<Rightarrow> max t u | None \<Rightarrow> t + 1) \<Longrightarrow> bumped_term t target = t"
  unfolding bumped_term_def max_incr [symmetric] by (auto simp: max_def split: option.splits)

lemma wp_bump_disk:
  fixes K ts target
  defines "C \<equiv> file_ctrl_ops K"
  defines "t \<equiv> deref_term C ts"
  assumes "in_step K (pers ts)" and "\<And>u. codec_roundtrips K (with_term u (start_change C ts))"
  shows "wp (term_bump C target)
     (\<lambda>x ts'. previous_term x = t \<and> current_term x = bumped_term t target \<and> deref_term C ts' = bumped_term t target \<and>
        in_step K (pers ts'))
     (\<lambda>_ ts'. ts_deref C ts' = ts_deref C ts \<and> inmem ts' = inmem ts \<and>
        disk_terms K (pers ts') \<subseteq> {Inr t, Inr (bumped_term t target)}) ts"
proof -
  have cur: "acc_term (acceptor_state (start_change C ts)) = t"
    by (simp add: start_change_def t_def deref_term_def ts_deref_def Let_def)
  have f: "wp (finish_change C (with_term u (start_change C ts)))
     (\<lambda>_ ts'. deref_term C ts' = u \<and> in_step K (pers ts'))
     (\<lambda>_ ts'. ts_deref C ts' = ts_deref C ts \<and> inmem ts' = inmem ts \<and> disk_terms K (pers ts') \<subseteq> {Inr t, Inr u}) ts" for u
    using wp_finish_disk [OF assms(3) assms(4) [of u, unfolded C_def], folded C_def]
    by (rule wp_mono) (auto simp: deref_term_def with_term_def t_def dest!: disk_terms_simps(2))
  show ?thesis
    using assms(3) bumped_less [of t target]
    by (auto simp: term_bump_def wp_simps Let_def cur t_def [symmetric] intro!: wp_mono [OF f] cong: option.case_cong)
qed

section \<open>Reading back what was persisted\<close>

lemma wp_sync_keeps_partial:
  assumes "partial_holds buf False s"
  shows "wp (fsync_async_opt CONTROL_FILE_NAME_PARTIAL b) (\<lambda>_. partial_holds buf False) (\<lambda>_ _. True) s"
proof (cases b)
  case True
  then show ?thesis unfolding fsync_async_opt_def if_P [OF True] wp_bindE
    by (intro wp_fs_open)
      (use assms in \<open>auto simp: fs_sync_file_def wp_simps partial_holds_def intro!: wp_io_effect\<close>)
next
  case False
  then show ?thesis using assms by (simp add: fsync_async_opt_def wp_simps)
qed

definition main_holds :: "bytes \<Rightarrow> fs \<Rightarrow> bool" where
  "main_holds buf s \<longleftrightarrow> (\<exists>f. fs_file s CONTROL_FILE_NAME = Some f \<and> f_data f = buf)"

lemma main_holds_simps [simp]:
  "main_holds buf (s\<lparr>fs_io := io\<rparr>) = main_holds buf s"
  "main_holds buf (s\<lparr>fs_prev := ds\<rparr>) = main_holds buf s"
  by (simp_all add: main_holds_def)

lemma wp_rename_installs:
  assumes "partial_holds buf False s"
  shows "wp (durable_rename CONTROL_FILE_NAME_PARTIAL CONTROL_FILE_NAME b)
           (\<lambda>_. main_holds buf) (\<lambda>_ _. True) s"
proof -
  have ren: "wp (fs_rename CONTROL_FILE_NAME_PARTIAL CONTROL_FILE_NAME)
      (\<lambda>_. main_holds buf) (\<lambda>_ _. True) s'" if "partial_holds buf False s'" for s'
    using that by (auto simp: fs_rename_def wp_simps partial_holds_def main_holds_def intro!: wp_io_effect)
  have dir: "wp (fsync_dir_opt b) (\<lambda>_. main_holds buf) (\<lambda>_ _. True) s'" if "main_holds buf s'" for s'
    using that by (auto simp: fsync_dir_opt_def wp_simps fs_sync_dir_def intro!: wp_fs_nop wp_io_effect)
  show ?thesis
    unfolding durable_rename_def wp_thenE
    by (rule wp_mono [OF wp_sync_keeps_partial [OF assms]]) (auto intro: wp_mono [OF ren] dir)
qed

lemma wp_persist_installs:
  "wp (persist K s) (\<lambda>_ st'. \<exists>buf. write_to_buf K s = Inr buf \<and> main_holds buf (timeline_dir st'))
     (\<lambda>_ _. True) st"
proof -
  have c: "wp (fs_create CONTROL_FILE_NAME_PARTIAL) (\<lambda>_. partial_holds [] False) (\<lambda>_ _. True) d" for d
    unfolding fs_create_def Let_def
    by (rule wp_io_effect) (auto split: option.splits simp: partial_holds_def resize_def)
  have w: "wp (fs_write CONTROL_FILE_NAME_PARTIAL 0 buf) (\<lambda>_. partial_holds buf False) (\<lambda>_ _. True) d"
    if "partial_holds [] False d" for d buf
    unfolding fs_write_def
    by (rule wp_io_effect) (use that in \<open>auto simp: partial_holds_def write_at_def\<close>)
  show ?thesis
    unfolding persist_def wp_thenE wp_bindE wp_on_dir wp_liftR wp_getE wp_modifyE
    by (auto split: sum.splits intro!: wp_mono [OF c] wp_mono [OF w] wp_fs_nop
        wp_mono [OF wp_rename_installs])
qed

subsection \<open>A concrete storage\<close>

definition sample_state :: TimelinePersistentState where
  "sample_state =
     \<lparr>tenant_id = replicate 16 1, timeline_id = replicate 16 2,
      mconf = \<lparr>generation = 42, members = member_set_empty, new_members = None\<rparr>,
      acceptor_state = \<lparr>acc_term = 3, term_history = [\<lparr>tl_term = 1, tl_lsn = 0x16B9188\<rparr>]\<rparr>,
      server = \<lparr>pg_version = 170000, system_id = 7, wal_seg_size = 0x1000000\<rparr>,
      proposer_uuid = replicate 16 0, timeline_start_lsn = 0x16B9188,
      local_start_lsn = 0x16B9188, commit_lsn = 0x16B9200, backup_lsn = 0x16B9188,
      peer_horizon_lsn = 0x16B9188, remote_consistent_lsn = 0, partial_backup = [],
      eviction_state = Present, creation_ts = 100\<rparr>"

text \<open>A serializer that stores the commit LSN, for states that differ in nothing else.\<close>

definition sample_codec :: codec where
  "sample_codec =
     \<lparr>ser_v10 = \<lambda>s. Inr (word_le 8 (commit_lsn s)),
      des_v10 = \<lambda>b. Inr (sample_state\<lparr>commit_lsn := le_word b\<rparr>),
      ser_v9 = \<lambda>_. Inl IoError, des_v9 = \<lambda>_. Inl IoError, des_v8 = \<lambda>_. Inl IoError,
      des_v7 = \<lambda>_. Inl IoError, des_v4 = \<lambda>_. Inl IoError, des_v3 = \<lambda>_. Inl IoError,
      des_v2 = \<lambda>_. Inl IoError, des_v1 = \<lambda>_. Inl IoError,
      crc32c = \<lambda>b. word_of_nat (nat_of_le b)\<rparr>"

definition sample_buf :: "TimelinePersistentState \<Rightarrow> bytes" where
  "sample_buf s =
     (let b = word_le 4 SK_MAGIC @ word_le 4 SK_FORMAT_VERSION @ word_le 8 (commit_lsn s)
      in b @ word_le 4 (crc32c sample_codec b))"

definition sample_storage :: "io_outcome list \<Rightarrow> FileStorage" where
  "sample_storage io =
     \<lparr>timeline_dir =
        \<lparr>fs_cur = [(CONTROL_FILE_NAME,
                    \<lparr>f_ino = 0, f_data = sample_buf sample_state,
                     f_synced = length (sample_buf sample_state)\<rparr>)],
         fs_prev = [], fs_next = 1, fs_io = io\<rparr>,
      no_sync = False, state = sample_state, last_persist_at = 0\<rparr>"

definition sample_new :: TimelinePersistentState where
  "sample_new = sample_state\<lparr>commit_lsn := 0x16B9300\<rparr>"

lemma sample_roundtrips:
  "codec_roundtrips sample_codec (sample_state\<lparr>commit_lsn := x\<rparr>)"
  by (simp add: codec_roundtrips_def sample_codec_def downgrade_v10_to_v9_def sample_state_def
      INVALID_GENERATION_def)

lemma sample_write:
  "write_to_buf sample_codec (sample_state\<lparr>commit_lsn := x\<rparr>) =
     Inr (sample_buf (sample_state\<lparr>commit_lsn := x\<rparr>))"
  by (simp add: write_to_buf_def sample_buf_def sample_codec_def bind_res_def map_res_def Let_def
      INVALID_GENERATION_def) (simp add: sample_state_def)

lemma reloaded_sample: "reloaded (sample_state\<lparr>commit_lsn := x\<rparr>) = sample_state\<lparr>commit_lsn := x\<rparr>"
  by (simp add: reloaded_def INVALID_GENERATION_def) (simp add: sample_state_def)

lemma sample_cf_inv: "cf_inv sample_codec {sample_state} (timeline_dir (sample_storage io))"
proof -
  have "sample_state\<lparr>commit_lsn := commit_lsn sample_state\<rparr> = sample_state" by simp
  then have "parse_control_file sample_codec (sample_buf sample_state) = Inr sample_state"
    using parse_write_to_buf [OF sample_roundtrips sample_write] reloaded_sample by metis
  then show ?thesis
    by (simp add: cf_inv_def sample_storage_def good_main_def fs_file_def)
qed

lemma sample_persist:
  "persist sample_codec sample_new (sample_storage []) =
     (Inr (), (sample_storage [])\<lparr>state := sample_new, timeline_dir :=
        \<lparr>fs_cur = [(CONTROL_FILE_NAME,
                    \<lparr>f_ino = 1, f_data = sample_buf sample_new,
                     f_synced = length (sample_buf sample_new)\<rparr>)],
         fs_prev = [], fs_next = 2, fs_io = []\<rparr>\<rparr>)"
  using sample_write [of "0x16B9300"]
  by (simp add: persist_def sample_new_def [symmetric] on_dir_def zoomE_def thenE_def bindE_def
      sample_storage_def fs_create_def fs_write_def fs_nop_def durable_rename_def fsync_async_opt_def
      fsync_dir_opt_def fs_rename_def fs_sync_file_def fs_sync_dir_def fs_open_def io_effect_def
      io_step_def fs_file_def new_entry_def change_dir_def change_file_def write_at_def synced_def
      move_entry_def update_ino_def Let_def)

text \<open>The last call of \<open>persist\<close>, the sync of the directory, may be the one that fails.\<close>

lemma sample_persist_fails:
  "\<exists>st'. persist sample_codec sample_new (sample_storage (replicate 7 IoOk @ [IoFail 0])) = (Inl IoError, st') \<and>
     main_holds (sample_buf sample_new) (timeline_dir st')"
  using sample_write [of "0x16B9300"]
  by (simp add: persist_def sample_new_def [symmetric] on_dir_def zoomE_def thenE_def bindE_def numeral_eq_Suc
      sample_storage_def fs_create_def fs_write_def fs_nop_def durable_rename_def fsync_async_opt_def
      fsync_dir_opt_def fs_rename_def fs_sync_file_def fs_sync_dir_def fs_open_def io_effect_def
      io_step_def fs_file_def new_entry_def change_dir_def change_file_def write_at_def synced_def
      move_entry_def update_ino_def Let_def main_holds_def)

definition sample_timeline :: "io_outcome list \<Rightarrow> FileStorage TimelineState" where
  "sample_timeline io = timeline_state_new (file_ctrl_ops sample_codec) (sample_storage io)"

lemma reloaded_samples: "reloaded sample_state = sample_state" "reloaded sample_new = sample_new"
  using reloaded_sample [of "0x16B9200"] reloaded_sample [of "0x16B9300"] by (simp_all add: sample_new_def sample_state_def)

lemma sample_in_step: "in_step sample_codec (pers (sample_timeline io))"
  using sample_cf_inv [of io]
  by (simp add: in_step_def sample_timeline_def timeline_state_new_def reloaded_samples sample_storage_def)

lemma sample_finish:
  "\<exists>ts'. finish_change (file_ctrl_ops sample_codec) sample_new (sample_timeline []) = (Inr (), ts')"
  "\<exists>ts'. finish_change (file_ctrl_ops sample_codec) sample_new (sample_timeline (replicate 7 IoOk @ [IoFail 0])) = (Inl IoError, ts') \<and>
     main_holds (sample_buf sample_new) (timeline_dir (pers ts'))"
proof -
  have n: "sample_new \<noteq> state (sample_storage io)" for io by (simp add: sample_new_def sample_storage_def sample_state_def)
  note defs = finish_change_def sample_timeline_def timeline_state_new_def bindE_def thenE_def getE_def zoomE_def modifyE_def
    ts_deref_def file_ctrl_ops_def pers_update_def
  show "\<exists>ts'. finish_change (file_ctrl_ops sample_codec) sample_new (sample_timeline []) = (Inr (), ts')"
    using n sample_persist by (simp add: defs)
  show "\<exists>ts'. finish_change (file_ctrl_ops sample_codec) sample_new (sample_timeline (replicate 7 IoOk @ [IoFail 0])) = (Inl IoError, ts') \<and>
     main_holds (sample_buf sample_new) (timeline_dir (pers ts'))"
    using n sample_persist_fails by (auto simp: defs)
qed

text \<open>A serializer that stores the term, for states that differ in nothing else.\<close>

definition node_state :: "Term \<Rightarrow> TimelinePersistentState" where
  "node_state t = sample_state\<lparr>acceptor_state := (acceptor_state sample_state)\<lparr>acc_term := t\<rparr>\<rparr>"

definition node_codec :: codec where
  "node_codec = sample_codec
     \<lparr>ser_v10 := \<lambda>s. if s = node_state (acc_term (acceptor_state s))
                      then Inr (word_le 8 (acc_term (acceptor_state s))) else Inl IoError,
      des_v10 := \<lambda>b. Inr (node_state (le_word b))\<rparr>"

definition node_buf :: "Term \<Rightarrow> bytes" where
  "node_buf t =
     (let b = word_le 4 SK_MAGIC @ word_le 4 SK_FORMAT_VERSION @ word_le 8 t
      in b @ word_le 4 (crc32c node_codec b))"

definition node_control :: "Term \<Rightarrow> nat \<Rightarrow> FileStorage" where
  "node_control t n =
     \<lparr>timeline_dir =
        \<lparr>fs_cur = [(CONTROL_FILE_NAME, \<lparr>f_ino = n, f_data = node_buf t, f_synced = length (node_buf t)\<rparr>)],
         fs_prev = [], fs_next = Suc n, fs_io = []\<rparr>,
      no_sync = False, state = node_state t, last_persist_at = 0\<rparr>"

lemma node_codec_roundtrips: "codec_roundtrips node_codec s"
  by (auto simp: codec_roundtrips_def node_codec_def sample_codec_def split: if_splits)

lemma node_write: "write_to_buf node_codec (node_state t) = Inr (node_buf t)"
  by (simp add: write_to_buf_def node_buf_def node_codec_def bind_res_def map_res_def Let_def
      INVALID_GENERATION_def) (simp add: node_state_def sample_state_def)

lemma node_reloaded: "reloaded (node_state t) = node_state t"
  by (simp add: reloaded_def INVALID_GENERATION_def node_state_def sample_state_def)

lemma node_parse: "parse_control_file node_codec (node_buf t) = Inr (node_state t)"
  using parse_write_to_buf [OF node_codec_roundtrips node_write] node_reloaded by metis

lemma node_persist:
  "persist node_codec (node_state t) (node_control u n) = (Inr (), node_control t (Suc n))"
  by (simp add: persist_def node_write on_dir_def zoomE_def thenE_def bindE_def
      node_control_def fs_create_def fs_write_def fs_nop_def durable_rename_def fsync_async_opt_def
      fsync_dir_opt_def fs_rename_def fs_sync_file_def fs_sync_dir_def fs_open_def io_effect_def
      io_step_def fs_file_def new_entry_def change_dir_def change_file_def write_at_def synced_def
      move_entry_def update_ino_def Let_def)

text \<open>C7: Whatever the earlier contents of the directory and whichever file system calls fail, if
  \<open>persist\<close> of a state reports success then reading the control file returns that state, up
  to the membership configuration and creation time that the version 9 format drops for a timeline
  without a membership generation.\<close>

theorem persist_then_load:
  assumes "codec_roundtrips K s" and "persist K s st = (Inr (), st')"
    and "fs_io (timeline_dir st') = []"
  shows "load_control_file_from_dir K (timeline_dir st') = (Inr (reloaded s), timeline_dir st')"
proof -
  obtain buf f where "write_to_buf K s = Inr buf" "f_data f = buf"
    "fs_file (timeline_dir st') CONTROL_FILE_NAME = Some f"
    using wp_runD [OF wp_persist_installs assms(2)] by (auto simp: main_holds_def)
  then show ?thesis
    using parse_write_to_buf [OF assms(1)] assms(3)
    by (simp add: load_control_file_from_dir_def load_control_file_def fs_open_def io_step_def
        bindE_def thenE_def fs_nop_def io_effect_def)
qed

theorem persist_then_load_witness:
  "fst (load_control_file_from_dir sample_codec
     (timeline_dir (snd (persist sample_codec sample_new (sample_storage []))))) = Inr sample_new"
  using persist_then_load [OF sample_roundtrips [of "0x16B9300"] sample_persist [unfolded sample_new_def]]
    reloaded_sample [of "0x16B9300"] sample_persist
  by (simp add: sample_new_def)

text \<open>C6: With fsync enabled, replacing the control file is atomic under any failure and any
  crash: from a directory whose control file is complete and durable, whichever call of
  \<open>persist\<close> fails and whichever of the unsynced changes a crash then loses, a reader finds the
  new state if \<open>persist\<close> had reported success, and the old or the new one otherwise.\<close>

theorem persist_crash_atomic:
  assumes "cf_inv K {old} (timeline_dir st)" and "\<not> no_sync st" and "codec_roundtrips K s"
    and "persist K s st = (r, st')" and "crash_of (timeline_dir st') d" and "fs_io d = []"
  shows "fst (load_control_file_from_dir K d) \<in>
           (if is_ok r then {Inr (reloaded s)} else {Inr old, Inr (reloaded s)})"
proof (cases r)
  case (Inl e)
  have "cf_inv K {reloaded s, old} (timeline_dir st')"
    using wp_runD [OF wp_persist_sync [OF assms(1-3)] assms(4)] Inl by simp
  then show ?thesis using load_after_crash [OF _ assms(5,6)] Inl by fastforce
next
  case (Inr u)
  have "cf_inv K {reloaded s} (timeline_dir st')"
    using wp_runD [OF wp_persist_sync [OF assms(1-3)] assms(4)] Inr by simp
  then show ?thesis using load_after_crash [OF _ assms(5,6)] Inr by fastforce
qed

theorem persist_crash_atomic_witness:
  "fst (load_control_file_from_dir sample_codec
     (timeline_dir (snd (persist sample_codec sample_new (sample_storage []))))) \<in> {Inr sample_new}"
proof -
  define st where "st = snd (persist sample_codec sample_new (sample_storage []))"
  have st: "persist sample_codec sample_new (sample_storage []) = (Inr (), st)"
    by (simp add: st_def sample_persist)
  have "crash_of (timeline_dir st) (timeline_dir st)" "fs_io (timeline_dir st) = []"
    by (auto simp: crash_of_def st_def sample_persist fs_file_def survives_def)
  moreover have "\<not> no_sync (sample_storage [])" by (simp add: sample_storage_def)
  moreover have "codec_roundtrips sample_codec sample_new" "reloaded sample_new = sample_new"
    unfolding sample_new_def by (rule sample_roundtrips reloaded_sample)+
  ultimately show ?thesis
    using persist_crash_atomic [OF sample_cf_inv [of "[]"] _ _ st] by (simp add: st_def [symmetric])
qed

text \<open>C11: A transactional change of the timeline state, with fsync on and from a control file that
  holds the state in memory: if \<open>finish_change\<close> succeeds, the persistent state in memory, the
  in-memory copy, the state a following \<open>start_change\<close> returns and whatever reading the control
  file can return after a crash are all the new one. If it fails, nothing in memory has
  changed, and reading the file returns the old or the new state: the file may have been
  replaced before the failure, and memory is never ahead of it.\<close>

theorem finish_change_atomic:
  assumes "in_step K (pers ts)" and "codec_roundtrips K s" and "finish_change (file_ctrl_ops K) s ts = (r, ts')"
  shows "case r of
     Inr _ \<Rightarrow> ts_deref (file_ctrl_ops K) ts' = s \<and> inmem ts' = mem_of s \<and> start_change (file_ctrl_ops K) ts' = s \<and>
       in_step K (pers ts') \<and> disk_states K (pers ts') = {Inr (reloaded s)}
   | Inl _ \<Rightarrow> ts_deref (file_ctrl_ops K) ts' = ts_deref (file_ctrl_ops K) ts \<and> inmem ts' = inmem ts \<and>
       start_change (file_ctrl_ops K) ts' = start_change (file_ctrl_ops K) ts \<and>
       disk_states K (pers ts') \<subseteq> {Inr (reloaded (ts_deref (file_ctrl_ops K) ts)), Inr (reloaded s)}"
  using wp_runD [OF wp_finish_disk [OF assms(1,2)] assms(3)] file_ctrl.start_change_synced [of ts' K]
  by (auto simp: start_change_def ts_deref_def file_ctrl_ops_def disk_states_in_step split: sum.splits)

theorem finish_change_atomic_witness:
  "(\<exists>ts'. finish_change (file_ctrl_ops sample_codec) sample_new (sample_timeline []) = (Inr (), ts') \<and>
      state (pers ts') = sample_new \<and> disk_states sample_codec (pers ts') = {Inr sample_new}) \<and>
   (\<exists>ts'. finish_change (file_ctrl_ops sample_codec) sample_new (sample_timeline (replicate 7 IoOk @ [IoFail 0])) = (Inl IoError, ts') \<and>
      state (pers ts') = sample_state \<and> main_holds (sample_buf sample_new) (timeline_dir (pers ts')) \<and>
      disk_states sample_codec (pers ts') \<subseteq> {Inr sample_state, Inr sample_new})"
proof -
  obtain ts1 where 1: "finish_change (file_ctrl_ops sample_codec) sample_new (sample_timeline []) = (Inr (), ts1)"
    using sample_finish(1) by blast
  obtain ts2 where 2: "finish_change (file_ctrl_ops sample_codec) sample_new (sample_timeline (replicate 7 IoOk @ [IoFail 0])) = (Inl IoError, ts2)"
    "main_holds (sample_buf sample_new) (timeline_dir (pers ts2))" using sample_finish(2) by blast
  have r: "codec_roundtrips sample_codec sample_new" unfolding sample_new_def by (rule sample_roundtrips)
  have s: "ts_deref (file_ctrl_ops sample_codec) (sample_timeline io) = sample_state" for io
    by (simp add: sample_timeline_def ts_deref_def file_ctrl_ops_def timeline_state_new_def sample_storage_def)
  show ?thesis
    using finish_change_atomic [OF sample_in_step r 1] finish_change_atomic [OF sample_in_step r 2(1)] 1 2
    unfolding s by (simp add: reloaded_samples) (simp add: ts_deref_def file_ctrl_ops_def)
qed

text \<open>C12: \<open>term_bump\<close> never lowers the term, with fsync on and from a control file that holds the
  state in memory: on success the term in memory and in the control file, after any crash,
  is the maximum of the old one and the requested one (or the incremented one, and stays put if
  the increment would wrap), and the response reports exactly that. On failure nothing in memory
  changes, and the control file holds the old term or the one asked for.\<close>

theorem term_bump_correct:
  assumes "in_step K (pers ts)" and "\<And>u. codec_roundtrips K (with_term u (start_change (file_ctrl_ops K) ts))"
    and "term_bump (file_ctrl_ops K) target ts = (r, ts')"
  shows "let C = file_ctrl_ops K; t = deref_term C ts;
        t' = (case target of Some u \<Rightarrow> max t u | None \<Rightarrow> if t = - 1 then t else t + 1)
    in case r of
         Inr x \<Rightarrow> previous_term x = t \<and> current_term x = t' \<and> deref_term C ts' = t' \<and> disk_terms K (pers ts') = {Inr t'}
       | Inl _ \<Rightarrow> ts_deref C ts' = ts_deref C ts \<and> inmem ts' = inmem ts \<and> disk_terms K (pers ts') \<subseteq> {Inr t, Inr t'}"
  unfolding bumped_term_def [symmetric]
  using wp_runD [OF wp_bump_disk [OF assms(1,2), of target] assms(3)]
  by (auto simp: Let_def disk_terms_simps(1) deref_term_def ts_deref_def file_ctrl_ops_def split: sum.splits)

theorem term_bump_correct_witness:
  "\<exists>x ts'. term_bump (file_ctrl_ops node_codec) (Some 7) \<lparr>inmem = mem_of (node_state 3), pers = node_control 3 0\<rparr> = (Inr x, ts') \<and>
     previous_term x = 3 \<and> current_term x = 7 \<and> disk_terms node_codec (pers ts') = {Inr 7}"
proof -
  let ?C = "file_ctrl_ops node_codec"
  let ?ts = "\<lparr>inmem = mem_of (node_state 3), pers = node_control 3 0\<rparr>"
  have ts: "in_step node_codec (pers ?ts)"
    by (simp add: in_step_def cf_inv_def node_control_def good_main_def fs_file_def node_parse node_reloaded)
  have "start_change ?C ?ts = node_state 3"
    by (simp add: start_change_def file_ctrl_ops_def mem_of_def Let_def node_control_def)
  then have "\<exists>x ts'. term_bump ?C (Some 7) ?ts = (Inr x, ts')"
    using node_persist [of 7 3 0]
    by (simp add: term_bump_def finish_change_def bindE_def thenE_def getE_def zoomE_def modifyE_def retE_def pers_update_def
        ts_deref_def deref_term_def file_ctrl_ops_def with_term_def node_state_def Let_def)
  then obtain x ts' where b: "term_bump ?C (Some 7) ?ts = (Inr x, ts')" by blast
  have "deref_term ?C ?ts = 3"
    by (simp add: deref_term_def ts_deref_def file_ctrl_ops_def node_control_def node_state_def)
  then show ?thesis
    using b term_bump_correct [OF ts node_codec_roundtrips b] by (simp add: Let_def)
qed

text \<open>C13: \<open>membership_switch\<close> installs the offered configuration exactly when its
  generation is higher, never goes back to an older generation, and reports the configurations
  before and after; on failure nothing in memory changes.\<close>

theorem membership_switch_correct:
  "case membership_switch (file_ctrl_ops K) target ts of
     (Inr r, ts') \<Rightarrow>
        previous_conf r = mconf (ts_deref (file_ctrl_ops K) ts) \<and>
        current_conf r = mconf (ts_deref (file_ctrl_ops K) ts') \<and>
        mconf (ts_deref (file_ctrl_ops K) ts') =
          (if generation (mconf (ts_deref (file_ctrl_ops K) ts)) < generation target
           then target else mconf (ts_deref (file_ctrl_ops K) ts))
   | (Inl _, ts') \<Rightarrow> ts_deref (file_ctrl_ops K) ts' = ts_deref (file_ctrl_ops K) ts
                     \<and> inmem ts' = inmem ts"
  using file_ctrl.membership_switch_wp [of K target ts] unfolding wp_def
  by (auto simp: not_less split: prod.splits sum.splits)

end
