(* ===== verification/Safekeeper.thy ===== *)
theory Safekeeper
  imports Messages Wal_Storage_Inv Control_File
begin

text \<open>
  The safekeeper's consensus state machine (\<open>safekeeper/src/safekeeper.rs\<close>, \<open>SafeKeeper\<close>),
  generic over the control file storage and the WAL storage as the Rust code is. What every handler
  keeps is proved in the locale \<open>safekeeper\<close>, which joins the contracts of the two storages.
\<close>

section \<open>State\<close>

record ('c, 'w) SafeKeeper =
  term_start_lsn :: lsn
  sk_state :: "'c TimelineState"
  wal_store :: 'w
  sk_node_id :: NodeId

definition on_state :: "('c TimelineState, 'a) prog \<Rightarrow> (('c, 'w) SafeKeeper, 'a) prog" where
  "on_state = zoomE sk_state (\<lambda>ts sk. sk\<lparr>sk_state := ts\<rparr>)"

definition on_wal :: "('w, 'a) prog \<Rightarrow> (('c, 'w) SafeKeeper, 'a) prog" where
  "on_wal = zoomE wal_store (\<lambda>w sk. sk\<lparr>wal_store := w\<rparr>)"

text \<open>\<open>self.state.f\<close> reads the persistent state.\<close>

definition sk_deref :: "'c ctrl_ops \<Rightarrow> ('c, 'w) SafeKeeper \<Rightarrow> TimelinePersistentState" where
  "sk_deref C sk = ts_deref C (sk_state sk)"

definition sk_new :: "'c ctrl_ops \<Rightarrow> 'c TimelineState \<Rightarrow> 'w \<Rightarrow> NodeId \<Rightarrow> ('c, 'w) SafeKeeper res" where
  "sk_new C st wal node_id =
     (if tenant_id (ts_deref C st) = replicate 16 0 \<or> timeline_id (ts_deref C st) = replicate 16 0
      then Inl (Bail ''Calling SafeKeeper::new with empty tenant_id or timeline_id'')
      else Inr \<lparr>term_start_lsn = 0, sk_state = st, wal_store = wal, sk_node_id = node_id\<rparr>)"

definition sk_flush_lsn :: "'c ctrl_ops \<Rightarrow> 'w wal_ops \<Rightarrow> ('c, 'w) SafeKeeper \<Rightarrow> lsn" where
  "sk_flush_lsn C S sk = max (ws_flush_lsn S (wal_store sk)) (timeline_start_lsn (sk_deref C sk))"

definition get_term_history :: "'c ctrl_ops \<Rightarrow> 'w wal_ops \<Rightarrow> ('c, 'w) SafeKeeper \<Rightarrow> TermHistory" where
  "get_term_history C S sk =
     th_up_to (term_history (acceptor_state (sk_deref C sk))) (sk_flush_lsn C S sk)"

definition get_last_log_term :: "'c ctrl_ops \<Rightarrow> 'w wal_ops \<Rightarrow> ('c, 'w) SafeKeeper \<Rightarrow> Term" where
  "get_last_log_term C S sk =
     acceptor_get_last_log_term (acceptor_state (sk_deref C sk)) (sk_flush_lsn C S sk)"

abbreviation sk_term :: "'c ctrl_ops \<Rightarrow> ('c, 'w) SafeKeeper \<Rightarrow> Term" where
  "sk_term C sk \<equiv> acc_term (acceptor_state (sk_deref C sk))"

abbreviation sk_gen :: "'c ctrl_ops \<Rightarrow> ('c, 'w) SafeKeeper \<Rightarrow> Generation" where
  "sk_gen C sk \<equiv> generation (mconf (sk_deref C sk))"

abbreviation sk_commit :: "('c, 'w) SafeKeeper \<Rightarrow> lsn" where
  "sk_commit sk \<equiv> mem_commit_lsn (inmem (sk_state sk))"

section \<open>Handlers\<close>

text \<open>\<open>PgMajorVersion::try_from(v)?\<close>.\<close>

definition try_major :: "PgVersionId \<Rightarrow> PgMajorVersion res" where
  "try_major v = (case major_of_version v of Some m \<Rightarrow> Inr m | None \<Rightarrow> Inl (Bail ''InvalidPgVersion''))"

definition update_system_id ::
  "'c ctrl_ops \<Rightarrow> ProposerGreeting \<Rightarrow> (('c, 'w) SafeKeeper, unit) prog" where
  "update_system_id C msg =
     bindE (getE (\<lambda>sk. system_id (server (sk_deref C sk)))) (\<lambda>sysid.
     if sysid \<noteq> pg_system_id msg \<and> pg_system_id msg \<noteq> 0
     then on_state (bindE (getE (start_change C)) (\<lambda>st.
            finish_change C (st\<lparr>server := (server st)\<lparr>system_id := pg_system_id msg,
              pg_version := (if pg_pg_version msg \<noteq> UNKNOWN_SERVER_VERSION then pg_pg_version msg
                             else pg_version (server st))\<rparr>\<rparr>)))
     else retE ())"

definition handle_greeting ::
  "'c ctrl_ops \<Rightarrow> ProposerGreeting \<Rightarrow> (('c, 'w) SafeKeeper, AcceptorProposerMessage option) prog" where
  "handle_greeting C msg =
     bindE (getE (sk_deref C)) (\<lambda>st.
     bindE (liftR (try_major (pg_pg_version msg))) (\<lambda>theirs.
     bindE (liftR (try_major (pg_version (server st)))) (\<lambda>ours.
     thenE (guardE (\<not> (theirs \<noteq> ours \<and> pg_version (server st) \<noteq> UNKNOWN_SERVER_VERSION))
              (Bail ''incompatible server version''))
     (thenE (guardE (pg_tenant_id msg = tenant_id st) (Bail ''invalid tenant ID''))
     (thenE (guardE (pg_timeline_id msg = timeline_id st) (Bail ''invalid timeline ID''))
     (thenE (guardE (wal_seg_size (server st) = pg_wal_seg_size msg) (Bail ''invalid wal_seg_size''))
     (thenE (update_system_id C msg)
     (bindE (getE id) (\<lambda>sk.
      thenE (guardE (\<not> (sk_gen C sk < generation (pg_mconf msg) \<and>
                       \<not> configuration_contains (pg_mconf msg) (sk_node_id sk)))
               (Bail ''refused to switch: node is not a member of it''))
      (thenE (on_state (membership_switch C (pg_mconf msg)))
      (getE (\<lambda>sk. Some (AGreeting \<lparr>ag_node_id = sk_node_id sk, ag_mconf = mconf (sk_deref C sk),
                                      ag_term = sk_term C sk\<rparr>)))))))))))))"

text \<open>Adopts a higher term: \<open>start_change\<close>, set the term, \<open>finish_change\<close>.\<close>

definition adopt_term :: "'c ctrl_ops \<Rightarrow> Term \<Rightarrow> (('c, 'w) SafeKeeper, unit) prog" where
  "adopt_term C t = on_state (bindE (getE (start_change C)) (\<lambda>st. finish_change C (with_term t st)))"

definition handle_vote_request ::
  "'c ctrl_ops \<Rightarrow> 'w wal_ops \<Rightarrow> VoteRequest \<Rightarrow>
     (('c, 'w) SafeKeeper, AcceptorProposerMessage option) prog" where
  "handle_vote_request C S msg =
     bindE (getE (sk_gen C)) (\<lambda>g.
     thenE (guardE (g = vq_generation msg) (Bail ''refusing vote request due to generation mismatch''))
     (thenE (on_wal (ws_flush_wal S))
     (bindE (getE (\<lambda>sk. \<lparr>vr_generation = sk_gen C sk, vr_term = sk_term C sk, vr_vote_given = False,
        vr_flush_lsn = sk_flush_lsn C S sk, vr_truncate_lsn = mem_peer_horizon_lsn (inmem (sk_state sk)),
        vr_term_history = get_term_history C S sk\<rparr>)) (\<lambda>resp.
      if vr_term resp < vq_term msg
      then thenE (adopt_term C (vq_term msg))
           (getE (\<lambda>sk. Some (AVoteResponse (resp\<lparr>vr_term := sk_term C sk, vr_vote_given := True\<rparr>))))
      else retE (Some (AVoteResponse resp))))))"

definition append_response ::
  "'c ctrl_ops \<Rightarrow> 'w wal_ops \<Rightarrow> ('c, 'w) SafeKeeper \<Rightarrow> AppendResponse" where
  "append_response C S sk =
     \<lparr>as_generation = sk_gen C sk, as_term = sk_term C sk, as_flush_lsn = sk_flush_lsn C S sk,
      as_commit_lsn = commit_lsn (sk_deref C sk), as_hs_feedback = hs_empty,
      as_pageserver_feedback = None\<rparr>"

text \<open>The last part of \<open>handle_elected\<close>: the state after truncation.\<close>

definition adopt_history :: "ProposerElected \<Rightarrow> TimelinePersistentState \<Rightarrow> TimelinePersistentState" where
  "adopt_history msg st =
     (let tl_start = (case pe_term_history msg of
                        e # _ \<Rightarrow> if timeline_start_lsn st = 0 then tl_lsn e else timeline_start_lsn st
                      | [] \<Rightarrow> timeline_start_lsn st)
      in st\<lparr>timeline_start_lsn := tl_start,
            peer_horizon_lsn := (if peer_horizon_lsn st = 0 then tl_start else peer_horizon_lsn st),
            local_start_lsn := (if local_start_lsn st = 0 then pe_start_streaming_at msg
                                else local_start_lsn st),
            commit_lsn := max (commit_lsn st) tl_start,
            backup_lsn := max (backup_lsn st) tl_start,
            remote_consistent_lsn := max (remote_consistent_lsn st) tl_start,
            acceptor_state := (acceptor_state st)\<lparr>term_history := pe_term_history msg\<rparr>\<rparr>)"

definition elected_common_point ::
  "'c ctrl_ops \<Rightarrow> 'w wal_ops \<Rightarrow> ProposerElected \<Rightarrow> ('c, 'w) SafeKeeper \<Rightarrow> TermLsn res" where
  "elected_common_point C S msg sk =
     bind_res (find_highest_common_point (pe_term_history msg) (get_term_history C S sk) (sk_flush_lsn C S sk))
       (\<lambda>r. case r of
          Some lcp \<Rightarrow> Inr lcp
        | None \<Rightarrow> (case pe_term_history msg of
                     [] \<Rightarrow> Inl (Bail ''empty walproposer term history'')
                   | e # _ \<Rightarrow> Inr e))"

definition elected_truncate ::
  "'w wal_ops \<Rightarrow> ProposerElected \<Rightarrow> (('c, 'w) SafeKeeper, unit) prog" where
  "elected_truncate S msg =
     thenE (bindE (getE (\<lambda>sk. ws_flush_lsn S (wal_store sk))) (\<lambda>fl.
            if fl = LSN_INVALID then on_wal (ws_initialize_first_segment S (pe_start_streaming_at msg))
            else retE ()))
     (on_wal (ws_truncate_wal S (pe_start_streaming_at msg)))"

text \<open>\<open>handle_elected\<close> once the terms agree.\<close>

definition do_elected ::
  "'c ctrl_ops \<Rightarrow> 'w wal_ops \<Rightarrow> ProposerElected \<Rightarrow>
     (('c, 'w) SafeKeeper, AcceptorProposerMessage option) prog" where
  "do_elected C S msg =
     bindE (bindE (getE (elected_common_point C S msg)) liftR) (\<lambda>lcp.
     thenE (guardE (tl_lsn lcp = pe_start_streaming_at msg)
              (Bail ''refusing ProposerElected with unexpected truncation point''))
     (bindE (getE sk_commit) (\<lambda>c.
      thenE (guardE (c \<le> pe_start_streaming_at msg) (Panic ''attempt to truncate committed data''))
      (thenE (elected_truncate S msg)
      (thenE (on_state (bindE (getE (start_change C)) (\<lambda>st. finish_change C (adopt_history msg st))))
      (case pe_term_history msg of
         [] \<Rightarrow> failE (Bail ''proposer elected with empty term history'')
       | th \<Rightarrow> thenE (modifyE (\<lambda>sk. sk\<lparr>term_start_lsn := tl_lsn (last th)\<rparr>)) (retE None)))))))"

definition handle_elected ::
  "'c ctrl_ops \<Rightarrow> 'w wal_ops \<Rightarrow> ProposerElected \<Rightarrow>
     (('c, 'w) SafeKeeper, AcceptorProposerMessage option) prog" where
  "handle_elected C S msg =
     bindE (getE (sk_gen C)) (\<lambda>g.
     thenE (guardE (g = pe_generation msg) (Bail ''refusing ProposerElected due to generation mismatch''))
     (thenE (bindE (getE (sk_term C)) (\<lambda>t. if t < pe_term msg then adopt_term C (pe_term msg) else retE ()))
     (bindE (getE (sk_term C)) (\<lambda>t. if pe_term msg < t then retE None else do_elected C S msg))))"

definition update_commit_lsn ::
  "'c ctrl_ops \<Rightarrow> 'w wal_ops \<Rightarrow> lsn \<Rightarrow> (('c, 'w) SafeKeeper, unit) prog" where
  "update_commit_lsn C S candidate =
     bindE (getE sk_commit) (\<lambda>cur.
     bindE (getE (sk_flush_lsn C S)) (\<lambda>fl.
     let new = min (max candidate cur) fl in
     thenE (guardE (cur \<le> new) (Panic ''commit_lsn monotonicity violated''))
     (thenE (on_state (modifyE (\<lambda>ts. ts\<lparr>inmem := (inmem ts)\<lparr>mem_commit_lsn := new\<rparr>\<rparr>)))
     (bindE (getE (\<lambda>sk. term_start_lsn sk \<le> new \<and> commit_lsn (sk_deref C sk) < term_start_lsn sk)) (\<lambda>reached.
      if reached then on_state (ts_flush C) else retE ())))))"

text \<open>
  \<open>handle_append_request\<close> after its checks; \<open>flush0\<close> is the WAL storage's flush position
  before the write.
\<close>

definition do_append ::
  "'c ctrl_ops \<Rightarrow> 'w wal_ops \<Rightarrow> AppendRequest \<Rightarrow> bool \<Rightarrow> lsn \<Rightarrow>
     (('c, 'w) SafeKeeper, AcceptorProposerMessage option) prog" where
  "do_append C S msg require_flush flush0 =
     thenE (if ar_wal_data msg \<noteq> [] then on_wal (ws_write_wal S (ah_begin_lsn (ar_h msg)) (ar_wal_data msg))
            else retE ())
     (thenE (if require_flush then on_wal (ws_flush_wal S) else retE ())
     (thenE (if ah_commit_lsn (ar_h msg) \<noteq> 0 then update_commit_lsn C S (ah_commit_lsn (ar_h msg)) else retE ())
     (thenE (on_state (modifyE (\<lambda>ts. ts\<lparr>inmem := (inmem ts)\<lparr>mem_peer_horizon_lsn :=
               max (mem_peer_horizon_lsn (inmem ts)) (ah_truncate_lsn (ar_h msg))\<rparr>\<rparr>)))
     (getE (\<lambda>sk. if \<not> require_flush \<and> flush0 = sk_flush_lsn C S sk then None
                  else Some (AAppendResponse (append_response C S sk)))))))"

definition handle_append_request ::
  "'c ctrl_ops \<Rightarrow> 'w wal_ops \<Rightarrow> AppendRequest \<Rightarrow> bool \<Rightarrow>
     (('c, 'w) SafeKeeper, AcceptorProposerMessage option) prog" where
  "handle_append_request C S msg require_flush =
     bindE (getE id) (\<lambda>sk.
     thenE (guardE (sk_gen C sk = ah_generation (ar_h msg))
              (Bail ''refusing append request due to generation mismatch''))
     (thenE (guardE (\<not> sk_term C sk < ah_term (ar_h msg)) (Bail ''got AppendRequest before ProposerElected''))
     (if ah_term (ar_h msg) < sk_term C sk
      then retE (Some (AAppendResponse (term_only (sk_gen C sk) (sk_term C sk))))
      else
        let write_lsn = ws_write_lsn S (wal_store sk); flush_lsn = ws_flush_lsn S (wal_store sk) in
        thenE (guardE (write_lsn \<le> ah_begin_lsn (ar_h msg)) (Bail ''append request rewrites WAL written before''))
        (thenE (guardE (\<not> (write_lsn < ah_begin_lsn (ar_h msg) \<and> write_lsn \<noteq> 0))
                 (Bail ''append request creates gap in written WAL''))
        (do_append C S msg require_flush flush_lsn)))))"

definition handle_flush ::
  "'c ctrl_ops \<Rightarrow> 'w wal_ops \<Rightarrow> (('c, 'w) SafeKeeper, AcceptorProposerMessage option) prog" where
  "handle_flush C S =
     thenE (on_wal (ws_flush_wal S)) (getE (\<lambda>sk. Some (AAppendResponse (append_response C S sk))))"

text \<open>The fields of \<open>SafekeeperTimelineInfo\<close> the handler reads: commit position and last log term.\<close>

definition record_safekeeper_info ::
  "'c ctrl_ops \<Rightarrow> 'w wal_ops \<Rightarrow> lsn \<Rightarrow> Term \<Rightarrow> (('c, 'w) SafeKeeper, unit) prog" where
  "record_safekeeper_info C S info_commit_lsn info_last_log_term =
     (if info_commit_lsn \<noteq> LSN_INVALID
      then bindE (getE (get_last_log_term C S)) (\<lambda>t.
           if info_last_log_term = t then update_commit_lsn C S info_commit_lsn else retE ())
      else retE ())"

fun process_msg ::
  "'c ctrl_ops \<Rightarrow> 'w wal_ops \<Rightarrow> ProposerAcceptorMessage \<Rightarrow>
     (('c, 'w) SafeKeeper, AcceptorProposerMessage option) prog" where
  "process_msg C S (PGreeting m) = handle_greeting C m"
| "process_msg C S (PVoteRequest m) = handle_vote_request C S m"
| "process_msg C S (PElected m) = handle_elected C S m"
| "process_msg C S (PAppendRequest m) = handle_append_request C S m True"
| "process_msg C S (PNoFlushAppendRequest m) = handle_append_request C S m False"
| "process_msg C S PFlushWAL = handle_flush C S"

section \<open>Invariant and progress\<close>

text \<open>The committed position never passes the flushed one, in memory and on disk.\<close>

definition sk_ok ::
  "'c ctrl_ops \<Rightarrow> ('c \<Rightarrow> bool) \<Rightarrow> 'w wal_ops \<Rightarrow> ('w \<Rightarrow> bool) \<Rightarrow> ('c, 'w) SafeKeeper \<Rightarrow> bool" where
  "sk_ok C ci S wi sk \<longleftrightarrow>
     ci (pers (sk_state sk)) \<and> wi (wal_store sk) \<and>
     sk_commit sk \<le> sk_flush_lsn C S sk \<and> commit_lsn (sk_deref C sk) \<le> sk_commit sk"

text \<open>The persistent state only evolves as \<open>state_le\<close> allows, the commit position only grows.\<close>

definition sk_grows :: "'c ctrl_ops \<Rightarrow> ('c, 'w) SafeKeeper \<Rightarrow> ('c, 'w) SafeKeeper \<Rightarrow> bool" where
  "sk_grows C sk sk' \<longleftrightarrow>
     state_le (sk_deref C sk) (sk_deref C sk') \<and> sk_commit sk \<le> sk_commit sk' \<and> sk_node_id sk' = sk_node_id sk"

definition sk_same :: "'c ctrl_ops \<Rightarrow> ('c \<Rightarrow> bool) \<Rightarrow> ('c, 'w) SafeKeeper \<Rightarrow> ('c, 'w) SafeKeeper \<Rightarrow> bool" where
  "sk_same C ci sk sk' \<longleftrightarrow>
     sk_deref C sk' = sk_deref C sk \<and> inmem (sk_state sk') = inmem (sk_state sk) \<and>
     ci (pers (sk_state sk')) \<and> wal_store sk' = wal_store sk \<and>
     term_start_lsn sk' = term_start_lsn sk \<and> sk_node_id sk' = sk_node_id sk"

text \<open>The outcome of a completed change of the persistent state.\<close>

definition sk_changed ::
  "'c ctrl_ops \<Rightarrow> ('c \<Rightarrow> bool) \<Rightarrow> TimelinePersistentState \<Rightarrow> ('c, 'w) SafeKeeper \<Rightarrow> ('c, 'w) SafeKeeper \<Rightarrow> bool" where
  "sk_changed C ci st sk sk' \<longleftrightarrow>
     sk_deref C sk' = st \<and> inmem (sk_state sk') = mem_of st \<and> ci (pers (sk_state sk')) \<and>
     wal_store sk' = wal_store sk \<and> term_start_lsn sk' = term_start_lsn sk \<and> sk_node_id sk' = sk_node_id sk"

definition sk_good where
  "sk_good C ci S wi sk sk' \<longleftrightarrow> sk_ok C ci S wi sk' \<and> sk_grows C sk sk'"

lemma sk_grows_refl [simp]: "sk_grows C sk sk"
  by (simp add: sk_grows_def)

lemma sk_grows_trans: "sk_grows C a b \<Longrightarrow> sk_grows C b c \<Longrightarrow> sk_grows C a c"
  by (auto simp: sk_grows_def intro: state_le_trans)

lemma sk_good_same: "sk_ok C ci S wi sk \<Longrightarrow> sk_same C ci sk sk' \<Longrightarrow> sk_good C ci S wi sk sk'"
  by (simp add: sk_good_def sk_ok_def sk_same_def sk_grows_def sk_flush_lsn_def)

lemma sk_good_trans: "sk_good C ci S wi a b \<Longrightarrow> sk_good C ci S wi b c \<Longrightarrow> sk_good C ci S wi a c"
  by (auto simp: sk_good_def intro: sk_grows_trans)

lemma sk_deref_simps [simp]:
  "sk_deref C (sk\<lparr>wal_store := w\<rparr>) = sk_deref C sk"
  "sk_deref C (sk\<lparr>term_start_lsn := l\<rparr>) = sk_deref C sk"
  "sk_deref C (sk\<lparr>sk_state := ts\<rparr>) = ts_deref C ts"
  by (simp_all add: sk_deref_def)

lemma wp_on_state_modify: "wp (on_state (modifyE f)) Q E sk = Q () (sk\<lparr>sk_state := f (sk_state sk)\<rparr>)"
  by (simp add: on_state_def wp_simps)

lemma start_change_fields:
  "acceptor_state (start_change C ts) = acceptor_state (ts_deref C ts)"
  "mconf (start_change C ts) = mconf (ts_deref C ts)"
  "timeline_start_lsn (start_change C ts) = timeline_start_lsn (ts_deref C ts)"
  "commit_lsn (start_change C ts) = mem_commit_lsn (inmem ts)"
  "server (start_change C ts) = server (ts_deref C ts)"
  "tenant_id (start_change C ts) = tenant_id (ts_deref C ts)"
  "timeline_id (start_change C ts) = timeline_id (ts_deref C ts)"
  by (simp_all add: start_change_def ts_deref_def Let_def)

text \<open>Messages inside the LSN space.\<close>

fun msg_ok :: "ProposerAcceptorMessage \<Rightarrow> bool" where
  "msg_ok (PElected m) = (pe_start_streaming_at m \<noteq> 0)"
| "msg_ok (PAppendRequest m) = (unat (ah_begin_lsn (ar_h m)) + length (ar_wal_data m) \<le> 2 ^ 64 - 8)"
| "msg_ok (PNoFlushAppendRequest m) = (unat (ah_begin_lsn (ar_h m)) + length (ar_wal_data m) \<le> 2 ^ 64 - 8)"
| "msg_ok _ = True"

text \<open>What a reply says is true of the state it was sent from.\<close>

definition reply_true ::
  "'c ctrl_ops \<Rightarrow> 'w wal_ops \<Rightarrow> ('c, 'w) SafeKeeper \<Rightarrow> AcceptorProposerMessage option \<Rightarrow> bool" where
  "reply_true C S sk r \<longleftrightarrow> (case r of
      Some (AAppendResponse a) \<Rightarrow>
        as_term a = sk_term C sk \<and> as_generation a = sk_gen C sk \<and>
        as_flush_lsn a \<le> sk_flush_lsn C S sk \<and> as_commit_lsn a \<le> commit_lsn (sk_deref C sk)
    | Some (AVoteResponse v) \<Rightarrow> vr_term v = sk_term C sk \<and> vr_flush_lsn v = sk_flush_lsn C S sk
    | Some (AGreeting g) \<Rightarrow> ag_term g = sk_term C sk \<and> ag_mconf g = mconf (sk_deref C sk)
    | None \<Rightarrow> True)"

locale safekeeper = ctrl: ctrl_storage C cinv state_le + wal: wal_storage S winv
  for C :: "'c ctrl_ops" and cinv and S :: "'w wal_ops" and winv
begin

lemma wp_change:
  assumes "cinv (pers (sk_state sk))" and "state_le (sk_deref C sk) (f (start_change C (sk_state sk)))"
  shows "wp (on_state (bindE (getE (start_change C)) (\<lambda>st. finish_change C (f st))))
     (\<lambda>_. sk_changed C cinv (f (start_change C (sk_state sk))) sk) (\<lambda>_. sk_same C cinv sk) sk"
  unfolding on_state_def wp_zoomE wp_bindE wp_getE
  by (rule wp_mono [OF ctrl.finish_change_wp [OF assms [unfolded sk_deref_def]]])
    (simp_all add: sk_changed_def sk_same_def sk_deref_def)

lemma wp_wal_flush:
  assumes "sk_ok C cinv S winv sk"
  shows "wp (on_wal (ws_flush_wal S))
     (\<lambda>_ sk'. sk_good C cinv S winv sk sk' \<and> sk_deref C sk' = sk_deref C sk \<and> inmem (sk_state sk') = inmem (sk_state sk))
     (\<lambda>_ sk'. sk_good C cinv S winv sk sk' \<and> sk_deref C sk' = sk_deref C sk) sk"
proof -
  have "winv (wal_store sk)" using assms by (simp add: sk_ok_def)
  then show ?thesis
    unfolding on_wal_def wp_zoomE
    by (intro wp_mono [OF wal.flush_law])
      (use assms in \<open>auto simp: sk_good_def sk_ok_def sk_grows_def sk_flush_lsn_def max_def split: if_splits\<close>)
qed

text \<open>Continuing from a good intermediate state.\<close>

lemma wp_good_trans:
  assumes "sk_good C cinv S winv a b"
    and "wp m (\<lambda>r c. sk_good C cinv S winv b c \<and> P r c) (\<lambda>e c. sk_good C cinv S winv b c \<and> X e c) b"
  shows "wp m (\<lambda>r c. sk_good C cinv S winv a c \<and> P r c) (\<lambda>e c. sk_good C cinv S winv a c \<and> X e c) b"
  using assms(2) by (rule wp_mono) (use sk_good_trans [OF assms(1)] in auto)

lemma good_changed:
  assumes "sk_ok C cinv S winv sk" and "sk_changed C cinv st sk sk'"
    and "state_le (sk_deref C sk) st" and "sk_commit sk \<le> commit_lsn st"
    and "commit_lsn st \<le> max (ws_flush_lsn S (wal_store sk)) (timeline_start_lsn st)"
  shows "sk_good C cinv S winv sk sk'"
  using assms by (auto simp: sk_good_def sk_ok_def sk_grows_def sk_changed_def sk_flush_lsn_def mem_of_def)

text \<open>A change that touches neither positions nor the timeline's start.\<close>

lemma wp_conf_change:
  fixes f
  assumes ok: "sk_ok C cinv S winv sk"
  defines "st \<equiv> f (start_change C (sk_state sk))"
  assumes le: "state_le (sk_deref C sk) st"
    and "commit_lsn st = sk_commit sk" and "timeline_start_lsn st = timeline_start_lsn (sk_deref C sk)"
  shows "wp (on_state (bindE (getE (start_change C)) (\<lambda>st. finish_change C (f st))))
     (\<lambda>_ sk'. sk_good C cinv S winv sk sk' \<and> sk_changed C cinv st sk sk')
     (\<lambda>_ sk'. sk_good C cinv S winv sk sk' \<and> sk_same C cinv sk sk') sk"
proof -
  have "cinv (pers (sk_state sk))" using ok by (simp add: sk_ok_def)
  from wp_change [where f = f, OF this le [unfolded st_def]] show ?thesis
    unfolding st_def [symmetric]
    by (rule wp_mono)
      (use assms in \<open>auto intro: good_changed [OF ok] sk_good_same simp: sk_ok_def sk_flush_lsn_def\<close>)
qed

text \<open>Facts that show a change to be allowed.\<close>

lemma state_le_start:
  "sk_ok C cinv S winv sk \<Longrightarrow> state_le (sk_deref C sk) (start_change C (sk_state sk))"
  by (simp add: state_le_def sk_ok_def start_change_fields sk_deref_def)

lemma wp_adopt_term:
  assumes "sk_ok C cinv S winv sk" and "sk_term C sk \<le> t"
  shows "wp (adopt_term C t)
     (\<lambda>_ sk'. sk_good C cinv S winv sk sk' \<and> sk_term C sk' = t \<and> sk_gen C sk' = sk_gen C sk
        \<and> wal_store sk' = wal_store sk
        \<and> timeline_start_lsn (sk_deref C sk') = timeline_start_lsn (sk_deref C sk))
     (\<lambda>_ sk'. sk_good C cinv S winv sk sk' \<and> sk_term C sk' = sk_term C sk) sk"
  unfolding adopt_term_def
  by (rule wp_mono [OF wp_conf_change [OF assms(1)]])
    (use assms(2) state_le_start [OF assms(1)] in
      \<open>auto simp: with_term_def start_change_fields sk_deref_def sk_changed_def sk_same_def state_le_def\<close>)

lemma wp_update_system_id:
  assumes "sk_ok C cinv S winv sk"
  shows "wp (update_system_id C msg)
     (\<lambda>_ sk'. sk_good C cinv S winv sk sk' \<and> sk_term C sk' = sk_term C sk)
     (\<lambda>_ sk'. sk_good C cinv S winv sk sk' \<and> sk_term C sk' = sk_term C sk) sk"
  unfolding update_system_id_def wp_bindE [of "getE f" for f] wp_getE wp_if
  by (rule if_split [THEN iffD2], intro conjI impI wp_mono [OF wp_conf_change [OF assms]])
    (use assms state_le_start [OF assms(1)] in
      \<open>auto simp: wp_retE start_change_fields sk_deref_def sk_changed_def sk_same_def sk_good_def state_le_def\<close>)

lemma wp_membership_switch:
  assumes ok: "sk_ok C cinv S winv sk"
  shows "wp (on_state (membership_switch C target))
     (\<lambda>_ sk'. sk_good C cinv S winv sk sk' \<and> sk_term C sk' = sk_term C sk)
     (\<lambda>_ sk'. sk_good C cinv S winv sk sk' \<and> sk_term C sk' = sk_term C sk) sk"
proof (cases "generation target \<le> sk_gen C sk")
  case True
  then show ?thesis using ok
    by (simp add: membership_switch_def on_state_def wp_simps sk_deref_def sk_good_def)
next
  case False
  have "wp (on_state (bindE (getE (start_change C)) (\<lambda>st. finish_change C (st\<lparr>mconf := target\<rparr>))))
     (\<lambda>_ sk'. sk_good C cinv S winv sk sk' \<and> sk_term C sk' = sk_term C sk)
     (\<lambda>_ sk'. sk_good C cinv S winv sk sk' \<and> sk_term C sk' = sk_term C sk) sk"
    by (rule wp_mono [OF wp_conf_change [OF ok]])
      (use False state_le_start [OF ok] in
        \<open>auto simp: start_change_fields sk_deref_def sk_changed_def sk_same_def state_le_def\<close>)
  then show ?thesis using False
    by (simp add: membership_switch_def on_state_def wp_simps sk_deref_def) (erule wp_mono, simp_all add: wp_simps)
qed

lemma wp_handle_greeting:
  assumes ok: "sk_ok C cinv S winv sk"
  shows "wp (handle_greeting C msg)
     (\<lambda>r sk'. sk_good C cinv S winv sk sk' \<and> sk_term C sk' = sk_term C sk \<and> reply_true C S sk' r)
     (\<lambda>_ sk'. sk_good C cinv S winv sk sk' \<and> sk_term C sk' = sk_term C sk) sk"
proof -
  have refl: "sk_good C cinv S winv sk sk" using ok by (simp add: sk_good_def)
  have sw: "wp (on_state (membership_switch C (pg_mconf msg)))
      (\<lambda>_ sk'. sk_good C cinv S winv sk sk' \<and> sk_term C sk' = sk_term C sk1)
      (\<lambda>_ sk'. sk_good C cinv S winv sk sk' \<and> sk_term C sk' = sk_term C sk1) sk1"
    if "sk_good C cinv S winv sk sk1" for sk1
    by (rule wp_good_trans [OF that wp_membership_switch]) (use that in \<open>simp add: sk_good_def\<close>)
  show ?thesis
    unfolding handle_greeting_def
    using refl
    by (auto simp: wp_bindE wp_thenE wp_getE wp_guardE wp_liftR reply_true_def split: sum.splits
        intro!: wp_mono [OF wp_update_system_id [OF ok]] wp_mono [OF sw])
qed

lemma wp_handle_vote_request:
  assumes ok: "sk_ok C cinv S winv sk"
  shows "wp (handle_vote_request C S msg)
     (\<lambda>r sk'. sk_good C cinv S winv sk sk' \<and> (\<exists>resp. r = Some (AVoteResponse resp) \<and>
        vr_term resp = sk_term C sk' \<and> vr_flush_lsn resp = sk_flush_lsn C S sk' \<and>
        vr_vote_given resp = (sk_term C sk < vq_term msg) \<and>
        sk_term C sk' = max (sk_term C sk) (vq_term msg)))
     (\<lambda>_ sk'. sk_good C cinv S winv sk sk' \<and> sk_term C sk' = sk_term C sk) sk"
proof -
  have refl: "sk_good C cinv S winv sk sk" using ok by (simp add: sk_good_def)
  have ad: "wp (adopt_term C (vq_term msg))
      (\<lambda>_ sk'. sk_good C cinv S winv sk sk' \<and> sk_term C sk' = vq_term msg \<and> sk_gen C sk' = sk_gen C sk1
        \<and> wal_store sk' = wal_store sk1
        \<and> timeline_start_lsn (sk_deref C sk') = timeline_start_lsn (sk_deref C sk1))
      (\<lambda>_ sk'. sk_good C cinv S winv sk sk' \<and> sk_term C sk' = sk_term C sk1) sk1"
    if "sk_good C cinv S winv sk sk1" "sk_term C sk1 < vq_term msg" for sk1
    by (rule wp_good_trans [OF that(1) wp_adopt_term]) (use that in \<open>simp_all add: sk_good_def\<close>)
  show ?thesis
    unfolding handle_vote_request_def
    using refl
    by (auto simp: wp_bindE wp_thenE wp_getE wp_guardE wp_liftR wp_retE max_def sk_flush_lsn_def
        split: sum.splits intro!: wp_mono [OF wp_wal_flush [OF ok]] wp_mono [OF ad])
qed

lemma wp_update_commit_lsn:
  assumes ok: "sk_ok C cinv S winv sk"
  shows "wp (update_commit_lsn C S candidate)
     (\<lambda>_ sk'. sk_good C cinv S winv sk sk' \<and> sk_term C sk' = sk_term C sk \<and> wal_store sk' = wal_store sk \<and>
        sk_commit sk' = min (max candidate (sk_commit sk)) (sk_flush_lsn C S sk))
     (\<lambda>_ sk'. sk_good C cinv S winv sk sk' \<and> sk_term C sk' = sk_term C sk) sk"
proof -
  define new where "new = min (max candidate (sk_commit sk)) (sk_flush_lsn C S sk)"
  let ?sk1 = "sk\<lparr>sk_state := (sk_state sk)\<lparr>inmem := (inmem (sk_state sk))\<lparr>mem_commit_lsn := new\<rparr>\<rparr>\<rparr>"
  have le: "sk_commit sk \<le> new" "new \<le> sk_flush_lsn C S sk" using ok by (simp_all add: sk_ok_def new_def)
  moreover have "commit_lsn (sk_deref C sk) \<le> new" using ok le(1) by (auto simp: sk_ok_def)
  ultimately have good: "sk_good C cinv S winv sk ?sk1"
    using ok by (simp add: sk_good_def sk_ok_def sk_grows_def sk_flush_lsn_def sk_deref_def)
  then have ok1: "sk_ok C cinv S winv ?sk1" by (simp add: sk_good_def)
  have fl: "wp (on_state (ts_flush C))
     (\<lambda>_ sk'. sk_good C cinv S winv sk sk' \<and> sk_changed C cinv (start_change C (sk_state ?sk1)) ?sk1 sk')
     (\<lambda>_ sk'. sk_good C cinv S winv sk sk' \<and> sk_same C cinv ?sk1 sk') ?sk1"
    unfolding ts_flush_def
    by (rule wp_good_trans [OF good wp_conf_change [where f = "\<lambda>st. st", OF ok1]])
      (use state_le_start [OF ok1] in \<open>simp_all add: start_change_fields sk_deref_def\<close>)
  show ?thesis
    unfolding update_commit_lsn_def Let_def
    using le good
    by (auto simp: wp_bindE wp_thenE wp_getE wp_guardE wp_retE wp_on_state_modify sk_deref_def
        new_def [symmetric] sk_changed_def sk_same_def start_change_fields mem_of_def
        intro!: wp_mono [OF fl])
qed

lemma wp_wal_write:
  assumes "sk_ok C cinv S winv sk" and "unat startpos + length buf \<le> 2 ^ 64 - 8"
  shows "wp (on_wal (ws_write_wal S startpos buf))
     (\<lambda>_ sk'. sk_good C cinv S winv sk sk' \<and> sk_deref C sk' = sk_deref C sk)
     (\<lambda>_ sk'. sk_good C cinv S winv sk sk' \<and> sk_deref C sk' = sk_deref C sk) sk"
proof -
  have "winv (wal_store sk)" using assms by (simp add: sk_ok_def)
  from wal.write_law [OF this assms(2)] show ?thesis
    unfolding on_wal_def wp_zoomE
    by (rule wp_mono)
      (use assms in \<open>auto simp: sk_good_def sk_ok_def sk_grows_def sk_flush_lsn_def max_def split: if_splits\<close>)
qed

lemma good_peer_horizon:
  "sk_good C cinv S winv a sk \<Longrightarrow>
     sk_good C cinv S winv a (sk\<lparr>sk_state := (sk_state sk)\<lparr>inmem := (inmem (sk_state sk))\<lparr>mem_peer_horizon_lsn := l\<rparr>\<rparr>\<rparr>)"
  by (simp add: sk_good_def sk_ok_def sk_grows_def sk_flush_lsn_def sk_deref_def)

lemma wp_handle_flush:
  assumes ok: "sk_ok C cinv S winv sk"
  shows "wp (handle_flush C S)
     (\<lambda>r sk'. sk_good C cinv S winv sk sk' \<and> sk_term C sk' = sk_term C sk \<and> reply_true C S sk' r)
     (\<lambda>_ sk'. sk_good C cinv S winv sk sk' \<and> sk_term C sk' = sk_term C sk) sk"
  unfolding handle_flush_def wp_thenE
  by (rule wp_mono [OF wp_wal_flush [OF ok]])
    (auto simp: wp_getE reply_true_def append_response_def sk_good_def sk_ok_def)

lemma wp_opt:
  assumes "\<And>sk. I sk \<Longrightarrow> wp m (\<lambda>_. I) (\<lambda>_. I) sk" and "I sk"
  shows "wp (if c then m else retE ()) (\<lambda>_. I) (\<lambda>_. I) sk"
  using assms by (simp add: wp_simps)

lemma wp_do_append:
  assumes ok: "sk_ok C cinv S winv sk"
    and fits: "unat (ah_begin_lsn (ar_h msg)) + length (ar_wal_data msg) \<le> 2 ^ 64 - 8"
  shows "wp (do_append C S msg fl x)
     (\<lambda>r sk'. sk_good C cinv S winv sk sk' \<and> sk_term C sk' = sk_term C sk \<and> reply_true C S sk' r)
     (\<lambda>_ sk'. sk_good C cinv S winv sk sk' \<and> sk_term C sk' = sk_term C sk) sk"
proof -
  let ?I = "\<lambda>sk'. sk_good C cinv S winv sk sk' \<and> sk_term C sk' = sk_term C sk"
  have init: "?I sk" using ok by (simp add: sk_good_def)
  have ok': "sk_ok C cinv S winv sk1" if "?I sk1" for sk1 using that by (simp add: sk_good_def)
  have tr: "sk_good C cinv S winv sk b" if "?I a" "sk_good C cinv S winv a b" for a b
    using that sk_good_trans by blast
  have wr: "wp (if ar_wal_data msg \<noteq> [] then on_wal (ws_write_wal S (ah_begin_lsn (ar_h msg)) (ar_wal_data msg))
      else retE ()) (\<lambda>_. ?I) (\<lambda>_. ?I) sk1" if "?I sk1" for sk1
    by (rule wp_opt [where I = ?I, OF wp_mono [OF wp_wal_write [OF ok' fits]] that]) (auto intro: tr)
  have fls: "wp (if fl then on_wal (ws_flush_wal S) else retE ()) (\<lambda>_. ?I) (\<lambda>_. ?I) sk1" if "?I sk1" for sk1
    by (rule wp_opt [where I = ?I, OF wp_mono [OF wp_wal_flush [OF ok']] that]) (auto intro: tr)
  have com: "wp (if ah_commit_lsn (ar_h msg) \<noteq> 0 then update_commit_lsn C S (ah_commit_lsn (ar_h msg)) else retE ())
      (\<lambda>_. ?I) (\<lambda>_. ?I) sk1" if "?I sk1" for sk1
    by (rule wp_opt [where I = ?I, OF wp_mono [OF wp_update_commit_lsn [OF ok']] that]) (auto intro: tr)
  have fin: "sk_good C cinv S winv sk sk2 \<and> sk_term C sk2 = sk_term C sk \<and> reply_true C S sk2
        (if \<not> fl \<and> x = sk_flush_lsn C S sk2 then None else Some (AAppendResponse (append_response C S sk2)))"
    if "?I sk1" "sk2 = sk1\<lparr>sk_state := (sk_state sk1)\<lparr>inmem := (inmem (sk_state sk1))\<lparr>mem_peer_horizon_lsn := l\<rparr>\<rparr>\<rparr>"
    for sk1 sk2 l
    using that good_peer_horizon [of sk sk1 l]
    by (auto simp: reply_true_def append_response_def sk_good_def sk_ok_def sk_deref_def)
  show ?thesis
    unfolding do_append_def wp_thenE wp_on_state_modify wp_getE
    apply (rule wp_mono [OF wr [OF init]])
     apply (erule wp_mono [OF fls])
      apply (erule wp_mono [OF com])
       apply (erule fin [OF _ refl])
    by assumption+
qed

lemma wp_handle_append_request:
  assumes ok: "sk_ok C cinv S winv sk"
    and fits: "unat (ah_begin_lsn (ar_h msg)) + length (ar_wal_data msg) \<le> 2 ^ 64 - 8"
  shows "wp (handle_append_request C S msg fl)
     (\<lambda>r sk'. sk_good C cinv S winv sk sk' \<and> sk_term C sk' = sk_term C sk \<and> reply_true C S sk' r)
     (\<lambda>_ sk'. sk_good C cinv S winv sk sk' \<and> sk_term C sk' = sk_term C sk) sk"
  unfolding handle_append_request_def Let_def
  using ok
  by (auto simp: wp_simps sk_good_def reply_true_def term_only_def intro!: wp_mono [OF wp_do_append [OF ok fits]])

lemma wp_elected_truncate:
  assumes ok: "sk_ok C cinv S winv sk" and nz: "pe_start_streaming_at msg \<noteq> 0"
    and com: "sk_commit sk \<le> pe_start_streaming_at msg"
  shows "wp (elected_truncate S msg)
     (\<lambda>_ sk'. sk_good C cinv S winv sk sk' \<and> sk_deref C sk' = sk_deref C sk \<and>
        sk_state sk' = sk_state sk \<and> ws_flush_lsn S (wal_store sk') = pe_start_streaming_at msg)
     (\<lambda>_ sk'. sk_good C cinv S winv sk sk' \<and> sk_deref C sk' = sk_deref C sk) sk"
proof -
  have wi: "winv (wal_store sk)" using ok by (simp add: sk_ok_def)
  have good: "sk_good C cinv S winv sk (sk\<lparr>wal_store := w\<rparr>)"
    if "winv w" "ws_flush_lsn S w = ws_flush_lsn S (wal_store sk) \<or> ws_flush_lsn S w = pe_start_streaming_at msg" for w
    using ok com that by (auto simp: sk_good_def sk_ok_def sk_grows_def sk_flush_lsn_def le_max_iff_disj)
  have tr: "wp (on_wal (ws_truncate_wal S (pe_start_streaming_at msg)))
     (\<lambda>_ sk'. sk_good C cinv S winv sk sk' \<and> sk_deref C sk' = sk_deref C sk \<and>
        sk_state sk' = sk_state sk \<and> ws_flush_lsn S (wal_store sk') = pe_start_streaming_at msg)
     (\<lambda>_ sk'. sk_good C cinv S winv sk sk' \<and> sk_deref C sk' = sk_deref C sk) (sk\<lparr>wal_store := w\<rparr>)"
    if "winv w" "ws_flush_lsn S w = ws_flush_lsn S (wal_store sk)" for w
  proof -
    have set: "sk\<lparr>wal_store := w, wal_store := w'\<rparr> = sk\<lparr>wal_store := w'\<rparr>"
      "wal_store (sk\<lparr>wal_store := w\<rparr>) = w" for w' by simp_all
    show ?thesis
      unfolding on_wal_def wp_zoomE set
      by (rule wp_mono [OF wal.truncate_law [OF that(1) nz]]) (use that(2) good in auto)
  qed
  have self: "sk\<lparr>wal_store := wal_store sk\<rparr> = sk" by simp
  show ?thesis
  proof (cases "ws_flush_lsn S (wal_store sk) = LSN_INVALID")
    case True
    have "wp (on_wal (ws_initialize_first_segment S (pe_start_streaming_at msg)))
        (\<lambda>_ sk'. \<exists>w. sk' = sk\<lparr>wal_store := w\<rparr> \<and> winv w \<and> ws_flush_lsn S w = ws_flush_lsn S (wal_store sk))
        (\<lambda>_ sk'. sk_good C cinv S winv sk sk' \<and> sk_deref C sk' = sk_deref C sk) sk"
      unfolding on_wal_def wp_zoomE
      by (rule wp_mono [OF wal.initialize_law [OF wi]]) (use good in auto)
    then show ?thesis
      unfolding elected_truncate_def using True
      by (simp add: wp_simps) (erule wp_mono, erule exE, simp only: tr)
  next
    case False
    then show ?thesis using tr [OF wi, unfolded self] by (simp add: elected_truncate_def wp_simps)
  qed
qed

lemma wp_do_elected:
  assumes ok: "sk_ok C cinv S winv sk" and nz: "pe_start_streaming_at msg \<noteq> 0"
  shows "wp (do_elected C S msg)
     (\<lambda>r sk'. sk_good C cinv S winv sk sk' \<and> sk_term C sk' = sk_term C sk \<and> r = None \<and>
        term_history (acceptor_state (sk_deref C sk')) = pe_term_history msg \<and>
        ws_flush_lsn S (wal_store sk') = pe_start_streaming_at msg)
     (\<lambda>_ sk'. sk_good C cinv S winv sk sk' \<and> sk_term C sk' = sk_term C sk) sk"
proof -
  have refl: "sk_good C cinv S winv sk sk" using ok by (simp add: sk_good_def)
  have ad: "wp (on_state (bindE (getE (start_change C)) (\<lambda>st. finish_change C (adopt_history msg st))))
     (\<lambda>_ sk'. sk_good C cinv S winv sk sk' \<and> sk_term C sk' = sk_term C sk \<and>
        term_history (acceptor_state (sk_deref C sk')) = pe_term_history msg \<and>
        ws_flush_lsn S (wal_store sk') = pe_start_streaming_at msg)
     (\<lambda>_ sk'. sk_good C cinv S winv sk sk' \<and> sk_term C sk' = sk_term C sk) sk1"
    if g: "sk_good C cinv S winv sk sk1" and d: "sk_deref C sk1 = sk_deref C sk" and s: "sk_state sk1 = sk_state sk"
      and f: "ws_flush_lsn S (wal_store sk1) = pe_start_streaming_at msg"
      and c: "sk_commit sk \<le> pe_start_streaming_at msg" for sk1
  proof -
    have ok1: "sk_ok C cinv S winv sk1" using g by (simp add: sk_good_def)
    then have ci: "cinv (pers (sk_state sk1))" by (simp add: sk_ok_def)
    let ?st = "adopt_history msg (start_change C (sk_state sk1))"
    have le: "state_le (sk_deref C sk1) ?st"
      using state_le_start [OF ok1]
      by (auto simp: state_le_def adopt_history_def Let_def start_change_fields sk_deref_def le_max_iff_disj
          split: list.splits)
    have fields: "acc_term (acceptor_state ?st) = sk_term C sk"
      "commit_lsn ?st = max (sk_commit sk) (timeline_start_lsn ?st)"
      "term_history (acceptor_state ?st) = pe_term_history msg"
      using s by (auto simp: adopt_history_def Let_def start_change_fields sk_deref_def split: list.splits)
    have "sk_good C cinv S winv sk sk2" if "sk_changed C cinv ?st sk1 sk2" for sk2
      by (rule sk_good_trans [OF g good_changed [OF ok1 that le]])
        (use fields d s f c in \<open>auto simp: le_max_iff_disj\<close>)
    moreover have "sk_good C cinv S winv sk sk2" if "sk_same C cinv sk1 sk2" for sk2
      by (rule sk_good_trans [OF g sk_good_same [OF ok1 that]])
    ultimately show ?thesis
      by (intro wp_mono [OF wp_change [where f = "adopt_history msg", OF ci le]]) (use fields d f in \<open>auto simp: sk_changed_def sk_same_def\<close>)
  qed
  have rest: "wp (thenE (elected_truncate S msg)
      (thenE (on_state (bindE (getE (start_change C)) (\<lambda>st. finish_change C (adopt_history msg st))))
      (case pe_term_history msg of
         [] \<Rightarrow> failE (Bail ''proposer elected with empty term history'')
       | th \<Rightarrow> thenE (modifyE (\<lambda>sk. sk\<lparr>term_start_lsn := tl_lsn (last th)\<rparr>)) (retE None))))
     (\<lambda>r sk'. sk_good C cinv S winv sk sk' \<and> sk_term C sk' = sk_term C sk \<and> r = None \<and>
        term_history (acceptor_state (sk_deref C sk')) = pe_term_history msg \<and>
        ws_flush_lsn S (wal_store sk') = pe_start_streaming_at msg)
     (\<lambda>_ sk'. sk_good C cinv S winv sk sk' \<and> sk_term C sk' = sk_term C sk) sk"
    if c: "sk_commit sk \<le> pe_start_streaming_at msg"
    unfolding wp_thenE
    apply (rule wp_mono [OF wp_elected_truncate [OF ok nz c]])
     apply (elim conjE, erule (3) wp_mono [OF ad [OF _ _ _ _ c]])
      apply (auto simp: wp_simps sk_good_def sk_ok_def sk_grows_def sk_flush_lsn_def split: list.splits)
    done
  show ?thesis
    unfolding do_elected_def
    using refl rest by (auto simp: wp_bindE wp_thenE [of "guardE c e" for c e] wp_getE wp_liftR wp_guardE split: sum.splits)
qed

lemma wp_handle_elected:
  assumes ok: "sk_ok C cinv S winv sk" and nz: "pe_start_streaming_at msg \<noteq> 0"
  shows "wp (handle_elected C S msg)
     (\<lambda>r sk'. sk_good C cinv S winv sk sk' \<and> r = None \<and> sk_term C sk' = max (sk_term C sk) (pe_term msg) \<and>
        (sk_term C sk \<le> pe_term msg \<longrightarrow>
         term_history (acceptor_state (sk_deref C sk')) = pe_term_history msg \<and>
         ws_flush_lsn S (wal_store sk') = pe_start_streaming_at msg))
     (\<lambda>_ sk'. sk_good C cinv S winv sk sk') sk"
proof -
  have refl: "sk_good C cinv S winv sk sk" using ok by (simp add: sk_good_def)
  have el: "wp (do_elected C S msg)
     (\<lambda>r sk'. sk_good C cinv S winv sk sk' \<and> sk_term C sk' = sk_term C sk1 \<and> r = None \<and>
        term_history (acceptor_state (sk_deref C sk')) = pe_term_history msg \<and>
        ws_flush_lsn S (wal_store sk') = pe_start_streaming_at msg)
     (\<lambda>_ sk'. sk_good C cinv S winv sk sk' \<and> sk_term C sk' = sk_term C sk1) sk1"
    if "sk_good C cinv S winv sk sk1" for sk1
    by (rule wp_good_trans [OF that wp_do_elected [OF _ nz]]) (use that in \<open>simp add: sk_good_def\<close>)
  show ?thesis
    unfolding handle_elected_def
    using refl
    by (auto simp: wp_bindE wp_thenE wp_getE wp_guardE wp_retE max_def
        intro!: wp_mono [OF wp_adopt_term [OF ok]] wp_mono [OF el])
qed

lemma wp_record_safekeeper_info:
  assumes ok: "sk_ok C cinv S winv sk"
  shows "wp (record_safekeeper_info C S l t)
     (\<lambda>_ sk'. sk_good C cinv S winv sk sk' \<and> sk_term C sk' = sk_term C sk)
     (\<lambda>_ sk'. sk_good C cinv S winv sk sk' \<and> sk_term C sk' = sk_term C sk) sk"
  unfolding record_safekeeper_info_def
  using ok by (auto simp: wp_simps sk_good_def intro!: wp_mono [OF wp_update_commit_lsn [OF ok, unfolded sk_good_def]])

text \<open>Every message, whatever its outcome.\<close>

lemma wp_process_msg:
  assumes ok: "sk_ok C cinv S winv sk" and m: "msg_ok msg"
  shows "wp (process_msg C S msg) (\<lambda>r sk'. sk_good C cinv S winv sk sk' \<and> reply_true C S sk' r)
     (\<lambda>_. sk_good C cinv S winv sk) sk"
proof (cases msg)
  case (PVoteRequest v)
  then show ?thesis
    by (simp, intro wp_mono [OF wp_handle_vote_request [OF ok]]) (auto simp: reply_true_def)
next
  case (PElected e)
  then show ?thesis using m
    by (simp, intro wp_mono [OF wp_handle_elected [OF ok]]) (auto simp: reply_true_def)
qed (use m in \<open>auto intro: wp_mono [OF wp_handle_greeting [OF ok]] wp_mono [OF wp_handle_flush [OF ok]]
      wp_mono [OF wp_handle_append_request [OF ok]]\<close>)

end

end
