(* ===== verification/Shared_State.thy ===== *)
theory Shared_State
  imports Safekeeper
begin

text \<open>
  The state of one timeline on a safekeeper node (\<open>safekeeper/src/timeline.rs\<close>, \<open>StateSK\<close>
  and \<open>SharedState::restore\<close>): a loaded safekeeper over the control file and the physical WAL
  storage, or only the control file once the WAL is offloaded. Every operation, and a restart
  from what a crash left of the control file, keeps the node's invariant and lets the persistent
  state only grow.
\<close>

section \<open>States\<close>

type_synonym node = "(FileStorage, PhysicalStorage) SafeKeeper"

datatype StateSK =
    SkLoaded node
  | SkOffloaded "FileStorage TimelineState"
  | SkEmpty

definition unreachable :: err where
  "unreachable = Panic ''internal error: entered unreachable code''"

text \<open>\<open>state_mut\<close>: work on the control file's state in either variant.\<close>

definition on_state_mut :: "(FileStorage TimelineState, 'a) prog \<Rightarrow> (StateSK, 'a) prog" where
  "on_state_mut m s =
     (case s of
        SkLoaded sk \<Rightarrow> (case on_state m sk of (r, sk') \<Rightarrow> (r, SkLoaded sk'))
      | SkOffloaded ts \<Rightarrow> (case m ts of (r, ts') \<Rightarrow> (r, SkOffloaded ts'))
      | SkEmpty \<Rightarrow> (Inl unreachable, SkEmpty))"

fun ssk_state :: "StateSK \<Rightarrow> FileStorage TimelineState res" where
  "ssk_state (SkLoaded sk) = Inr (sk_state sk)"
| "ssk_state (SkOffloaded ts) = Inr ts"
| "ssk_state SkEmpty = Inl unreachable"

fun ssk_flush_lsn :: "StateSK \<Rightarrow> lsn res" where
  "ssk_flush_lsn (SkLoaded sk) = Inr (flush_record_lsn (wal_store sk))"
| "ssk_flush_lsn (SkOffloaded ts) =
     (case eviction_state (state (pers ts)) of
        Offloaded l \<Rightarrow> Inr l
      | Present \<Rightarrow> Inl (Panic ''StateSK::Offloaded mismatches with eviction_state from control_file''))"
| "ssk_flush_lsn SkEmpty = Inl unreachable"

definition ssk_last_log_term :: "StateSK \<Rightarrow> Term res" where
  "ssk_last_log_term s =
     bind_res (ssk_state s) (\<lambda>ts.
     map_res (acceptor_get_last_log_term (acceptor_state (state (pers ts)))) (ssk_flush_lsn s))"

definition ssk_term_bump :: "codec \<Rightarrow> Term option \<Rightarrow> (StateSK, TimelineTermBumpResponse) prog" where
  "ssk_term_bump K to = on_state_mut (term_bump (file_ctrl_ops K) to)"

record TimelineMembershipSwitchResponse =
  msr_previous_conf :: Configuration
  msr_current_conf :: Configuration
  msr_last_log_term :: Term
  msr_flush_lsn :: lsn

definition ssk_membership_switch ::
  "codec \<Rightarrow> Configuration \<Rightarrow> (StateSK, TimelineMembershipSwitchResponse) prog" where
  "ssk_membership_switch K to =
     bindE (on_state_mut (membership_switch (file_ctrl_ops K) to)) (\<lambda>result.
     bindE (bindE (getE ssk_flush_lsn) liftR) (\<lambda>fl.
     bindE (bindE (getE ssk_last_log_term) liftR) (\<lambda>t.
     retE \<lparr>msr_previous_conf = previous_conf result, msr_current_conf = current_conf result,
           msr_last_log_term = t, msr_flush_lsn = fl\<rparr>)))"

text \<open>The WAL storage's close cannot fail.\<close>

definition close_wal_store :: "StateSK \<Rightarrow> StateSK" where
  "close_wal_store s =
     (case s of SkLoaded sk \<Rightarrow> SkLoaded (snd (on_wal storage_close sk)) | _ \<Rightarrow> s)"

text \<open>The fields of the broker's message that are read.\<close>

record SafekeeperTimelineInfo =
  si_last_log_term :: Term
  si_commit_lsn :: lsn
  si_backup_lsn :: lsn
  si_remote_consistent_lsn :: lsn
  si_peer_horizon_lsn :: lsn

definition record_peer_positions ::
  "codec \<Rightarrow> SafekeeperTimelineInfo \<Rightarrow> (FileStorage TimelineState, unit) prog" where
  "record_peer_positions K info =
     bindE (getE (\<lambda>ts. state (pers ts))) (\<lambda>p.
     let sz = ucast (wal_seg_size (server p)) :: u64 in
     thenE (modifyE (\<lambda>ts. ts\<lparr>inmem := (inmem ts)\<lparr>mem_backup_lsn :=
       max (si_backup_lsn info) (mem_backup_lsn (inmem ts))\<rparr>\<rparr>))
     (bindE (liftR (lsn_add (backup_lsn p) sz)) (\<lambda>b.
     bindE (getE (\<lambda>ts. b < mem_backup_lsn (inmem ts))) (\<lambda>sync1.
     thenE (modifyE (\<lambda>ts. ts\<lparr>inmem := (inmem ts)\<lparr>mem_remote_consistent_lsn :=
       max (si_remote_consistent_lsn info) (mem_remote_consistent_lsn (inmem ts))\<rparr>\<rparr>))
     (bindE (liftR (lsn_add (remote_consistent_lsn p) sz)) (\<lambda>r.
     bindE (getE (\<lambda>ts. r < mem_remote_consistent_lsn (inmem ts))) (\<lambda>sync2.
     thenE (modifyE (\<lambda>ts. ts\<lparr>inmem := (inmem ts)\<lparr>mem_peer_horizon_lsn :=
       max (si_peer_horizon_lsn info) (mem_peer_horizon_lsn (inmem ts))\<rparr>\<rparr>))
     (bindE (liftR (lsn_add (peer_horizon_lsn p) sz)) (\<lambda>h.
     bindE (getE (\<lambda>ts. h < mem_peer_horizon_lsn (inmem ts))) (\<lambda>sync3.
     if sync1 \<or> sync2 \<or> sync3 then ts_flush (file_ctrl_ops K) else retE ()))))))))))"

definition on_loaded :: "(node, 'a) prog \<Rightarrow> (StateSK, 'a option) prog" where
  "on_loaded m s =
     (case s of
        SkLoaded sk \<Rightarrow> (case m sk of (r, sk') \<Rightarrow> (map_res Some r, SkLoaded sk'))
      | SkOffloaded _ \<Rightarrow> (Inr None, s)
      | SkEmpty \<Rightarrow> (Inl unreachable, s))"

definition ssk_record_safekeeper_info ::
  "codec \<Rightarrow> wal_env \<Rightarrow> SafekeeperTimelineInfo \<Rightarrow> (StateSK, unit) prog" where
  "ssk_record_safekeeper_info K E info =
     thenE (on_loaded (record_safekeeper_info (file_ctrl_ops K) (physical_ops E)
              (si_commit_lsn info) (si_last_log_term info)))
     (on_state_mut (record_peer_positions K info))"

fun ssk_term_start_lsn :: "StateSK \<Rightarrow> lsn res" where
  "ssk_term_start_lsn (SkLoaded sk) = Inr (term_start_lsn sk)"
| "ssk_term_start_lsn (SkOffloaded _) = Inr 0"
| "ssk_term_start_lsn SkEmpty = Inl unreachable"

fun wal_storage_internal_state :: "StateSK \<Rightarrow> (lsn \<times> lsn \<times> lsn \<times> bool) res" where
  "wal_storage_internal_state (SkLoaded sk) = Inr (internal_state (wal_store sk))"
| "wal_storage_internal_state (SkOffloaded ts) =
     map_res (\<lambda>l. (l, l, l, False)) (ssk_flush_lsn (SkOffloaded ts))"
| "wal_storage_internal_state SkEmpty = Inl unreachable"

text \<open>Messages go to the loaded safekeeper; \<open>safekeeper()\<close> panics otherwise.\<close>

definition ssk_process_msg ::
  "codec \<Rightarrow> wal_env \<Rightarrow> ProposerAcceptorMessage \<Rightarrow> (StateSK, AcceptorProposerMessage option) prog" where
  "ssk_process_msg K E msg s =
     (case s of
        SkLoaded sk \<Rightarrow>
          (case process_msg (file_ctrl_ops K) (physical_ops E) msg sk of (r, sk') \<Rightarrow> (r, SkLoaded sk'))
      | SkOffloaded _ \<Rightarrow> (Inl (Panic ''safekeeper is offloaded, cannot be used''), s)
      | SkEmpty \<Rightarrow> (Inl unreachable, s))"

text \<open>\<open>SharedState::restore\<close>; the directory of the control file and the directory of the segments.\<close>

definition shared_restore ::
  "codec \<Rightarrow> wal_env \<Rightarrow> nat \<Rightarrow> bool \<Rightarrow> NodeId \<Rightarrow> fs \<Rightarrow> fs \<Rightarrow> StateSK res" where
  "shared_restore K E now nosync my_id cdir wdir =
     (case restore_new K now nosync cdir of
        (Inl e, _) \<Rightarrow> Inl e
      | (Inr control_store, _) \<Rightarrow>
          if wal_seg_size (server (state control_store)) = 0 then Inl (Bail ''UninitializedWalSegSize'')
          else case eviction_state (state control_store) of
            Present \<Rightarrow>
              bind_res (fst (storage_new E (state control_store) nosync wdir)) (\<lambda>w.
              map_res SkLoaded
                (sk_new (file_ctrl_ops K) (timeline_state_new (file_ctrl_ops K) control_store) w my_id))
          | Offloaded _ \<Rightarrow> Inr (SkOffloaded (timeline_state_new (file_ctrl_ops K) control_store)))"

section \<open>Invariant\<close>

interpretation node: safekeeper "file_ctrl_ops K" "file_durable K" "physical_ops E" ps_inv for K E
  by unfold_locales

definition ts_ok :: "codec \<Rightarrow> FileStorage TimelineState \<Rightarrow> bool" where
  "ts_ok K ts \<longleftrightarrow>
     file_durable K (pers ts) \<and> commit_lsn (state (pers ts)) \<le> mem_commit_lsn (inmem ts)"

text \<open>A change of the control file's state that leaves the commit position alone.\<close>

definition ts_good :: "codec \<Rightarrow> FileStorage TimelineState \<Rightarrow> FileStorage TimelineState \<Rightarrow> bool" where
  "ts_good K ts ts' \<longleftrightarrow>
     ts_ok K ts' \<and> state_le (state (pers ts)) (state (pers ts')) \<and>
     mem_commit_lsn (inmem ts') = mem_commit_lsn (inmem ts) \<and>
     timeline_start_lsn (state (pers ts')) = timeline_start_lsn (state (pers ts))"

text \<open>
  A node in order: the control file's invariant holds (with fsync on and a codec that round-trips,
  see \<open>file_durable\<close>), the WAL storage's invariant holds, segments are of 16 MB, and the commit
  position is covered.
\<close>

definition ssk_ok :: "codec \<Rightarrow> wal_env \<Rightarrow> StateSK \<Rightarrow> bool" where
  "ssk_ok K E s \<longleftrightarrow> (case s of
      SkLoaded sk \<Rightarrow>
        sk_ok (file_ctrl_ops K) (file_durable K) (physical_ops E) ps_inv sk \<and>
        wal_seg_size (server (state (pers (sk_state sk)))) = word_of_nat WAL_SEGMENT_SIZE
    | SkOffloaded ts \<Rightarrow>
        ts_ok K ts \<and> wal_seg_size (server (state (pers ts))) = word_of_nat WAL_SEGMENT_SIZE
    | SkEmpty \<Rightarrow> False)"

fun ssk_pers :: "StateSK \<Rightarrow> TimelinePersistentState" where
  "ssk_pers (SkLoaded sk) = state (pers (sk_state sk))"
| "ssk_pers (SkOffloaded ts) = state (pers ts)"
| "ssk_pers SkEmpty = undefined"

definition ssk_good :: "codec \<Rightarrow> wal_env \<Rightarrow> StateSK \<Rightarrow> StateSK \<Rightarrow> bool" where
  "ssk_good K E s s' \<longleftrightarrow> ssk_ok K E s' \<and> state_le (ssk_pers s) (ssk_pers s')"

lemma ssk_good_trans: "ssk_good K E a b \<Longrightarrow> ssk_good K E b c \<Longrightarrow> ssk_good K E a c"
  by (auto simp: ssk_good_def intro: state_le_trans)

lemma ts_good_trans: "ts_good K a b \<Longrightarrow> ts_good K b c \<Longrightarrow> ts_good K a c"
  by (auto simp: ts_good_def intro: state_le_trans)

lemma file_deref [simp]: "ts_deref (file_ctrl_ops K) ts = state (pers ts)"
  "sk_deref (file_ctrl_ops K) sk = state (pers (sk_state sk))"
  by (simp_all add: ts_deref_def sk_deref_def file_ctrl_ops_def)

lemma file_start_change:
  "ts_ok K ts \<Longrightarrow> state_le (state (pers ts)) (start_change (file_ctrl_ops K) ts)"
  by (simp add: state_le_def ts_ok_def start_change_fields)

lemma wp_ts_change:
  fixes f
  assumes ok: "ts_ok K ts"
  defines "st \<equiv> f (start_change (file_ctrl_ops K) ts)"
  assumes le: "state_le (state (pers ts)) st" and c: "commit_lsn st = mem_commit_lsn (inmem ts)"
    and t: "timeline_start_lsn st = timeline_start_lsn (state (pers ts))"
  shows "wp (bindE (getE (start_change (file_ctrl_ops K))) (\<lambda>st. finish_change (file_ctrl_ops K) (f st)))
     (\<lambda>_. ts_good K ts) (\<lambda>_. ts_good K ts) ts"
  unfolding wp_bindE wp_getE st_def [symmetric]
  by (rule wp_mono [OF durable_ctrl.finish_change_wp])
    (use ok le c t in \<open>auto simp: ts_good_def ts_ok_def mem_of_def\<close>)

lemma wp_on_state_mut:
  assumes "\<And>ts. ts_ok K ts \<Longrightarrow> wp m (\<lambda>_. ts_good K ts) (\<lambda>_. ts_good K ts) ts" and "ssk_ok K E s"
  shows "wp (on_state_mut m) (\<lambda>_. ssk_good K E s) (\<lambda>_. ssk_good K E s) s"
proof (cases s)
  case (SkLoaded sk)
  then have ok: "sk_ok (file_ctrl_ops K) (file_durable K) (physical_ops E) ps_inv sk"
    and seg: "wal_seg_size (server (state (pers (sk_state sk)))) = word_of_nat WAL_SEGMENT_SIZE"
    using assms(2) by (simp_all add: ssk_ok_def)
  then have "ts_ok K (sk_state sk)" by (simp add: ts_ok_def sk_ok_def)
  note w = assms(1) [OF this]
  have "ssk_good K E s (SkLoaded (sk\<lparr>sk_state := ts'\<rparr>))" if "ts_good K (sk_state sk) ts'" for ts'
    using that ok seg SkLoaded
    by (auto simp: ssk_good_def ssk_ok_def sk_ok_def ts_good_def ts_ok_def sk_flush_lsn_def state_le_def)
  then show ?thesis
    using w SkLoaded by (auto simp: wp_def on_state_mut_def on_state_def zoomE_def split: prod.splits sum.splits)
next
  case (SkOffloaded ts)
  then have "ts_ok K ts" and seg: "wal_seg_size (server (state (pers ts))) = word_of_nat WAL_SEGMENT_SIZE"
    using assms(2) by (simp_all add: ssk_ok_def)
  note w = assms(1) [OF this(1)]
  have "ssk_good K E s (SkOffloaded ts')" if "ts_good K ts ts'" for ts'
    using that seg SkOffloaded by (auto simp: ssk_good_def ssk_ok_def ts_good_def state_le_def)
  then show ?thesis
    using w SkOffloaded by (auto simp: wp_def on_state_mut_def split: prod.splits sum.splits)
next
  case SkEmpty
  then show ?thesis using assms(2) by (simp add: ssk_ok_def)
qed

lemma wp_ts_term_bump:
  assumes ok: "ts_ok K ts"
  shows "wp (term_bump (file_ctrl_ops K) to) (\<lambda>_. ts_good K ts) (\<lambda>_. ts_good K ts) ts"
proof -
  let ?C = "file_ctrl_ops K"
  have refl: "ts_good K ts ts" using ok by (simp add: ts_good_def)
  have ch: "wp (finish_change ?C (with_term t (start_change ?C ts))) (\<lambda>_. ts_good K ts) (\<lambda>_. ts_good K ts) ts"
    if "acc_term (acceptor_state (state (pers ts))) < t" for t
    using wp_ts_change [OF ok, of "with_term t"] file_start_change [OF ok] that
    by (simp add: wp_simps state_le_def with_term_def start_change_fields)
  show ?thesis
    unfolding term_bump_def
    using refl
    by (auto simp: wp_simps Let_def start_change_fields split: option.splits intro!: wp_mono [OF ch])
qed

lemma wp_ts_membership_switch:
  assumes ok: "ts_ok K ts"
  shows "wp (membership_switch (file_ctrl_ops K) to) (\<lambda>_. ts_good K ts) (\<lambda>_. ts_good K ts) ts"
proof -
  let ?C = "file_ctrl_ops K"
  have refl: "ts_good K ts ts" using ok by (simp add: ts_good_def)
  have ch: "wp (finish_change ?C ((start_change ?C ts)\<lparr>mconf := to\<rparr>)) (\<lambda>_. ts_good K ts) (\<lambda>_. ts_good K ts) ts"
    if "\<not> generation to \<le> generation (mconf (state (pers ts)))"
    using wp_ts_change [OF ok, of "\<lambda>st. st\<lparr>mconf := to\<rparr>"] file_start_change [OF ok] that
    by (auto simp: wp_simps state_le_def start_change_fields)
  show ?thesis
    unfolding membership_switch_def
    using refl by (auto simp: wp_simps intro!: wp_mono [OF ch])
qed

lemma keeps_peer_positions: "keeps (ts_good K ts) (record_peer_positions K info)"
proof -
  have fl: "keeps (ts_good K ts) (ts_flush (file_ctrl_ops K))"
  proof (rule keepsI)
    fix ts1 assume g: "ts_good K ts ts1"
    then have ok: "ts_ok K ts1" by (simp add: ts_good_def)
    have "wp (ts_flush (file_ctrl_ops K)) (\<lambda>_. ts_good K ts1) (\<lambda>_. ts_good K ts1) ts1"
      unfolding ts_flush_def
      by (rule wp_ts_change [OF ok, where f = "\<lambda>st. st"])
        (use file_start_change [OF ok] in \<open>simp_all add: start_change_fields\<close>)
    then show "wp (ts_flush (file_ctrl_ops K)) (\<lambda>_. ts_good K ts) (\<lambda>_. ts_good K ts) ts1"
      by (rule wp_mono) (auto intro: ts_good_trans [OF g])
  qed
  show ?thesis
    unfolding record_peer_positions_def Let_def
    by (intro keeps_intros fl keeps_modifyE) (auto simp: ts_good_def ts_ok_def)
qed

lemma wp_ts_peer_positions:
  "ts_ok K ts \<Longrightarrow> wp (record_peer_positions K info) (\<lambda>_. ts_good K ts) (\<lambda>_. ts_good K ts) ts"
  by (rule keepsD [OF keeps_peer_positions]) (simp add: ts_good_def)

lemma ssk_good_loaded:
  assumes "ssk_ok K E (SkLoaded sk)"
    and "sk_good (file_ctrl_ops K) (file_durable K) (physical_ops E) ps_inv sk sk'"
  shows "ssk_good K E (SkLoaded sk) (SkLoaded sk')"
  using assms by (simp add: ssk_good_def ssk_ok_def sk_good_def sk_grows_def state_le_def)

lemma wp_ssk_process_msg:
  assumes "ssk_ok K E s" and "msg_ok msg"
  shows "wp (ssk_process_msg K E msg) (\<lambda>_. ssk_good K E s) (\<lambda>_. ssk_good K E s) s"
proof (cases s)
  case (SkLoaded sk)
  then have "sk_ok (file_ctrl_ops K) (file_durable K) (physical_ops E) ps_inv sk"
    using assms(1) by (simp add: ssk_ok_def)
  from node.wp_process_msg [OF this assms(2)] show ?thesis
    using SkLoaded assms(1)
    by (auto simp: wp_def ssk_process_msg_def split: prod.splits sum.splits intro: ssk_good_loaded)
qed (use assms in \<open>simp_all add: wp_def ssk_process_msg_def ssk_good_def\<close>)

lemma wp_ssk_record_info:
  assumes ok: "ssk_ok K E s"
  shows "wp (ssk_record_safekeeper_info K E info) (\<lambda>_. ssk_good K E s) (\<lambda>_. ssk_good K E s) s"
proof -
  have first: "wp (on_loaded (record_safekeeper_info (file_ctrl_ops K) (physical_ops E) l t))
      (\<lambda>_. ssk_good K E s) (\<lambda>_. ssk_good K E s) s" for l t
  proof (cases s)
    case (SkLoaded sk)
    then have "sk_ok (file_ctrl_ops K) (file_durable K) (physical_ops E) ps_inv sk"
      using ok by (simp add: ssk_ok_def)
    from node.wp_record_safekeeper_info [OF this, of l t] show ?thesis
      using SkLoaded ok
      by (auto simp: wp_def on_loaded_def map_res_def split: prod.splits sum.splits intro: ssk_good_loaded)
  qed (use ok in \<open>simp_all add: wp_def on_loaded_def ssk_good_def\<close>)
  have second: "wp (on_state_mut (record_peer_positions K info)) (\<lambda>_. ssk_good K E s) (\<lambda>_. ssk_good K E s) s1"
    if "ssk_good K E s s1" for s1
    by (rule wp_mono [OF wp_on_state_mut [OF wp_ts_peer_positions]])
      (use that in \<open>auto simp: ssk_good_def intro: state_le_trans\<close>)
  show ?thesis
    unfolding ssk_record_safekeeper_info_def wp_thenE
    by (rule wp_mono [OF first]) (auto intro: second)
qed

section \<open>Restart\<close>

lemma wp_storage_new:
  assumes "wal_seg_size (server st) = word_of_nat WAL_SEGMENT_SIZE"
  shows "wp (storage_new E st ns) (\<lambda>w _. ps_inv w \<and> commit_lsn st \<le> flush_record_lsn w) (\<lambda>_ _. True) d"
proof -
  have sz: "ucast (wal_seg_size (server st)) = wal_seg" using assms by (simp add: WAL_SEGMENT_SIZE_def)
  have inv: "ps_inv \<lparr>ps_timeline_dir = d', ps_no_sync = ns, ps_wal_seg_size = wal_seg, ps_pg_version = v,
      ps_system_id = i, write_lsn = w, write_record_lsn = w, flush_lsn = w, flush_record_lsn = w,
      decoder = decoder_new w m, wal_file = None, pending_wal_truncation = True\<rparr>" for d' v i w m
    using unat_bounds(4) [of w] by (simp add: ps_inv_def dec_wf_def dec_pos_def fed_pos_def decoder_new_def)
  show ?thesis
    unfolding storage_new_def Let_def sz wp_bindE
    by (rule wp_any) (auto simp: wp_simps inv [simplified] split: sum.splits)
qed

lemma shared_restore_ok:
  assumes ok: "ssk_ok K E s" and d: "file_durable K cs" "state cs = ssk_pers s"
    and rb: "reboot_of (timeline_dir cs) cdir"
    and r: "shared_restore K E now False my_id cdir wdir = Inr s'"
  shows "ssk_good K E s s'"
proof -
  obtain fs1 d1 where fs1: "restore_new K now False cdir = (Inr fs1, d1)"
    using r by (auto simp: shared_restore_def split: prod.splits sum.splits)
  have dur: "file_durable K fs1" "state_le (ssk_pers s) (state fs1)"
    using restore_durable [OF d(1) rb fs1] d(2) by simp_all
  have seg: "wal_seg_size (server (state fs1)) = word_of_nat WAL_SEGMENT_SIZE"
    using ok dur(2) by (cases s) (auto simp: ssk_ok_def state_le_def)
  show ?thesis
  proof (cases "eviction_state (state fs1)")
    case Present
    obtain w d2 where w: "storage_new E (state fs1) False wdir = (Inr w, d2)"
      and sk: "map_res SkLoaded (sk_new (file_ctrl_ops K) (timeline_state_new (file_ctrl_ops K) fs1) w my_id) = Inr s'"
      using r fs1 Present
      by (cases "storage_new E (state fs1) False wdir")
        (auto simp: shared_restore_def bind_res_Inr split: if_splits)
    have "ps_inv w" "commit_lsn (state fs1) \<le> flush_record_lsn w"
      using wp_runD [OF wp_storage_new [OF seg] w] by simp_all
    then show ?thesis
      using sk dur seg
      by (auto simp: sk_new_def map_res_def ssk_good_def ssk_ok_def sk_ok_def timeline_state_new_def mem_of_def
          file_ctrl_ops_def sk_flush_lsn_def physical_ops_def le_max_iff_disj sk_deref_def ts_deref_def split: if_splits)
  next
    case (Offloaded l)
    then show ?thesis
      using r fs1 dur seg
      by (auto simp: shared_restore_def ssk_good_def ssk_ok_def ts_ok_def timeline_state_new_def mem_of_def
          file_ctrl_ops_def split: if_splits)
  qed
qed

end
