(* ===== verification/Node_Runs.thy ===== *)
theory Node_Runs
  imports Shared_State
begin

text \<open>
  Runs of one timeline on a safekeeper node: messages of proposers in any order, peer
  information, term bumps, membership switches, failing file system calls, and restarts from
  whatever a crash left of the directory. Over all runs votes are unique per term, commit
  positions are flushed, and the persistent state never goes back.
\<close>

section \<open>Steps and runs\<close>

datatype node_event =
    Message ProposerAcceptorMessage "AcceptorProposerMessage option res"
  | PeerInfo SafekeeperTimelineInfo
  | TermBump "Term option"
  | Switch Configuration
  | CloseWal
  | Restart

text \<open>
  Messages are those of a proposer that streams from a nonzero position and stays below the end of
  the address space (\<open>msg_ok\<close>). Eviction to remote storage and back is not a step.
\<close>

inductive node_step :: "codec \<Rightarrow> wal_env \<Rightarrow> StateSK \<Rightarrow> node_event \<Rightarrow> StateSK \<Rightarrow> bool" for K E where
  step_message: "msg_ok msg \<Longrightarrow> ssk_process_msg K E msg s = (r, s') \<Longrightarrow> node_step K E s (Message msg r) s'"
| step_peer: "ssk_record_safekeeper_info K E info s = (r, s') \<Longrightarrow> node_step K E s (PeerInfo info) s'"
| step_bump: "ssk_term_bump K to s = (r, s') \<Longrightarrow> node_step K E s (TermBump to) s'"
| step_switch: "ssk_membership_switch K to s = (r, s') \<Longrightarrow> node_step K E s (Switch to) s'"
| step_close: "node_step K E s CloseWal (close_wal_store s)"
| step_restart: "ssk_state s = Inr ts \<Longrightarrow> reboot_of (timeline_dir (pers ts)) cdir \<Longrightarrow>
    shared_restore K E now False my_id cdir wdir = Inr s' \<Longrightarrow> node_step K E s Restart s'"

inductive node_run :: "codec \<Rightarrow> wal_env \<Rightarrow> StateSK \<Rightarrow> node_event list \<Rightarrow> StateSK \<Rightarrow> bool" for K E where
  run_nil: "node_run K E s [] s"
| run_step: "node_run K E s evs s1 \<Longrightarrow> node_step K E s1 ev s2 \<Longrightarrow> node_run K E s (evs @ [ev]) s2"

inductive_cases node_stepE: "node_step K E s ev s'"
inductive_simps node_step_message [simp]: "node_step K E s (Message msg r) s'"

text \<open>The terms in which the node gave its vote, in order.\<close>

fun vote_of :: "node_event \<Rightarrow> Term list" where
  "vote_of (Message (PVoteRequest v) (Inr (Some (AVoteResponse r)))) = (if vr_vote_given r then [vq_term v] else [])"
| "vote_of _ = []"

definition votes :: "node_event list \<Rightarrow> Term list" where
  "votes evs = concat (map vote_of evs)"

abbreviation ssk_term :: "StateSK \<Rightarrow> Term" where
  "ssk_term s \<equiv> acc_term (acceptor_state (ssk_pers s))"

section \<open>Every step keeps the invariant\<close>

lemma wp_ssk_membership_switch:
  assumes "ssk_ok K E s"
  shows "wp (ssk_membership_switch K to) (\<lambda>_. ssk_good K E s) (\<lambda>_. ssk_good K E s) s"
  unfolding ssk_membership_switch_def wp_bindE
  by (rule wp_mono [OF wp_on_state_mut [OF wp_ts_membership_switch assms]])
    (auto simp: wp_simps split: sum.splits)

lemma wp_ssk_term_bump:
  assumes "ssk_ok K E s"
  shows "wp (ssk_term_bump K to) (\<lambda>_. ssk_good K E s) (\<lambda>_. ssk_good K E s) s"
  unfolding ssk_term_bump_def by (rule wp_on_state_mut [OF wp_ts_term_bump assms])

lemma close_wal_store_good:
  assumes "ssk_ok K E s"
  shows "ssk_good K E s (close_wal_store s)"
proof (cases s)
  case (SkLoaded sk)
  define w where "w = snd (storage_close (wal_store sk))"
  have same: "same_lsns (wal_store sk) w"
    unfolding w_def by (rule keeps_snd [OF keeps_whole_ops(2)]) simp
  have "snd (on_wal storage_close sk) = sk\<lparr>wal_store := w\<rparr>"
    by (simp add: on_wal_def zoomE_def w_def split: prod.split)
  moreover have "flush_record_lsn w = flush_record_lsn (wal_store sk)"
    using same_lsns_fields [OF same] by simp
  ultimately show ?thesis
    using assms SkLoaded ps_inv_same [OF same]
    by (simp add: close_wal_store_def ssk_good_def ssk_ok_def sk_ok_def sk_flush_lsn_def physical_ops_def)
qed (use assms in \<open>simp_all add: close_wal_store_def ssk_good_def\<close>)

lemma ssk_state_durable:
  "ssk_ok K E s \<Longrightarrow> ssk_state s = Inr ts \<Longrightarrow> file_durable K (pers ts) \<and> state (pers ts) = ssk_pers s"
  by (cases s) (auto simp: ssk_ok_def sk_ok_def ts_ok_def)

lemma node_step_good:
  assumes "node_step K E s ev s'" and ok: "ssk_ok K E s"
  shows "ssk_good K E s s'"
  using assms(1)
proof cases
  case (step_message msg r)
  then show ?thesis using wp_sndD [OF wp_ssk_process_msg [OF ok]] by blast
next
  case (step_restart ts cdir now my_id wdir)
  then show ?thesis
    using ssk_state_durable [OF ok] shared_restore_ok [OF ok] by blast
qed (use ok in \<open>auto dest: wp_sndD [OF wp_ssk_record_info [OF ok]] wp_sndD [OF wp_ssk_term_bump [OF ok]]
      wp_sndD [OF wp_ssk_membership_switch [OF ok]] intro: close_wal_store_good\<close>)

lemma node_run_good: "node_run K E s evs s' \<Longrightarrow> ssk_ok K E s \<Longrightarrow> ssk_good K E s s'"
proof (induction rule: node_run.induct)
  case (run_step s evs s1 ev s2)
  then have "ssk_good K E s s1" by simp
  moreover from this have "ssk_good K E s1 s2"
    using run_step node_step_good by (simp add: ssk_good_def)
  ultimately show ?case by (rule ssk_good_trans)
qed (simp add: ssk_good_def)

lemma node_step_vote:
  assumes st: "node_step K E s ev s'" and ok: "ssk_ok K E s" and t: "t \<in> set (vote_of ev)"
  shows "ssk_term s < t \<and> t = ssk_term s' \<and> vote_of ev = [t]"
proof -
  obtain v r where ev: "ev = Message (PVoteRequest v) (Inr (Some (AVoteResponse r)))"
    and g: "vr_vote_given r" "t = vq_term v" "vote_of ev = [t]"
    using t by (cases ev rule: vote_of.cases) (auto split: if_splits)
  obtain sk sk' where sk: "s = SkLoaded sk" "s' = SkLoaded sk'"
    "handle_vote_request (file_ctrl_ops K) (physical_ops E) v sk = (Inr (Some (AVoteResponse r)), sk')"
    using st unfolding ev by (cases s) (auto simp: ssk_process_msg_def split: prod.splits)
  have "sk_ok (file_ctrl_ops K) (file_durable K) (physical_ops E) ps_inv sk"
    using ok sk by (simp add: ssk_ok_def)
  from wp_runD [OF node.wp_handle_vote_request [OF this] sk(3)] show ?thesis
    using g sk by (auto simp: max_def)
qed

lemma node_run_votes:
  assumes "node_run K E s evs s'" and "ssk_ok K E s"
  shows "sorted_wrt (<) (votes evs) \<and> (\<forall>t \<in> set (votes evs). ssk_term s < t \<and> t \<le> ssk_term s')"
  using assms
proof (induction rule: node_run.induct)
  case (run_step s evs s1 ev s2)
  have ok1: "ssk_ok K E s1" and le1: "ssk_term s \<le> ssk_term s1"
    using node_run_good [OF run_step.hyps(1) run_step.prems] by (simp_all add: ssk_good_def state_le_def)
  have le2: "ssk_term s1 \<le> ssk_term s2"
    using node_step_good [OF run_step.hyps(2) ok1] by (simp add: ssk_good_def state_le_def)
  have v: "votes (evs @ [ev]) = votes evs @ vote_of ev" by (simp add: votes_def)
  show ?case
  proof (cases "vote_of ev")
    case Nil
    then show ?thesis using run_step.IH [OF run_step.prems] le2 v by (auto intro: order_trans)
  next
    case (Cons t ts)
    then have "ssk_term s1 < t \<and> t = ssk_term s2 \<and> vote_of ev = [t]"
      using node_step_vote [OF run_step.hyps(2) ok1, of t] by auto
    then show ?thesis
      using run_step.IH [OF run_step.prems] le1 v
      by (auto simp: sorted_wrt_append intro: le_less_trans less_imp_le)
  qed
qed (simp add: votes_def)

section \<open>A sample node\<close>

definition node_wal :: PhysicalStorage where
  "node_wal =
     \<lparr>ps_timeline_dir = \<lparr>fs_cur = [], fs_prev = [], fs_next = 0, fs_io = []\<rparr>, ps_no_sync = False,
      ps_wal_seg_size = wal_seg, ps_pg_version = 170000, ps_system_id = 7,
      write_lsn = 0x16B9200, write_record_lsn = 0x16B9200, flush_lsn = 0x16B9200,
      flush_record_lsn = 0x16B9200, decoder = decoder_new 0x16B9200 PG17, wal_file = None,
      pending_wal_truncation = True\<rparr>"

definition sample_node :: "Term \<Rightarrow> nat \<Rightarrow> node" where
  "sample_node t n =
     \<lparr>term_start_lsn = 0, sk_state = \<lparr>inmem = mem_of sample_state, pers = node_control t n\<rparr>,
      wal_store = node_wal, sk_node_id = 1\<rparr>"

lemma sample_node_ok: "ssk_ok node_codec sample_env (SkLoaded (sample_node t n))"
proof -
  have "file_durable node_codec (node_control t n)"
    by (simp add: file_durable_def node_codec_roundtrips cf_inv_def node_control_def good_main_def fs_file_def
        node_parse)
  moreover have "ps_inv node_wal"
    by (simp add: ps_inv_def node_wal_def dec_wf_def dec_pos_def fed_pos_def decoder_new_def)
  ultimately show ?thesis
    by (simp add: ssk_ok_def sk_ok_def sample_node_def mem_of_def node_wal_def node_control_def
        sk_flush_lsn_def physical_ops_def node_state_def sample_state_def WAL_SEGMENT_SIZE_def le_max_iff_disj)
qed

definition sample_vote :: "Term \<Rightarrow> Term \<Rightarrow> VoteResponse" where
  "sample_vote t u =
     \<lparr>vr_generation = 42, vr_term = max t u, vr_vote_given = (t < u), vr_flush_lsn = 0x16B9200,
      vr_truncate_lsn = 0x16B9188, vr_term_history = [\<lparr>tl_term = 1, tl_lsn = 0x16B9188\<rparr>]\<rparr>"

lemma sample_adopt:
  assumes "t \<noteq> u"
  shows "adopt_term (file_ctrl_ops node_codec) u (sample_node t n) = (Inr (), sample_node u (Suc n))"
proof -
  have start: "with_term u (start_change (file_ctrl_ops node_codec) \<lparr>inmem = mem_of sample_state, pers = node_control t n\<rparr>) =
      node_state u"
    by (simp add: start_change_def file_ctrl_ops_def node_control_def with_term_def node_state_def mem_of_def Let_def)
  have "node_state u \<noteq> node_state t"
    using assms by (auto simp: node_state_def dest: arg_cong [where f = "\<lambda>s. acc_term (acceptor_state s)"])
  moreover have "state (node_control t n) = node_state t" by (simp add: node_control_def)
  moreover have "ctrl_state (file_ctrl_ops node_codec) = state"
    "ctrl_persist (file_ctrl_ops node_codec) = persist node_codec" by (simp_all add: file_ctrl_ops_def)
  ultimately show ?thesis
    by (simp add: adopt_term_def on_state_def zoomE_def bindE_def getE_def start sample_node_def finish_change_def
        thenE_def modifyE_def node_persist pers_update_def ts_deref_def)
      (simp add: node_state_def mem_of_def)
qed

lemma sample_node_votes:
  "ssk_process_msg node_codec sample_env (PVoteRequest \<lparr>vq_generation = 42, vq_term = u\<rparr>)
       (SkLoaded (sample_node t n)) =
     (Inr (Some (AVoteResponse (sample_vote t u))),
      SkLoaded (if t < u then sample_node u (Suc n) else sample_node t n))"
proof -
  have st: "state (pers (sk_state (sample_node t n))) = node_state t"
    "inmem (sk_state (sample_node t n)) = mem_of sample_state" "wal_store (sample_node t n) = node_wal" for t n
    by (simp_all add: sample_node_def node_control_def)
  have fl: "on_wal flush_wal (sample_node t n) = (Inr (), sample_node t n)"
    by (simp add: on_wal_def zoomE_def flush_wal_def bindE_def getE_def retE_def sample_node_def node_wal_def)
  show ?thesis
    using sample_adopt [of t u n]
    by (simp add: ssk_process_msg_def handle_vote_request_def bindE_def thenE_def getE_def guardE_def retE_def
        physical_ops_def fl st sk_flush_lsn_def get_term_history_def)
      (auto simp: sample_vote_def node_state_def sample_state_def mem_of_def node_wal_def max_def)
qed

lemma sample_restore:
  "shared_restore node_codec sample_env 0 False 1 (timeline_dir (node_control t n)) (ps_timeline_dir node_wal) =
     Inr (SkLoaded (sample_node t n))"
proof -
  have f: "find_end_of_wal sample_env PG17 wal_seg 0x16B9200 (ps_timeline_dir node_wal) =
      (Inr 0x16B9200, ps_timeline_dir node_wal)"
    by (simp add: find_end_of_wal_def node_wal_def thenE_def bindE_def guardE_def find_end_step_def open_wal_segment_def
      fs_open_def io_step_def fs_file_def retE_def failE_def)
  have r: "restore_new node_codec 0 False (timeline_dir (node_control t n)) =
      (Inr (node_control t n), timeline_dir (node_control t n))"
    by (simp add: restore_new_def bindE_def load_control_file_from_dir_def load_control_file_def fs_open_def
        io_step_def thenE_def fs_nop_def io_effect_def node_parse getE_def node_control_def fs_file_def)
  have st: "state (node_control t n) = node_state t"
    by (simp add: node_control_def)
  have m: "major_version 170000 = Inr PG17" by code_simp
  have w: "storage_new sample_env (node_state t) False (ps_timeline_dir node_wal) = (Inr node_wal, ps_timeline_dir node_wal)"
    using f by (simp add: storage_new_def node_state_def sample_state_def bindE_def thenE_def guardE_def
        liftR_def getE_def m Let_def retE_def) (simp add: node_wal_def)
  have ev: "eviction_state (node_state t) = Present" "wal_seg_size (server (node_state t)) \<noteq> 0"
    "tenant_id (node_state t) \<noteq> replicate 16 0" "timeline_id (node_state t) \<noteq> replicate 16 0"
    "mem_of (node_state t) = mem_of sample_state"
    by (simp_all add: node_state_def sample_state_def mem_of_def)
  show ?thesis
    by (simp add: shared_restore_def r st w ev bind_res_def map_res_def sk_new_def timeline_state_new_def
        file_ctrl_ops_def ts_deref_def sample_node_def)
qed

lemma sample_run:
  "node_run node_codec sample_env (SkLoaded (sample_node 3 0))
     [Message (PVoteRequest \<lparr>vq_generation = 42, vq_term = 4\<rparr>) (Inr (Some (AVoteResponse (sample_vote 3 4)))),
      Restart,
      Message (PVoteRequest \<lparr>vq_generation = 42, vq_term = 4\<rparr>) (Inr (Some (AVoteResponse (sample_vote 4 4))))]
     (SkLoaded (sample_node 4 1))"
  (is "node_run _ _ _ [?a, ?b, ?c] _")
proof -
  have a: "node_step node_codec sample_env (SkLoaded (sample_node 3 0)) ?a (SkLoaded (sample_node 4 1))"
    by (simp add: sample_node_votes)
  have c: "node_step node_codec sample_env (SkLoaded (sample_node 4 1)) ?c (SkLoaded (sample_node 4 1))"
    by (simp add: sample_node_votes)
  have "reboot_of (timeline_dir (node_control 4 1)) (timeline_dir (node_control 4 1))"
    by (simp add: reboot_of_def crash_of_def node_control_def fs_file_def survives_def)
  then have b: "node_step node_codec sample_env (SkLoaded (sample_node 4 1)) ?b (SkLoaded (sample_node 4 1))"
    by (intro step_restart [where ts = "sk_state (sample_node 4 1)", OF _ _ sample_restore])
      (simp_all add: sample_node_def)
  show ?thesis
    using run_step [OF run_step [OF run_step [OF run_nil a] b] c] by simp
qed

section \<open>Properties\<close>

text \<open>C2: Over every run of a node, with failing file system calls, crashes and restarts, the node
  gives at most one vote per term: the terms of its votes are strictly increasing, above the term
  it started with and not above the term it ends with.\<close>

theorem votes_unique:
  assumes "ssk_ok K E s" and "node_run K E s evs s'"
  shows "sorted_wrt (<) (votes evs) \<and> (\<forall>t \<in> set (votes evs). ssk_term s < t \<and> t \<le> ssk_term s')"
  by (rule node_run_votes [OF assms(2,1)])

theorem votes_unique_witness:
  "node_run node_codec sample_env (SkLoaded (sample_node 3 0))
     [Message (PVoteRequest \<lparr>vq_generation = 42, vq_term = 4\<rparr>) (Inr (Some (AVoteResponse (sample_vote 3 4)))),
      Restart,
      Message (PVoteRequest \<lparr>vq_generation = 42, vq_term = 4\<rparr>) (Inr (Some (AVoteResponse (sample_vote 4 4))))]
     (SkLoaded (sample_node 4 1)) \<and>
   sorted_wrt (<) (votes
     [Message (PVoteRequest \<lparr>vq_generation = 42, vq_term = 4\<rparr>) (Inr (Some (AVoteResponse (sample_vote 3 4)))),
      Restart,
      Message (PVoteRequest \<lparr>vq_generation = 42, vq_term = 4\<rparr>) (Inr (Some (AVoteResponse (sample_vote 4 4))))])"
  using sample_run votes_unique [OF sample_node_ok sample_run] by blast

text \<open>C3: Over every run, the commit position of a loaded node never exceeds what its WAL storage
  has flushed (or the timeline's start), what is persisted never exceeds it, and the persisted
  term, commit position and membership generation never go back, restarts included.\<close>

theorem commit_flushed:
  assumes "ssk_ok K E s" and "node_run K E s evs s'"
  shows "ssk_term s \<le> ssk_term s' \<and> commit_lsn (ssk_pers s) \<le> commit_lsn (ssk_pers s') \<and>
     generation (mconf (ssk_pers s)) \<le> generation (mconf (ssk_pers s')) \<and>
     (case s' of
        SkLoaded sk \<Rightarrow>
          commit_lsn (ssk_pers s') \<le> mem_commit_lsn (inmem (sk_state sk)) \<and>
          mem_commit_lsn (inmem (sk_state sk)) \<le>
            max (flush_record_lsn (wal_store sk)) (timeline_start_lsn (ssk_pers s')) \<and>
          flush_record_lsn (wal_store sk) \<le> write_record_lsn (wal_store sk)
      | SkOffloaded ts \<Rightarrow> commit_lsn (ssk_pers s') \<le> mem_commit_lsn (inmem ts)
      | SkEmpty \<Rightarrow> False)"
  using node_run_good [OF assms(2,1)]
  by (cases s') (auto simp: ssk_good_def ssk_ok_def state_le_def sk_ok_def ts_ok_def ps_inv_def
      sk_flush_lsn_def physical_ops_def)

theorem commit_flushed_witness:
  "ssk_term (SkLoaded (sample_node 3 0)) = 3 \<and> ssk_term (SkLoaded (sample_node 4 1)) = 4 \<and>
   commit_lsn (ssk_pers (SkLoaded (sample_node 3 0))) \<le> commit_lsn (ssk_pers (SkLoaded (sample_node 4 1))) \<and>
   commit_lsn (ssk_pers (SkLoaded (sample_node 4 1))) \<le> mem_commit_lsn (inmem (sk_state (sample_node 4 1))) \<and>
   mem_commit_lsn (inmem (sk_state (sample_node 4 1))) = 0x16B9200 \<and>
   mem_commit_lsn (inmem (sk_state (sample_node 4 1))) \<le>
     max (flush_record_lsn (wal_store (sample_node 4 1))) (timeline_start_lsn (ssk_pers (SkLoaded (sample_node 4 1))))"
  using commit_flushed [OF sample_node_ok sample_run]
  by (simp add: sample_node_def node_control_def node_state_def mem_of_def sample_state_def)

text \<open>C4: Whatever happened to a node, if it crashes then reading the control file afterwards
  succeeds (when the reads themselves do not fail) and returns a state that has not gone back
  behind any term, commit position or membership generation the node ever held.\<close>

theorem crash_recovers:
  assumes "ssk_ok K E s" and "node_run K E s evs s'" and "ssk_state s' = Inr ts"
    and "crash_of (timeline_dir (pers ts)) d" and "fs_io d = []"
  shows "\<exists>st. load_control_file_from_dir K d = (Inr st, d) \<and> state_le (ssk_pers s') st \<and> state_le (ssk_pers s) st"
proof -
  have g: "ssk_good K E s s'" by (rule node_run_good [OF assms(2,1)])
  then have "file_durable K (pers ts) \<and> state (pers ts) = ssk_pers s'"
    using ssk_state_durable [OF _ assms(3), of K E] by (simp add: ssk_good_def)
  then have "cf_inv K {v. state_le (ssk_pers s') v} (timeline_dir (pers ts))"
    by (auto simp: file_durable_def)
  from load_after_crash [OF this assms(4,5)] show ?thesis
    using g by (auto simp: ssk_good_def intro: state_le_trans)
qed

theorem crash_recovers_witness:
  "\<exists>st. load_control_file_from_dir node_codec (timeline_dir (node_control 4 1)) =
     (Inr st, timeline_dir (node_control 4 1)) \<and>
   state_le (ssk_pers (SkLoaded (sample_node 4 1))) st \<and> state_le (ssk_pers (SkLoaded (sample_node 3 0))) st"
proof (rule crash_recovers [OF sample_node_ok sample_run])
  show "crash_of (timeline_dir (pers (sk_state (sample_node 4 1)))) (timeline_dir (node_control 4 1))"
    by (simp add: sample_node_def crash_of_def node_control_def fs_file_def survives_def)
qed (simp_all add: node_control_def)

end
