(* ===== verification/Election.thy ===== *)
theory Election
  imports Proposer_Quorum Node_Runs
begin

text \<open>
  Runs of a WAL proposer, the invariant that an elected proposer holds granted votes of a majority
  of its members, and the composition with the runs of safekeeper nodes: two proposers of the same
  membership are never elected in the same term.
\<close>

section \<open>Runs of a proposer\<close>

text \<open>
  What happens to a proposer: it is started, a connection delivers a message, the callbacks change
  what they will answer, the wait returns, and new WAL is announced.
\<close>

datatype wp_event =
    Start
  | Deliver nat bytes
  | Replies "wp_reply list"
  | Poll int wait_result
  | NewWal lsn lsn

fun wp_event_ok :: "c_WalProposer \<Rightarrow> wp_event \<Rightarrow> bool" where
  "wp_event_ok w (Deliver i b) \<longleftrightarrow> i < length (wp_safekeeper w)"
| "wp_event_ok w (Poll t (WaitSocket i ev)) \<longleftrightarrow> i < length (wp_safekeeper w)"
| "wp_event_ok w _ \<longleftrightarrow> True"

fun wp_exec :: "wp_config \<Rightarrow> wp_event \<Rightarrow> unit wp" where
  "wp_exec A Start = WalProposerStart"
| "wp_exec A (Deliver i b) = upd_sk i (\<lambda>s. if cs_state s = SS_OFFLINE then s else s\<lparr>cs_inbox := cs_inbox s @ [b]\<rparr>)"
| "wp_exec A (Replies rs) = modifyE (\<lambda>w. w\<lparr>wp_replies := rs\<rparr>)"
| "wp_exec A (Poll t r) = thenE (WalProposerPoll A [(t, r)]) (retE ())"
| "wp_exec A (NewWal s e) = WalProposerBroadcast A s e"

text \<open>A proposer whose operation ended with an error is dead.\<close>

inductive wp_run :: "wp_config \<Rightarrow> c_WalProposer \<Rightarrow> wp_event list \<Rightarrow> bool \<Rightarrow> c_WalProposer \<Rightarrow> bool" for A w0 where
  wp_run_nil: "wp_run A w0 [] True w0"
| wp_run_step: "wp_run A w0 evs True w \<Longrightarrow> wp_event_ok w ev \<Longrightarrow> wp_exec A ev w = (r, w') \<Longrightarrow>
    wp_run A w0 (evs @ [ev]) (\<not> isl r) w'"

context still_frame
begin

lemma frame_take_vote [keeps_intros]: "keeps P (take_vote i)"
  unfolding take_vote_def Let_def by (intro keeps_intros still_modify; simp add: still_def same_core_def)

lemma frame_count_votes [keeps_intros]: "keeps P (count_votes ps n)"
proof (induction ps arbitrary: n)
  case (Cons p ps)
  show ?case unfolding count_votes.simps by (intro keeps_intros Cons)
qed (simp add: keeps_intros)

lemma frame_count_ready [keeps_intros]: "keeps P (count_ready is n)"
proof (induction "is" arbitrary: n)
  case (Cons i "is")
  show ?case unfolding count_ready.simps by (intro keeps_intros Cons)
qed (simp add: keeps_intros)

lemma frame_VotesCollected [keeps_intros]: "keeps P VotesCollected"
  unfolding VotesCollected_def VotesCollectedMset_def Let_def
  by (intro keeps_intros still_modify) (simp add: still_def same_core_def)

end

context quiet_frame
begin

lemma frame_poll_tail [keeps_intros]: "keeps P (poll_tail A r)"
  unfolding poll_tail_def by (intro keeps_intros)

end

section \<open>The election invariant\<close>

text \<open>A message that the proposer reads as a granted vote for a term.\<close>

definition grants :: "wp_config \<Rightarrow> Term \<Rightarrow> bytes \<Rightarrow> bool" where
  "grants A t b \<longleftrightarrow> (\<exists>old v. fst (AsyncReadMessage (wpc_proto_version A) (CAVoteResponse old) b) = Inr (Some (CAVoteResponse v)) \<and>
     cvr_voteGiven v \<noteq> 0 \<and> cvr_term v = t)"

definition granted :: "wp_config \<Rightarrow> wp_event list \<Rightarrow> Term \<Rightarrow> nat \<Rightarrow> bool" where
  "granted A evs t i \<longleftrightarrow> (\<exists>b. Deliver i b \<in> set evs \<and> grants A t b)"

abbreviation ids :: "SafekeeperId list \<Rightarrow> NodeId list" where
  "ids ms \<equiv> map sk_id ms"

text \<open>
  Each endpoint is one node, which introduces itself with its identity, and membership
  configurations list a node once.
\<close>

definition one_node_per_slot :: "wp_config \<Rightarrow> (nat \<Rightarrow> NodeId) \<Rightarrow> wp_event \<Rightarrow> bool" where
  "one_node_per_slot A ident ev \<longleftrightarrow> (\<forall>i b old g. ev = Deliver i b \<longrightarrow>
     fst (AsyncReadMessage (wpc_proto_version A) (CAGreeting old) b) = Inr (Some (CAGreeting g)) \<longrightarrow>
     cag_nodeId g = ident i \<and> distinct (ids (cm_members (cag_mconf g))) \<and> distinct (ids (cm_new_members (cag_mconf g))))"

definition slot_inv :: "wp_config \<Rightarrow> (nat \<Rightarrow> NodeId) \<Rightarrow> wp_event list \<Rightarrow> WalProposerState \<Rightarrow> Term \<Rightarrow> nat \<Rightarrow> c_Safekeeper \<Rightarrow> bool" where
  "slot_inv A ident evs st t i s \<longleftrightarrow>
     (\<forall>b \<in> set (cs_inbox s). Deliver i b \<in> set evs) \<and>
     (cs_state s = SS_WAIT_VOTING \<longrightarrow> cag_nodeId (cs_greetResponse s) = ident i) \<and>
     (st = WPS_COLLECTING_TERMS \<longrightarrow> cs_state s \<le> SS_WAIT_VOTING) \<and>
     (st = WPS_CAMPAIGN \<and> cs_state s = SS_WAIT_ELECTED \<longrightarrow> granted A evs t i)"

definition ptrs_inv :: "(nat \<Rightarrow> NodeId) \<Rightarrow> nat \<Rightarrow> SafekeeperId list \<Rightarrow> nat option list \<Rightarrow> bool" where
  "ptrs_inv ident n ms ptrs \<longleftrightarrow> distinct (ids ms) \<and>
     (\<forall>k i. k < length ms \<longrightarrow> k < length ptrs \<longrightarrow> ptrs ! k = Some i \<longrightarrow> i < n \<and> ident i = sk_id (ms ! k))"

text \<open>Granted votes of a majority of a set of members.\<close>

definition majority :: "wp_config \<Rightarrow> (nat \<Rightarrow> NodeId) \<Rightarrow> wp_event list \<Rightarrow> Term \<Rightarrow> SafekeeperId list \<Rightarrow> bool" where
  "majority A ident evs t ms \<longleftrightarrow> (\<exists>V. V \<subseteq> set (ids ms) \<and> MsetHasQuorum (length ms) (card V) \<and>
     (\<forall>n \<in> V. \<exists>i. ident i = n \<and> granted A evs t i))"

definition won :: "wp_config \<Rightarrow> (nat \<Rightarrow> NodeId) \<Rightarrow> wp_event list \<Rightarrow> c_WalProposer \<Rightarrow> bool" where
  "won A ident evs w \<longleftrightarrow> no_generations w \<or>
     majority A ident evs (wp_propTerm w) (cm_members (wp_mconf w)) \<and>
     (cm_new_members (wp_mconf w) \<noteq> [] \<longrightarrow> majority A ident evs (wp_propTerm w) (cm_new_members (wp_mconf w)))"

definition elect_inv :: "wp_config \<Rightarrow> (nat \<Rightarrow> NodeId) \<Rightarrow> wp_event list \<Rightarrow> c_WalProposer \<Rightarrow> bool" where
  "elect_inv A ident evs w \<longleftrightarrow>
     (\<forall>i < length (wp_safekeeper w). slot_inv A ident evs (wp_state w) (wp_propTerm w) i (sk_at w i)) \<and>
     ptrs_inv ident (length (wp_safekeeper w)) (cm_members (wp_mconf w)) (wp_members_safekeepers w) \<and>
     ptrs_inv ident (length (wp_safekeeper w)) (cm_new_members (wp_mconf w)) (wp_new_members_safekeepers w) \<and>
     (wp_state w = WPS_ELECTED \<longrightarrow> won A ident evs w)"

definition campaign_inv :: "wp_config \<Rightarrow> (nat \<Rightarrow> NodeId) \<Rightarrow> wp_event list \<Rightarrow> c_WalProposer \<Rightarrow> bool" where
  "campaign_inv A ident evs w \<longleftrightarrow> elect_inv A ident evs w \<and> wp_state w \<noteq> WPS_COLLECTING_TERMS"

lemma won_core: "same_core w w' \<Longrightarrow> won A ident evs w' = won A ident evs w"
  by (simp add: won_def same_core_def no_generations_def WalProposerGenerationsEnabled_def)

lemma elect_inv_core: "elect_inv A ident evs w \<Longrightarrow> same_core w w' \<Longrightarrow> elect_inv A ident evs w'"
  using won_core [of w w' A ident evs] by (simp add: elect_inv_def same_core_def)

lemma elect_inv_slot:
  assumes "elect_inv A ident evs w"
    and "i < length (wp_safekeeper w) \<Longrightarrow> slot_inv A ident evs (wp_state w) (wp_propTerm w) i s"
  shows "elect_inv A ident evs (w\<lparr>wp_safekeeper := (wp_safekeeper w)[i := s]\<rparr>)"
proof -
  have "slot_inv A ident evs (wp_state w) (wp_propTerm w) j ((wp_safekeeper w)[i := s] ! j)" if "j < length (wp_safekeeper w)" for j
    using assms that by (cases "i = j") (auto simp: elect_inv_def)
  then show ?thesis
    using assms(1) by (simp add: elect_inv_def won_def no_generations_def WalProposerGenerationsEnabled_def)
qed

lemma slot_inv_quiet: "slot_inv A ident evs st t i s \<Longrightarrow> slot_quiet s s' \<Longrightarrow> slot_inv A ident evs st t i s'"
  by (cases "cs_state s'") (auto simp: slot_inv_def slot_defs)

lemma slot_inv_active:
  "slot_inv A ident evs st t i s \<Longrightarrow> st \<noteq> WPS_COLLECTING_TERMS \<Longrightarrow> slot_active s s' \<Longrightarrow> slot_inv A ident evs st t i s'"
  by (auto simp: slot_inv_def slot_defs)

lemma elect_inv_nth: "elect_inv A ident evs w \<Longrightarrow> i < length (wp_safekeeper w) \<Longrightarrow>
    slot_inv A ident evs (wp_state w) (wp_propTerm w) i (sk_at w i)"
  by (simp add: elect_inv_def)

interpretation elect: quiet_frame "elect_inv A ident evs" for A ident evs
  by unfold_locales (fact elect_inv_core, blast intro: elect_inv_slot slot_inv_quiet elect_inv_nth)

interpretation campaign: active_frame "campaign_inv A ident evs" for A ident evs
proof unfold_locales
  show "campaign_inv A ident evs w \<Longrightarrow> same_core w w' \<Longrightarrow> campaign_inv A ident evs w'" for w w'
    using elect_inv_core by (auto simp: campaign_inv_def same_core_def)
qed (auto simp: campaign_inv_def intro: elect_inv_slot slot_inv_quiet slot_inv_active elect_inv_nth)


section \<open>Counting votes\<close>

lemma majority_of_elected:
  assumes inv: "\<forall>i < length (wp_safekeeper w). slot_inv A ident evs WPS_CAMPAIGN t i (sk_at w i)"
    and p: "ptrs_inv ident (length (wp_safekeeper w)) ms ptrs" and q: "mset_elected w ms ptrs"
  shows "majority A ident evs t ms"
proof -
  define K where "K = {k. k < length (take (length ms) ptrs) \<and> elected_slot w (take (length ms) ptrs ! k)}"
  have K: "k < length ms \<and> k < length ptrs \<and> elected_slot w (ptrs ! k)" if "k \<in> K" for k
    using that by (auto simp: K_def)
  have "inj_on (\<lambda>k. sk_id (ms ! k)) K"
  proof (rule inj_onI)
    fix a b assume "a \<in> K" "b \<in> K" "sk_id (ms ! a) = sk_id (ms ! b)"
    then show "a = b" using p K nth_eq_iff_index_eq [of "ids ms" a b] by (simp add: ptrs_inv_def)
  qed
  then have "card ((\<lambda>k. sk_id (ms ! k)) ` K) = length (filter (elected_slot w) (take (length ms) ptrs))"
    unfolding length_filter_conv_card K_def by (rule card_image)
  moreover have "\<exists>i. ident i = sk_id (ms ! k) \<and> granted A evs t i" if k: "k \<in> K" for k
  proof -
    obtain i where i: "ptrs ! k = Some i" "cs_state (sk_at w i) = SS_WAIT_ELECTED"
      using K [OF k] by (auto simp: elected_slot_def split: option.splits)
    have "i < length (wp_safekeeper w)" "ident i = sk_id (ms ! k)" using p K [OF k] i(1) by (auto simp: ptrs_inv_def)
    then show ?thesis using inv i(2) by (auto simp: slot_inv_def)
  qed
  moreover have "(\<lambda>k. sk_id (ms ! k)) ` K \<subseteq> set (ids ms)" using K by auto
  ultimately show ?thesis
    using q unfolding majority_def mset_elected_def member_slots_def by (intro exI [of _ "(\<lambda>k. sk_id (ms ! k)) ` K"]) auto
qed

lemma elect_inv_win:
  assumes "elect_inv A ident evs w" and "wp_state w = WPS_CAMPAIGN" and "quorum_elected w"
  shows "campaign_inv A ident evs (w\<lparr>wp_state := WPS_ELECTED\<rparr>)"
proof -
  have "won A ident evs w"
    using assms majority_of_elected [of w A ident evs "wp_propTerm w"]
    unfolding won_def quorum_elected_def elect_inv_def by auto
  moreover have "slot_inv A ident evs WPS_ELECTED (wp_propTerm w) i (sk_at w i)" if "i < length (wp_safekeeper w)" for i
    using assms(1) that by (simp add: elect_inv_def slot_inv_def)
  ultimately show ?thesis
    using assms(1) by (simp add: campaign_inv_def elect_inv_def won_def no_generations_def WalProposerGenerationsEnabled_def)
qed

section \<open>Reading a message\<close>

lemma wp_read_message:
  assumes "keeps P (read_message A i f)" and "P w" and "i < length (wp_safekeeper w)"
    and inv: "\<forall>b \<in> set (cs_inbox (sk_at w i)). Deliver i b \<in> set evs"
  shows "wp (read_message A i f)
     (\<lambda>mo w'. P w' \<and> (\<forall>m. mo = Some m \<longrightarrow> length (wp_safekeeper w') = length (wp_safekeeper w) \<and>
        cs_state (sk_at w' i) = cs_state (sk_at w i) \<and>
        (\<exists>b old. Deliver i b \<in> set evs \<and> fst (AsyncReadMessage (wpc_proto_version A) (f old) b) = Inr (Some m))))
     (\<lambda>_. P) w"
proof (rule wp_runI)
  fix e w' assume "read_message A i f w = (Inl e, w')"
  then show "P w'" using keeps_snd [OF assms(1,2)] by simp
next
  fix mo w' assume r: "read_message A i f w = (Inr mo, w')"
  have "P w'" using keeps_snd [OF assms(1,2)] r by simp
  moreover have "length (wp_safekeeper w') = length (wp_safekeeper w) \<and> cs_state (sk_at w' i) = cs_state (sk_at w i) \<and>
      (\<exists>b old. Deliver i b \<in> set evs \<and> fst (AsyncReadMessage (wpc_proto_version A) (f old) b) = Inr (Some m))" if "mo = Some m" for m
    using read_message_Some [OF r [unfolded that] assms(3)] inv assms(3) by auto
  ultimately show "P w' \<and> (\<forall>m. mo = Some m \<longrightarrow> length (wp_safekeeper w') = length (wp_safekeeper w) \<and>
        cs_state (sk_at w' i) = cs_state (sk_at w i) \<and>
        (\<exists>b old. Deliver i b \<in> set evs \<and> fst (AsyncReadMessage (wpc_proto_version A) (f old) b) = Inr (Some m)))" by blast
qed


section \<open>Votes\<close>

lemma wp_upd_sk [wp_simps]: "wp (upd_sk i f) Q E w = Q () (w\<lparr>wp_safekeeper := (wp_safekeeper w)[i := f (sk_at w i)]\<rparr>)"
  by (simp add: wp_def)

lemma campaign_elect: "campaign_inv A ident evs w \<Longrightarrow> elect_inv A ident evs w"
  by (simp add: campaign_inv_def)

lemma quorum_elected_core: "same_core w w' \<Longrightarrow> quorum_elected w' = quorum_elected w"
  unfolding quorum_elected_def using elected_slot_core [of w w'] mset_elected_core [of w w']
  by (simp add: same_core_def no_generations_def WalProposerGenerationsEnabled_def vote_slots_def)

lemma wp_VotesCollected:
  assumes "campaign_inv A ident evs w"
  shows "wp VotesCollected (\<lambda>c w'. campaign_inv A ident evs w' \<and> (c \<longrightarrow> wp_state w' = WPS_CAMPAIGN \<and> quorum_elected w'))
     (\<lambda>_. campaign_inv A ident evs) w"
proof (rule wp_runI)
  note k = keeps_snd [OF campaign.frame_VotesCollected assms]
  show "VotesCollected w = (Inl e, w') \<Longrightarrow> campaign_inv A ident evs w'" for e w' using k by simp
  show "campaign_inv A ident evs w' \<and> (c \<longrightarrow> wp_state w' = WPS_CAMPAIGN \<and> quorum_elected w')"
    if v: "VotesCollected w = (Inr c, w')" for c w'
  proof (cases c)
    case True
    note t = VotesCollected_tally [OF v [unfolded eqTrueI [OF True]]]
    have "same_core w w'" using t by (simp add: tally_def same_core_def vote_reset_def)
    then show ?thesis using k v t quorum_elected_core [of w w'] by (simp add: same_core_def)
  qed (use k v in simp)
qed

lemma wp_vote_received:
  assumes w: "campaign_inv A ident evs w" and i: "i < length (wp_safekeeper w)" and b: "Deliver i b \<in> set evs"
    and m: "fst (AsyncReadMessage (wpc_proto_version A) (CAVoteResponse old) b) = Inr (Some (CAVoteResponse v))"
    and g: "\<not> (cvr_voteGiven v = 0 \<and> (cvr_term v > wp_propTerm w \<or> wp_state w = WPS_CAMPAIGN))" "cvr_term v = wp_propTerm w"
  shows "wp (thenE (upd_sk i (\<lambda>s. s\<lparr>cs_state := SS_WAIT_ELECTED\<rparr>))
            (if wp_state w = WPS_CAMPAIGN then
               bindE VotesCollected (\<lambda>c. if c then thenE (modifyE (\<lambda>w. w\<lparr>wp_state := WPS_ELECTED\<rparr>)) (HandleElectedProposer A)
                 else retE ())
             else thenE (c_assert (wp_state w = WPS_ELECTED)) (SendProposerElected A i)))
     (\<lambda>_. campaign_inv A ident evs) (\<lambda>_. campaign_inv A ident evs) w"
proof -
  define w1 where "w1 = w\<lparr>wp_safekeeper := (wp_safekeeper w)[i := (sk_at w i)\<lparr>cs_state := SS_WAIT_ELECTED\<rparr>]\<rparr>"
  have "slot_inv A ident evs (wp_state w) (wp_propTerm w) i ((sk_at w i)\<lparr>cs_state := SS_WAIT_ELECTED\<rparr>)"
    using elect_inv_nth [OF campaign_elect [OF w] i] w b m g
    by (auto simp: slot_inv_def campaign_inv_def granted_def grants_def)
  then have w1: "campaign_inv A ident evs w1"
    using w elect_inv_slot unfolding w1_def campaign_inv_def by simp
  have "wp (bindE VotesCollected (\<lambda>c. if c then thenE (modifyE (\<lambda>w. w\<lparr>wp_state := WPS_ELECTED\<rparr>)) (HandleElectedProposer A)
                 else retE ())) (\<lambda>_. campaign_inv A ident evs) (\<lambda>_. campaign_inv A ident evs) w1"
    unfolding wp_bindE
    by (rule wp_mono [OF wp_VotesCollected [OF w1]])
      (auto simp: wp_simps intro!: keepsD [OF campaign.active_handle_elected] elect_inv_win campaign_elect)
  moreover have "wp (SendProposerElected A i) (\<lambda>_. campaign_inv A ident evs) (\<lambda>_. campaign_inv A ident evs) w1"
    by (rule keepsD [OF campaign.active_elected w1])
  ultimately show ?thesis using w1 by (simp add: wp_simps upd_sk_def w1_def [symmetric])
qed

lemma wp_vote_handled:
  assumes w: "campaign_inv A ident evs w" and i: "i < length (wp_safekeeper w)" and b: "Deliver i b \<in> set evs"
    and m: "fst (AsyncReadMessage (wpc_proto_version A) (CAVoteResponse old) b) = Inr (Some (CAVoteResponse v))"
  shows "wp (thenE (upd_sk i (\<lambda>s. s\<lparr>cs_voteResponse := v, cs_entries_null := False\<rparr>))
         (bindE (getE id) (\<lambda>w.
          if cvr_voteGiven v = 0 \<and> (cvr_term v > wp_propTerm w \<or> wp_state w = WPS_CAMPAIGN)
          then fatal ''WAL acceptor rejects our connection request''
          else thenE (c_assert (cvr_term v = wp_propTerm w))
            (thenE (upd_sk i (\<lambda>s. s\<lparr>cs_state := SS_WAIT_ELECTED\<rparr>))
            (if wp_state w = WPS_CAMPAIGN then
               bindE VotesCollected (\<lambda>c. if c then thenE (modifyE (\<lambda>w. w\<lparr>wp_state := WPS_ELECTED\<rparr>)) (HandleElectedProposer A)
                 else retE ())
             else thenE (c_assert (wp_state w = WPS_ELECTED)) (SendProposerElected A i))))))
     (\<lambda>_. campaign_inv A ident evs) (\<lambda>_. campaign_inv A ident evs) w"
proof -
  let ?f = "\<lambda>s. s\<lparr>cs_voteResponse := v, cs_entries_null := False\<rparr>"
  define w1 where "w1 = w\<lparr>wp_safekeeper := (wp_safekeeper w)[i := ?f (sk_at w i)]\<rparr>"
  have w1: "campaign_inv A ident evs w1" "i < length (wp_safekeeper w1)"
    using keeps_snd [OF campaign.frame_upd_sk [of ?f A ident evs i] w] i by (simp_all add: slot_defs w1_def)
  show ?thesis
    unfolding wp_thenE [of "upd_sk i ?f"] wp_upd_sk [of i ?f] w1_def [symmetric] wp_bindE [of "getE id"] wp_getE
      wp_if wp_thenE [of "c_assert c" for c] wp_guardE wp_failE
    using w1 wp_vote_received [OF w1 b m] by (cases "wp_state w1 = WPS_CAMPAIGN") simp_all
qed

lemma wp_RecvVoteResponse:
  assumes w: "elect_inv A ident evs w" and i: "i < length (wp_safekeeper w)"
  shows "wp (RecvVoteResponse A i) (\<lambda>_. elect_inv A ident evs) (\<lambda>_. elect_inv A ident evs) w"
proof (cases "wp_state w = WPS_COLLECTING_TERMS")
  case True
  then show ?thesis using w by (simp add: RecvVoteResponse_def wp_simps)
next
  case False
  then have c: "campaign_inv A ident evs w" using w by (simp add: campaign_inv_def)
  have inbox: "\<forall>b \<in> set (cs_inbox (sk_at w i)). Deliver i b \<in> set evs"
    using elect_inv_nth [OF w i] by (simp add: slot_inv_def)
  have "wp (RecvVoteResponse A i) (\<lambda>_. campaign_inv A ident evs) (\<lambda>_. campaign_inv A ident evs) w"
    unfolding RecvVoteResponse_def wp_bindE [of "getE f" for f] wp_getE wp_thenE [of "c_assert c" for c] wp_guardE if_P [OF False]
      wp_bindE [of "read_message A i f" for f]
  proof (rule wp_mono [OF wp_read_message [OF campaign.frame_read_message c i inbox]], goal_cases)
    case (1 mo w1)
    show ?case
    proof (cases "\<exists>v. mo = Some (CAVoteResponse v)")
      case True
      then obtain v b and old :: c_Safekeeper where "mo = Some (CAVoteResponse v)" "Deliver i b \<in> set evs"
        "fst (AsyncReadMessage (wpc_proto_version A) (CAVoteResponse (cs_voteResponse old)) b) = Inr (Some (CAVoteResponse v))"
        using 1 by blast
      then show ?thesis using 1 i wp_vote_handled [of A ident evs w1 i b "cs_voteResponse old" v] by simp
    qed (use 1 in \<open>auto simp: wp_retE split: option.split c_AcceptorProposerMessage.split\<close>)
  qed
  then show ?thesis by (rule wp_mono) (auto intro: campaign_elect)
qed


section \<open>Greetings\<close>

lemma map_member_nth:
  "length (map_member ms n i ptrs) = length ptrs"
  "k < length ptrs \<Longrightarrow> map_member ms n i ptrs ! k = (if k < length ms \<and> sk_id (ms ! k) = n then Some i else ptrs ! k)"
  by (simp_all add: map_member_def)

lemma ptrs_inv_map:
  "ptrs_inv ident N ms ptrs \<Longrightarrow> i < N \<Longrightarrow> ident i = n \<Longrightarrow> ptrs_inv ident N ms (map_member ms n i ptrs)"
  by (auto simp: ptrs_inv_def map_member_nth)

lemma ptrs_inv_reset: "distinct (ids ms) \<Longrightarrow> ptrs_inv ident N ms (replicate k None)"
  by (simp add: ptrs_inv_def)

definition same_slots :: "c_WalProposer \<Rightarrow> c_WalProposer \<Rightarrow> bool" where
  "same_slots w w' \<longleftrightarrow> wp_safekeeper w' = wp_safekeeper w \<and> wp_state w' = wp_state w"

lemma wp_UpdateMember:
  assumes "elect_inv A ident evs w" and "i < length (wp_safekeeper w)"
    and "SS_WAIT_VOTING \<le> cs_state (sk_at w i) \<longrightarrow> cag_nodeId (cs_greetResponse (sk_at w i)) = ident i"
  shows "wp (UpdateMemberSafekeeperPtr i) (\<lambda>_ w'. elect_inv A ident evs w' \<and> same_slots w w') (\<lambda>_. elect_inv A ident evs) w"
  using assms
  by (auto simp: UpdateMemberSafekeeperPtr_def wp_simps Let_def same_slots_def elect_inv_def won_def no_generations_def not_less
      WalProposerGenerationsEnabled_def intro!: ptrs_inv_map)

lemma same_slots_trans: "same_slots w w1 \<Longrightarrow> same_slots w1 w2 \<Longrightarrow> same_slots w w2"
  by (simp add: same_slots_def)

lemma wp_ResetMembers:
  assumes "elect_inv A ident evs (w\<lparr>wp_members_safekeepers := replicate MAX_SAFEKEEPERS None,
      wp_new_members_safekeepers := replicate MAX_SAFEKEEPERS None\<rparr>)" (is "elect_inv _ _ _ ?w")
    and "wp_state w = WPS_COLLECTING_TERMS"
  shows "wp ResetMemberSafekeeperPtrs (\<lambda>_ w'. elect_inv A ident evs w' \<and> same_slots w w') (\<lambda>_. elect_inv A ident evs) w"
  unfolding ResetMemberSafekeeperPtrs_def for_slots_def wp_thenE wp_modifyE wp_bindE wp_getE
proof (rule wp_forE, goal_cases)
  case (1 i w1)
  then have i: "i < length (wp_safekeeper w1)" and e: "elect_inv A ident evs w1" and s: "same_slots w w1" by (simp_all add: same_slots_def)
  have v: "SS_WAIT_VOTING \<le> cs_state (sk_at w1 i) \<longrightarrow> cag_nodeId (cs_greetResponse (sk_at w1 i)) = ident i"
    using elect_inv_nth [OF e i] s assms(2) by (auto simp: slot_inv_def same_slots_def)
  have "wp (UpdateMemberSafekeeperPtr i) (\<lambda>_ w'. elect_inv A ident evs w' \<and> same_slots w w') (\<lambda>_. elect_inv A ident evs) w1"
    by (rule wp_mono [OF wp_UpdateMember [OF e i v]]) (use s same_slots_trans in blast)+
  then show ?case using e s by (simp add: wp_simps)
qed (use assms in \<open>simp add: same_slots_def\<close>)

lemma wp_adopt:
  assumes e: "elect_inv A ident evs w"
    and d: "distinct (ids (cm_members mc))" "distinct (ids (cm_new_members mc))"
  shows "wp (adopt_mconf mc) (\<lambda>_ w'. elect_inv A ident evs w' \<and> same_slots w w') (\<lambda>_. elect_inv A ident evs) w"
proof -
  let ?w = "w\<lparr>wp_mconf := mc\<rparr>"
  have "wp ResetMemberSafekeeperPtrs (\<lambda>_ w'. elect_inv A ident evs w' \<and> same_slots ?w w') (\<lambda>_. elect_inv A ident evs) ?w"
    if "wp_state w = WPS_COLLECTING_TERMS"
    by (rule wp_ResetMembers) (use e d that in \<open>simp_all add: elect_inv_def ptrs_inv_reset\<close>)
  moreover have "same_slots ?w = same_slots w" by (simp add: same_slots_def fun_eq_iff)
  moreover have "same_slots w w" by (simp add: same_slots_def)
  ultimately show ?thesis using e by (auto simp: adopt_mconf_def wp_simps)
qed

text \<open>While terms are collected no slot has voted, so the term may change and the campaign may start.\<close>

lemma elect_inv_collecting:
  assumes "elect_inv A ident evs w" and "wp_state w = WPS_COLLECTING_TERMS"
  shows "elect_inv A ident evs (w\<lparr>wp_propTerm := t\<rparr>)"
    and "elect_inv A ident evs (w\<lparr>wp_state := WPS_CAMPAIGN, wp_voteRequest := v\<rparr>)"
proof -
  have "\<not> cs_state (sk_at w i) = SS_WAIT_ELECTED" if "i < length (wp_safekeeper w)" for i
    using elect_inv_nth [OF assms(1) that] assms(2) by (auto simp: slot_inv_def less_eq_SafekeeperState_def)
  then show "elect_inv A ident evs (w\<lparr>wp_state := WPS_CAMPAIGN, wp_voteRequest := v\<rparr>)"
    using assms by (simp add: elect_inv_def slot_inv_def)
  show "elect_inv A ident evs (w\<lparr>wp_propTerm := t\<rparr>)"
    using assms by (simp add: elect_inv_def slot_inv_def)
qed


lemma wp_TermsCollected:
  assumes "elect_inv A ident evs w" and "wp_state w = WPS_COLLECTING_TERMS"
  shows "wp TermsCollected (\<lambda>_ w'. elect_inv A ident evs w' \<and> wp_state w' = WPS_COLLECTING_TERMS) (\<lambda>_. elect_inv A ident evs) w"
  using assms elect_inv_collecting(1) [OF assms] by (simp add: TermsCollected_def wp_simps Let_def)

lemma wp_collect:
  assumes "elect_inv A ident evs w"
  shows "wp (bindE (getE id) (\<lambda>w.
            if wp_state w = WPS_COLLECTING_TERMS then
              thenE (modifyE (\<lambda>w. w\<lparr>wp_propTerm := max (cag_term g) (wp_propTerm w)\<rparr>))
              (bindE TermsCollected (\<lambda>c. if c then
                 modifyE (\<lambda>w. w\<lparr>wp_state := WPS_CAMPAIGN,
                   wp_voteRequest := \<lparr>vq_generation = cm_generation (wp_mconf w), vq_term = wp_propTerm w\<rparr>\<rparr>)
               else retE ()))
            else if cag_term g > wp_propTerm w then fatal ''WAL acceptor rejects our connection request''
            else retE ()))
     (\<lambda>_. elect_inv A ident evs) (\<lambda>_. elect_inv A ident evs) w"
proof (cases "wp_state w = WPS_COLLECTING_TERMS")
  case True
  let ?w = "w\<lparr>wp_propTerm := max (cag_term g) (wp_propTerm w)\<rparr>"
  have "elect_inv A ident evs ?w" "wp_state ?w = WPS_COLLECTING_TERMS" using elect_inv_collecting(1) [OF assms True] True by simp_all
  note wp_mono [OF wp_TermsCollected [OF this], of "\<lambda>c. wp (if c then
                 modifyE (\<lambda>w. w\<lparr>wp_state := WPS_CAMPAIGN,
                   wp_voteRequest := \<lparr>vq_generation = cm_generation (wp_mconf w), vq_term = wp_propTerm w\<rparr>\<rparr>)
               else retE ()) (\<lambda>_. elect_inv A ident evs) (\<lambda>_. elect_inv A ident evs)"]
  then show ?thesis using True by (auto simp: wp_simps elect_inv_collecting(2))
qed (use assms in \<open>simp add: wp_simps\<close>)

lemma wp_request_votes:
  assumes "elect_inv A ident evs w"
  shows "wp (bindE (getE wp_state) (\<lambda>st. if st = WPS_COLLECTING_TERMS then retE ()
          else for_slots (\<lambda>j. bindE (getE (\<lambda>w. cs_state (sk_at w j) = SS_WAIT_VOTING)) (\<lambda>c.
                 if c then SendVoteRequest A j else retE ()))))
     (\<lambda>_. elect_inv A ident evs) (\<lambda>_. elect_inv A ident evs) w"
proof (cases "wp_state w = WPS_COLLECTING_TERMS")
  case False
  have "keeps (campaign_inv A ident evs) (for_slots (\<lambda>j. bindE (getE (\<lambda>w. cs_state (sk_at w j) = SS_WAIT_VOTING)) (\<lambda>c.
                 if c then SendVoteRequest A j else retE ())))" by (intro keeps_intros)
  from wp_mono [OF keepsD [OF this, of w]] show ?thesis
    using assms False by (simp add: wp_simps campaign_inv_def)
qed (use assms in \<open>simp add: wp_simps\<close>)

lemma wp_greeting_tail:
  assumes e: "elect_inv A ident evs w" and i: "i < length (wp_safekeeper w)"
    and n: "cag_nodeId (cs_greetResponse (sk_at w i)) = ident i"
  shows "wp (thenE (upd_sk i (\<lambda>s. s\<lparr>cs_state := SS_WAIT_VOTING\<rparr>))
         (thenE (UpdateMemberSafekeeperPtr i)
         (thenE (modifyE (\<lambda>w. w\<lparr>wp_n_connected := wp_n_connected w + 1\<rparr>))
         (thenE
           (bindE (getE id) (\<lambda>w.
            if wp_state w = WPS_COLLECTING_TERMS then
              thenE (modifyE (\<lambda>w. w\<lparr>wp_propTerm := max (cag_term g) (wp_propTerm w)\<rparr>))
              (bindE TermsCollected (\<lambda>c. if c then
                 modifyE (\<lambda>w. w\<lparr>wp_state := WPS_CAMPAIGN,
                   wp_voteRequest := \<lparr>vq_generation = cm_generation (wp_mconf w), vq_term = wp_propTerm w\<rparr>\<rparr>)
               else retE ()))
            else if cag_term g > wp_propTerm w then fatal ''WAL acceptor rejects our connection request''
            else retE ()))
         (bindE (getE wp_state) (\<lambda>st. if st = WPS_COLLECTING_TERMS then retE ()
          else for_slots (\<lambda>j. bindE (getE (\<lambda>w. cs_state (sk_at w j) = SS_WAIT_VOTING)) (\<lambda>c.
                 if c then SendVoteRequest A j else retE ())))))))) (\<lambda>_. elect_inv A ident evs) (\<lambda>_. elect_inv A ident evs) w"
proof -
  define w1 where "w1 = w\<lparr>wp_safekeeper := (wp_safekeeper w)[i := (sk_at w i)\<lparr>cs_state := SS_WAIT_VOTING\<rparr>]\<rparr>"
  have "slot_inv A ident evs (wp_state w) (wp_propTerm w) i ((sk_at w i)\<lparr>cs_state := SS_WAIT_VOTING\<rparr>)"
    using elect_inv_nth [OF e i] n by (auto simp: slot_inv_def)
  then have w1: "elect_inv A ident evs w1" unfolding w1_def by (intro elect_inv_slot [OF e])
  have "i < length (wp_safekeeper w1)" "SS_WAIT_VOTING \<le> cs_state (sk_at w1 i) \<longrightarrow> cag_nodeId (cs_greetResponse (sk_at w1 i)) = ident i"
    using i n by (simp_all add: w1_def)
  note u = wp_UpdateMember [OF w1 this]
  have nc: "elect_inv A ident evs (w\<lparr>wp_n_connected := k\<rparr>)" if "elect_inv A ident evs w" for w k
    using that by (rule elect_inv_core) (simp add: same_core_def)
  show ?thesis
    unfolding wp_thenE wp_upd_sk w1_def [symmetric] wp_modifyE
    by (rule wp_mono [OF u]) (auto intro!: nc wp_mono [OF wp_collect] wp_request_votes)
qed

lemma wp_RecvAcceptorGreeting:
  assumes w: "elect_inv A ident evs w" and i: "i < length (wp_safekeeper w)" and st: "cs_state (sk_at w i) = SS_HANDSHAKE_RECV"
    and hon: "\<forall>ev \<in> set evs. one_node_per_slot A ident ev"
  shows "wp (RecvAcceptorGreeting A i) (\<lambda>_. elect_inv A ident evs) (\<lambda>_. elect_inv A ident evs) w"
proof -
  have inbox: "\<forall>b \<in> set (cs_inbox (sk_at w i)). Deliver i b \<in> set evs"
    using elect_inv_nth [OF w i] by (simp add: slot_inv_def)
  show ?thesis
    unfolding RecvAcceptorGreeting_def wp_bindE [of "read_message A i f" for f]
  proof (rule wp_mono [OF wp_read_message [OF elect.frame_read_message w i inbox]], goal_cases)
    case (1 mo w1)
    show ?case
    proof (cases "\<exists>g. mo = Some (CAGreeting g)")
      case True
      then obtain g b and old :: c_Safekeeper where g: "mo = Some (CAGreeting g)" "Deliver i b \<in> set evs"
        "fst (AsyncReadMessage (wpc_proto_version A) (CAGreeting (cs_greetResponse old)) b) = Inr (Some (CAGreeting g))"
        using 1 by blast
      have id: "cag_nodeId g = ident i" "distinct (ids (cm_members (cag_mconf g)))" "distinct (ids (cm_new_members (cag_mconf g)))"
        using hon g(2,3) unfolding one_node_per_slot_def by blast+
      define w2 where "w2 = w1\<lparr>wp_safekeeper := (wp_safekeeper w1)[i := (sk_at w1 i)\<lparr>cs_greetResponse := g\<rparr>]\<rparr>"
      have i1: "i < length (wp_safekeeper w1)" and s1: "cs_state (sk_at w1 i) = SS_HANDSHAKE_RECV" and e1: "elect_inv A ident evs w1"
        using 1 g(1) i st by auto
      have "slot_inv A ident evs (wp_state w1) (wp_propTerm w1) i ((sk_at w1 i)\<lparr>cs_greetResponse := g\<rparr>)"
        using elect_inv_nth [OF e1 i1] s1 by (auto simp: slot_inv_def)
      then have w2: "elect_inv A ident evs w2" unfolding w2_def by (intro elect_inv_slot [OF e1])
      have n2: "cag_nodeId (cs_greetResponse (sk_at w2 i)) = ident i" "i < length (wp_safekeeper w2)" using id i1 by (simp_all add: w2_def)
      show ?thesis
        unfolding g(1) option.case c_AcceptorProposerMessage.case wp_thenE [of "upd_sk i (\<lambda>s. s\<lparr>cs_greetResponse := g\<rparr>)"]
          wp_upd_sk [of i "\<lambda>s. s\<lparr>cs_greetResponse := g\<rparr>"] w2_def [symmetric] wp_thenE [of "adopt_mconf mc" for mc]
        by (rule wp_mono [OF wp_adopt [OF w2 id(2,3)]]; (rule wp_greeting_tail)?) (simp_all add: same_slots_def n2)
    qed (use 1 in \<open>auto simp: wp_retE split: option.split c_AcceptorProposerMessage.split\<close>)
  qed
qed


section \<open>The invariant over runs\<close>

lemma wp_AdvancePollState:
  assumes w: "elect_inv A ident evs w" and i: "i < length (wp_safekeeper w)"
    and hon: "\<forall>ev \<in> set evs. one_node_per_slot A ident ev"
  shows "wp (AdvancePollState A i ev) (\<lambda>_. elect_inv A ident evs) (\<lambda>_. elect_inv A ident evs) w"
proof -
  have k: "keeps (elect_inv A ident evs) m \<Longrightarrow> wp m (\<lambda>_. elect_inv A ident evs) (\<lambda>_. elect_inv A ident evs) w" for m :: "unit wp"
    using w by (rule keepsD [rotated])
  have fl: "wp (bindE (AsyncFlush i) (\<lambda>ok. if ok then StartStreaming A i else retE ())) (\<lambda>_. elect_inv A ident evs) (\<lambda>_. elect_inv A ident evs) w"
    if "cs_state (sk_at w i) = SS_SEND_ELECTED_FLUSH"
  proof -
    have c: "campaign_inv A ident evs w"
      using elect_inv_nth [OF w i] that w by (auto simp: campaign_inv_def slot_inv_def less_eq_SafekeeperState_def)
    have "keeps (campaign_inv A ident evs) (bindE (AsyncFlush i) (\<lambda>ok. if ok then StartStreaming A i else retE ()))"
      by (intro keeps_intros)
    from keepsD [OF this c] show ?thesis by (rule wp_mono) (erule campaign_elect)+
  qed
  have "wp (case cs_state (sk_at w i) of
        SS_OFFLINE \<Rightarrow> fatal ''unexpected safekeeper state advancement: is offline''
      | SS_CONNECTING_READ \<Rightarrow> HandleConnectionEvent i
      | SS_CONNECTING_WRITE \<Rightarrow> HandleConnectionEvent i
      | SS_WAIT_EXEC_RESULT \<Rightarrow> RecvStartWALPushResult A i
      | SS_HANDSHAKE_RECV \<Rightarrow> RecvAcceptorGreeting A i
      | SS_WAIT_VOTING \<Rightarrow> ResetConnection i
      | SS_WAIT_VERDICT \<Rightarrow> RecvVoteResponse A i
      | SS_SEND_ELECTED_FLUSH \<Rightarrow> bindE (AsyncFlush i) (\<lambda>ok. if ok then StartStreaming A i else retE ())
      | SS_WAIT_ELECTED \<Rightarrow> ResetConnection i
      | SS_ACTIVE \<Rightarrow> HandleActiveState A i ev) (\<lambda>_. elect_inv A ident evs) (\<lambda>_. elect_inv A ident evs) w"
    using fl wp_RecvAcceptorGreeting [OF w i _ hon] wp_RecvVoteResponse [OF w i]
    by (cases "cs_state (sk_at w i)") (simp_all add: k keeps_basic elect.frame_connection elect.frame_greet elect.frame_HandleActiveState)
  then show ?thesis
    unfolding AdvancePollState_def AssertEventsOkForState_def using w by (simp add: wp_simps split: prod.splits)
qed

lemma wp_Poll:
  assumes w: "elect_inv A ident evs w" and ok: "wp_event_ok w (Poll t r)" and hon: "\<forall>ev \<in> set evs. one_node_per_slot A ident ev"
  shows "wp (WalProposerPoll A [(t, r)]) (\<lambda>_. elect_inv A ident evs) (\<lambda>_. elect_inv A ident evs) w"
proof -
  let ?w = "w\<lparr>wp_clock := t\<rparr>"
  have w1: "elect_inv A ident evs ?w" by (rule elect_inv_core [OF w]) (simp add: same_core_def)
  have a: "wp (case r of WaitSocket i ev \<Rightarrow> if any_event ev then AdvancePollState A i ev else retE () | _ \<Rightarrow> retE ())
      (\<lambda>_. elect_inv A ident evs) (\<lambda>_. elect_inv A ident evs) ?w"
    using w1 ok wp_AdvancePollState [OF w1 _ hon] by (cases r) (simp_all add: wp_simps)
  show ?thesis
    unfolding WalProposerPoll.simps wp_thenE [of "modifyE f" for f] wp_modifyE wp_bindE [of "poll_round A r"]
  proof (rule wp_mono [where Q = "\<lambda>_. elect_inv A ident evs" and E = "\<lambda>_. elect_inv A ident evs"])
    show "wp (poll_round A r) (\<lambda>_. elect_inv A ident evs) (\<lambda>_. elect_inv A ident evs) ?w"
      unfolding poll_round_def wp_if wp_thenE [of "case r of WaitSocket i ev \<Rightarrow> if any_event ev then AdvancePollState A i ev else retE () | _ \<Rightarrow> retE ()"]
      using w1 wp_mono [OF a] keepsD [OF elect.frame_poll_tail] by (simp add: wp_retE)
  qed (simp_all add: wp_simps)
qed


lemma granted_mono: "granted A evs t i \<Longrightarrow> set evs \<subseteq> set evs' \<Longrightarrow> granted A evs' t i"
  by (auto simp: granted_def)

lemma majority_mono: "majority A ident evs t ms \<Longrightarrow> set evs \<subseteq> set evs' \<Longrightarrow> majority A ident evs' t ms"
  unfolding majority_def using granted_mono by meson

lemma slot_inv_mono: "slot_inv A ident evs st t i s \<Longrightarrow> set evs \<subseteq> set evs' \<Longrightarrow> slot_inv A ident evs' st t i s"
  unfolding slot_inv_def by (auto intro: granted_mono)

lemma elect_inv_mono: "elect_inv A ident evs w \<Longrightarrow> set evs \<subseteq> set evs' \<Longrightarrow> elect_inv A ident evs' w"
  unfolding elect_inv_def won_def by (auto intro: slot_inv_mono majority_mono)

lemma wp_exec_inv:
  assumes w: "elect_inv A ident evs w" and ok: "wp_event_ok w ev" and hon: "\<forall>ev \<in> set evs. one_node_per_slot A ident ev"
    and ev: "ev \<in> set evs"
  shows "wp (wp_exec A ev) (\<lambda>_. elect_inv A ident evs) (\<lambda>_. elect_inv A ident evs) w"
proof (cases ev)
  case Start
  have "keeps (elect_inv A ident evs) WalProposerStart" unfolding WalProposerStart_def by (intro keeps_intros)
  then show ?thesis using Start keepsD w by auto
next
  case (Deliver i b)
  have "slot_inv A ident evs (wp_state w) (wp_propTerm w) i
      (if cs_state (sk_at w i) = SS_OFFLINE then sk_at w i else (sk_at w i)\<lparr>cs_inbox := cs_inbox (sk_at w i) @ [b]\<rparr>)"
    using elect_inv_nth [OF w, of i] ok ev Deliver by (auto simp: slot_inv_def less_eq_SafekeeperState_def)
  then show ?thesis using Deliver by (simp add: wp_simps elect_inv_slot [OF w])
next
  case (Replies rs)
  then show ?thesis using elect_inv_core [OF w] by (simp add: wp_simps same_core_def)
next
  case (Poll t r)
  show ?thesis
    unfolding Poll wp_exec.simps wp_thenE wp_retE
    by (rule wp_mono [OF wp_Poll [OF w ok [unfolded Poll] hon]]) simp_all
next
  case (NewWal s e)
  have "keeps (elect_inv A ident evs) (WalProposerBroadcast A s e)"
    unfolding WalProposerBroadcast_def by (intro keeps_intros elect.frame_modify) (simp add: same_core_def)
  then show ?thesis using NewWal keepsD w by auto
qed

lemma wp_run_inv:
  assumes "wp_run A w0 evs alive w" and "elect_inv A ident [] w0" and "\<forall>ev \<in> set evs. one_node_per_slot A ident ev"
  shows "elect_inv A ident evs w"
  using assms
proof (induction rule: wp_run.induct)
  case (wp_run_step evs w ev r w')
  then have e: "elect_inv A ident (evs @ [ev]) w" by (auto intro: elect_inv_mono)
  show ?case
    by (rule wp_sndD [OF wp_exec_inv [OF e wp_run_step.hyps(2)] wp_run_step.hyps(3)]) (use wp_run_step.prems in simp_all)
qed

text \<open>A proposer just created: all connections are down and nothing has been sent.\<close>

lemma create_slots:
  assumes "WalProposerCreate A epoch mine dn = Inr w"
  obtains gen sks where
    "w = (zero_proposer epoch mine dn)\<lparr>wp_quorum := length sks div 2 + 1, wp_safekeepers_generation := gen, wp_safekeeper := sks\<rparr>"
    and "\<And>i. i < length sks \<Longrightarrow> cs_state (sks ! i) = SS_OFFLINE \<and> cs_inbox (sks ! i) = []"
proof -
  have off: "parse_hosts A s n = Inr sks \<Longrightarrow> sk \<in> set sks \<Longrightarrow> cs_state sk = SS_OFFLINE \<and> cs_inbox sk = []" for s n sks sk
  proof (induction A s n arbitrary: sks rule: parse_hosts.induct)
    case (1 A s n)
    then show ?case
      by (auto simp: parse_hosts.simps [of A s n] Let_def bind_res_Inr map_res_Inr new_safekeeper_def zero_safekeeper_def split: if_splits)
  qed
  obtain gen hosts sks where h: "parse_hosts A hosts 0 = Inr sks"
    and w: "w = (zero_proposer epoch mine dn)\<lparr>wp_quorum := length sks div 2 + 1, wp_safekeepers_generation := gen, wp_safekeeper := sks\<rparr>"
    using assms by (auto simp: WalProposerCreate_def bind_res_Inr split: if_splits)
  show thesis by (rule that [OF w]) (use off [OF h nth_mem] in simp)
qed

lemma create_inv:
  assumes "WalProposerCreate A epoch mine dn = Inr w"
  shows "elect_inv A ident [] w"
proof (rule create_slots [OF assms])
  fix gen sks
  assume w: "w = (zero_proposer epoch mine dn)\<lparr>wp_quorum := length sks div 2 + 1, wp_safekeepers_generation := gen, wp_safekeeper := sks\<rparr>"
    and off: "\<And>i. i < length sks \<Longrightarrow> cs_state (sks ! i) = SS_OFFLINE \<and> cs_inbox (sks ! i) = []"
  have "slot_inv A ident [] WPS_COLLECTING_TERMS 0 i (sks ! i)" if "i < length sks" for i
    using off [OF that] by (simp add: slot_inv_def less_eq_SafekeeperState_def)
  then show ?thesis
    unfolding w by (simp add: zero_proposer_def elect_inv_def ptrs_inv_def)
qed

section \<open>Nodes\<close>

lemma node_step_vote_term:
  assumes st: "node_step K E s (Message (PVoteRequest v) (Inr (Some (AVoteResponse r)))) s'" and ok: "ssk_ok K E s"
    and g: "vr_vote_given r"
  shows "vr_term r = vq_term v"
proof -
  obtain sk sk' where sk: "s = SkLoaded sk" "s' = SkLoaded sk'"
    "handle_vote_request (file_ctrl_ops K) (physical_ops E) v sk = (Inr (Some (AVoteResponse r)), sk')"
    using st by (cases s) (auto simp: ssk_process_msg_def split: prod.splits)
  have "sk_ok (file_ctrl_ops K) (file_durable K) (physical_ops E) ps_inv sk" using ok sk by (simp add: ssk_ok_def)
  from wp_runD [OF node.wp_handle_vote_request [OF this] sk(3)] show ?thesis using g by (auto simp: max_def)
qed

lemma node_run_vote_term:
  assumes "node_run K E s evs s'" and "ssk_ok K E s"
    and "Message (PVoteRequest v) (Inr (Some (AVoteResponse r))) \<in> set evs" and "vr_vote_given r"
  shows "vr_term r = vq_term v"
  using assms
proof (induction rule: node_run.induct)
  case (run_step s evs s1 ev s2)
  have "ssk_ok K E s1" using node_run_good [OF run_step.hyps(1) run_step.prems(1)] by (simp add: ssk_good_def)
  then show ?case using run_step node_step_vote_term by auto
qed simp

text \<open>A node votes once in a term.\<close>

lemma votes_nth_distinct:
  assumes "sorted_wrt (<) (votes evs)" and "a < b" and "b < length evs"
  shows "set (vote_of (evs ! a)) \<inter> set (vote_of (evs ! b)) = {}"
proof -
  have "evs = take b evs @ drop b evs" by simp
  also have "drop b evs = evs ! b # drop (Suc b) evs" using assms(3) by (rule Cons_nth_drop_Suc [symmetric])
  finally have "votes evs = votes (take b evs) @ vote_of (evs ! b) @ votes (drop (Suc b) evs)"
    unfolding votes_def by (rule trans [OF arg_cong [where f = "\<lambda>e. concat (map vote_of e)"]]) simp
  then have s: "\<forall>x \<in> set (votes (take b evs)). \<forall>y \<in> set (vote_of (evs ! b)). x < y"
    using assms(1) by (simp add: sorted_wrt_append)
  have "evs ! a \<in> set (take b evs)" using assms(2,3) by (auto simp: in_set_conv_nth)
  then have "set (vote_of (evs ! a)) \<subseteq> set (votes (take b evs))" by (auto simp: votes_def)
  with s show ?thesis by fastforce
qed

section \<open>Proposers and nodes\<close>

text \<open>
  Where granted votes come from: a message on a connection that reads as a granted vote is the
  serialized reply of the node of that connection to a vote request, at a position of its history.
\<close>

definition votes_from ::
  "SystemTime \<Rightarrow> wp_config \<Rightarrow> (nat \<Rightarrow> NodeId) \<Rightarrow> wp_event list \<Rightarrow> (NodeId \<Rightarrow> node_event list) \<Rightarrow> (nat \<Rightarrow> bytes \<Rightarrow> nat) \<Rightarrow> bool" where
  "votes_from epoch A ident evs hist src \<longleftrightarrow> wpc_proto_version A = 3 \<and>
     (\<forall>i b t. Deliver i b \<in> set evs \<longrightarrow> grants A t b \<longrightarrow> src i b < length (hist (ident i)) \<and>
        (\<exists>v r. hist (ident i) ! src i b = Message (PVoteRequest v) (Inr (Some (AVoteResponse r))) \<and>
           small_list (vr_term_history r) \<and> serialize epoch 3 (AVoteResponse r) = Inr b))"

lemma read_vote_response:
  assumes "small_list (vr_term_history r)" and "serialize epoch 3 (AVoteResponse r) = Inr b"
  shows "AsyncReadMessage 3 (CAVoteResponse old) b = (Inr (Some (CAVoteResponse
      \<lparr>cvr_generation = vr_generation r, cvr_term = vr_term r, cvr_voteGiven = bool_u (vr_vote_given r),
       cvr_flushLsn = vr_flush_lsn r, cvr_truncateLsn = vr_truncate_lsn r, cvr_termHistory = vr_term_history r\<rparr>)), [])"
proof -
  have ok: "response_ok epoch (AVoteResponse r)" using assms(1) by (simp add: response_ok_def)
  have s: "serialize_v3 epoch (AVoteResponse r) = Inr b" using assms(2) by (simp add: serialize_def SK_PROTO_VERSION_3_def)
  show ?thesis
    using read_v3_serialized [OF ok s, of "CAVoteResponse old"] by (auto simp: AsyncReadMessage_def reads)
qed

lemma granted_vote:
  assumes "votes_from epoch A ident evs hist src" and "Deliver i b \<in> set evs" and "grants A t b"
    and "node_run K E s (hist (ident i)) s'" and "ssk_ok K E s"
  shows "src i b < length (hist (ident i)) \<and> t \<in> set (vote_of (hist (ident i) ! src i b))"
proof -
  obtain v r where k: "src i b < length (hist (ident i))"
    and m: "hist (ident i) ! src i b = Message (PVoteRequest v) (Inr (Some (AVoteResponse r)))"
    and r: "small_list (vr_term_history r)" "serialize epoch 3 (AVoteResponse r) = Inr b" and p: "wpc_proto_version A = 3"
    using assms(1-3) unfolding votes_from_def by blast
  have g: "vr_vote_given r" "vr_term r = t"
    using assms(3) unfolding grants_def p read_vote_response [OF r] by (auto simp: bool_u_def split: if_splits)
  have "vr_term r = vq_term v" using node_run_vote_term [OF assms(4,5) _ g(1)] k m nth_mem by metis
  then show ?thesis using k m g by simp
qed

lemma majorities_meet:
  assumes "V \<subseteq> S" and "W \<subseteq> S" and "finite S" and "card S \<le> n" and "MsetHasQuorum n (card V)" and "MsetHasQuorum n (card W)"
  shows "\<exists>x. x \<in> V \<and> x \<in> W"
proof (rule ccontr)
  assume "\<not> ?thesis"
  then have "V \<inter> W = {}" by auto
  then have "card (V \<union> W) = card V + card W" using assms(1-3) by (meson card_Un_disjoint finite_subset)
  moreover have "card (V \<union> W) \<le> card S" using assms(1-3) by (simp add: card_mono)
  ultimately show False using assms(4-6) by (auto simp: MsetHasQuorum_def MsetQuorum_def)
qed

text \<open>The sets of members of which the proposer needs majorities.\<close>

definition member_sets :: "c_WalProposer \<Rightarrow> SafekeeperId list set" where
  "member_sets w = {cm_members (wp_mconf w)} \<union> (if cm_new_members (wp_mconf w) = [] then {} else {cm_new_members (wp_mconf w)})"

lemma won_majority: "won A ident evs w \<Longrightarrow> \<not> no_generations w \<Longrightarrow> ms \<in> member_sets w \<Longrightarrow> majority A ident evs (wp_propTerm w) ms"
  by (auto simp: won_def member_sets_def split: if_splits)

lemma majorities_conflict:
  assumes v1: "votes_from epoch A1 ident1 evs1 hist src1" and v2: "votes_from epoch A2 ident2 evs2 hist src2"
    and nodes: "\<forall>n. ssk_ok K E (start n) \<and> node_run K E (start n) (hist n) (final n)"
    and apart: "\<forall>i b j c. Deliver i b \<in> set evs1 \<longrightarrow> Deliver j c \<in> set evs2 \<longrightarrow> ident1 i = ident2 j \<longrightarrow> src1 i b \<noteq> src2 j c"
    and m1: "majority A1 ident1 evs1 t ms" and m2: "majority A2 ident2 evs2 t ms"
  shows False
proof -
  obtain V W where V: "V \<subseteq> set (ids ms)" "MsetHasQuorum (length ms) (card V)" "\<forall>n \<in> V. \<exists>i. ident1 i = n \<and> granted A1 evs1 t i"
    and W: "W \<subseteq> set (ids ms)" "MsetHasQuorum (length ms) (card W)" "\<forall>n \<in> W. \<exists>i. ident2 i = n \<and> granted A2 evs2 t i"
    using m1 m2 unfolding majority_def by blast
  have "card (set (ids ms)) \<le> length ms" using card_length [of "ids ms"] by simp
  then obtain n where "n \<in> V" "n \<in> W" using majorities_meet [OF V(1) W(1) _ _ V(2) W(2)] by auto
  then have "\<exists>i. ident1 i = n \<and> granted A1 evs1 t i" "\<exists>j. ident2 j = n \<and> granted A2 evs2 t j" using V(3) W(3) by auto
  then obtain i b j c where i: "ident1 i = n" "Deliver i b \<in> set evs1" "grants A1 t b" and j: "ident2 j = n" "Deliver j c \<in> set evs2" "grants A2 t c"
    unfolding granted_def by blast
  have nr: "ssk_ok K E (start n)" "node_run K E (start n) (hist n) (final n)" using nodes by auto
  have a: "src1 i b < length (hist n)" "t \<in> set (vote_of (hist n ! src1 i b))"
    using granted_vote [OF v1 i(2,3)] nr i(1) by auto
  have d: "src2 j c < length (hist n)" "t \<in> set (vote_of (hist n ! src2 j c))"
    using granted_vote [OF v2 j(2,3)] nr j(1) by auto
  have "src1 i b \<noteq> src2 j c" using apart i(1,2) j(1,2) by simp
  then have "src1 i b < src2 j c \<or> src2 j c < src1 i b" by auto
  then show False
    using votes_nth_distinct [of "hist n"] node_run_votes [OF nr(2,1)] a d by blast
qed

end
