(* ===== verification/Leader.thy ===== *)
theory Leader
  imports Election
begin

text \<open>
  Sample elections, and the properties of elections: an elected proposer holds the votes of a
  majority, and no two proposers are elected in the same term by overlapping memberships.
\<close>

section \<open>A sample election\<close>

text \<open>
  A proposer with one connection, to a node that introduces itself as the only member of the
  configuration and grants its vote.
\<close>

definition sample_conf :: wp_config where
  "sample_conf = sample_wp_config\<lparr>wpc_safekeepers_list := [0x68, 0x3A, 0x31]\<rparr>"

definition sample_conn :: c_Safekeeper where
  "sample_conn = zero_safekeeper\<lparr>cs_host := [0x68], cs_port := [0x31],
     cs_conninfo := take (MAXCONNINFO - 1) (conninfo_text sample_conf [0x68] [0x31])\<rparr>"

definition sample_start :: c_WalProposer where
  "sample_start = (zero_proposer 0 0 None)\<lparr>wp_quorum := 1, wp_safekeepers_generation := 0, wp_safekeeper := [sample_conn]\<rparr>"

lemma sample_created: "WalProposerCreate sample_conf 0 0 None = Inr sample_start"
proof -
  have l: "length (conninfo_text sample_conf [0x68] [0x31]) \<le> MAXCONNINFO"
    by (simp add: conninfo_text_def ascii_bytes_def sample_conf_def sample_wp_config_def MAXCONNINFO_def)
  have "parse_hosts sample_conf [0x68, 0x3A, 0x31] 0 = Inr [sample_conn]"
    using l by (simp add: parse_hosts.simps [of _ "[0x68, 0x3A, 0x31]"] parse_hosts.simps [of _ "[]"] new_safekeeper_def sample_conn_def
        MAX_SAFEKEEPERS_def bind_res_def map_res_def Let_def)
  then show ?thesis
    by (simp add: WalProposerCreate_def safekeepers_prefix_def sample_start_def bind_res_def sample_conf_def sample_wp_config_def
      INVALID_GENERATION_def)
qed

definition ev_rd :: wait_result where "ev_rd = WaitSocket 0 (no_events\<lparr>ev_readable := True\<rparr>)"
definition ev_wr :: wait_result where "ev_wr = WaitSocket 0 (no_events\<lparr>ev_writeable := True\<rparr>)"

lemma ttr: "wp_clock w = 0 \<Longrightarrow> wp_last_reconnect_attempt w = 0 \<Longrightarrow> TimeToReconnect sample_conf w 0 = 1000"
  by (simp add: TimeToReconnect_def sample_conf_def sample_wp_config_def)

lemma conf_fields [simp]: "wpc_proto_version sample_conf = 3" "wpc_syncSafekeepers sample_conf = False"
  "api_wal_reader_events sample_conf = no_events" "any_event no_events = False" "any_event (no_events\<lparr>ev_readable := True\<rparr>)"
  "any_event (no_events\<lparr>ev_writeable := True\<rparr>)"
  by (simp_all add: sample_conf_def sample_wp_config_def no_events_def any_event_def)

lemma start_fields [simp]: "wp_clock sample_start = 0" "wp_last_reconnect_attempt sample_start = 0" "wp_replies sample_start = []"
  "wp_safekeeper sample_start = [sample_conn]" "cs_state sample_conn = SS_OFFLINE" "wp_sent sample_start = []" "cs_inbox sample_conn = []"
  by (simp_all add: sample_start_def zero_proposer_def sample_conn_def zero_safekeeper_def)

lemmas steps = thenE_def bindE_def getE_def modifyE_def guardE_def retE_def liftR_def

lemma step1: "wp_exec sample_conf Start sample_start =
   (Inr (), sample_start\<lparr>wp_safekeeper := [sample_conn\<lparr>cs_state := SS_CONNECTING_WRITE, cs_latestMsgReceivedAt := 0\<rparr>]\<rparr>)"
  by (simp add: WalProposerStart_def for_slots_def ResetConnection_def steps api_call_def)

lemma step2: "wp_exec sample_conf (Poll 0 ev_wr) (sample_start\<lparr>wp_safekeeper := [sample_conn\<lparr>cs_state := SS_CONNECTING_WRITE, cs_latestMsgReceivedAt := 0\<rparr>]\<rparr>) =
   (Inr (), sample_start\<lparr>wp_clock := 0, wp_safekeeper := [sample_conn\<lparr>cs_state := SS_WAIT_EXEC_RESULT, cs_latestMsgReceivedAt := 0\<rparr>]\<rparr>)"
  by (simp add: poll_round_def poll_tail_def ev_wr_def AdvancePollState_def AssertEventsOkForState_def SafekeeperStateDesiredEvents_def both_events_def
     HandleConnectionEvent_def SendStartWALPush_def ReconnectSafekeepers_def ttr steps api_call_def Let_def no_events_def any_event_def)


definition sample_member :: SafekeeperId where "sample_member = \<lparr>sk_id = 1, sk_host = [], sk_pg_port = 0\<rparr>"

definition sample_mconf :: Configuration where
  "sample_mconf = \<lparr>generation = 42, members = \<lparr>ms_m = [sample_member]\<rparr>, new_members = None\<rparr>"

definition greet_bytes :: "Term \<Rightarrow> bytes" where
  "greet_bytes t = (case serialize 0 3 (AGreeting \<lparr>ag_node_id = 1, ag_mconf = sample_mconf, ag_term = t\<rparr>) of Inr b \<Rightarrow> b | Inl _ \<Rightarrow> [])"

definition vote_bytes :: "Term \<Rightarrow> bytes" where
  "vote_bytes t = (case serialize 0 3 (AVoteResponse (sample_vote t (t + 1))) of Inr b \<Rightarrow> b | Inl _ \<Rightarrow> [])"

lemma vote_bytes: "serialize 0 3 (AVoteResponse (sample_vote t (t + 1))) = Inr (vote_bytes t)"
  "small_list (vr_term_history (sample_vote t u))"
  by (simp_all add: vote_bytes_def serialize_def SK_PROTO_VERSION_3_def serialize_v3_def sample_vote_def small_list_def)

lemma greet_bytes: "serialize_v3 0 (AGreeting \<lparr>ag_node_id = 1, ag_mconf = sample_mconf, ag_term = t\<rparr>) = Inr (greet_bytes t)"
  by (simp add: greet_bytes_def serialize_def SK_PROTO_VERSION_3_def serialize_v3_def)

abbreviation sample_cmconf :: c_MembershipConfiguration where
  "sample_cmconf \<equiv> \<lparr>cm_generation = 42, cm_members = [sample_member], cm_new_members = []\<rparr>"

lemma read_greet: "AsyncReadMessage 3 (CAGreeting old) (greet_bytes t) =
   (Inr (Some (CAGreeting \<lparr>cag_nodeId = 1, cag_mconf = sample_cmconf, cag_term = t\<rparr>)), [])"
proof -
  have ok: "response_ok 0 (AGreeting \<lparr>ag_node_id = 1, ag_mconf = sample_mconf, ag_term = t\<rparr>)"
    by (simp add: response_ok_def mconf_ok_def sample_mconf_def sample_member_def host_ok_def small_list_def)
  have "c_mconf_of sample_mconf = sample_cmconf"
    by (simp add: c_mconf_of_def sample_mconf_def short_member_def sample_member_def strlcpy_def)
  then show ?thesis
    using read_v3_serialized [OF ok greet_bytes, of "CAGreeting old"] by (auto simp: AsyncReadMessage_def reads)
qed

lemma read_other: "fst (AsyncReadMessage 3 (CAVoteResponse old) (greet_bytes t)) = Inr None"
  "fst (AsyncReadMessage 3 (CAGreeting old') (vote_bytes t)) = Inr None"
proof -
  obtain r where "greet_bytes t = 0x67 # r" using greet_bytes [of t, symmetric] by (auto simp: serialize_v3_def)
  then show "fst (AsyncReadMessage 3 (CAVoteResponse old) (greet_bytes t)) = Inr None" by (simp add: AsyncReadMessage_def reads)
  obtain r where "vote_bytes t = 0x76 # r" using vote_bytes(1) [of t, symmetric] by (auto simp: serialize_def SK_PROTO_VERSION_3_def serialize_v3_def)
  then show "fst (AsyncReadMessage 3 (CAGreeting old') (vote_bytes t)) = Inr None" by (simp add: AsyncReadMessage_def reads)
qed

definition sent_greeting :: c_WalProposer where
  "sent_greeting = sample_start\<lparr>wp_clock := 0, wp_sent := [(0, CGreeting (greetRequest sample_conf))],
     wp_safekeeper := [sample_conn\<lparr>cs_state := SS_HANDSHAKE_RECV, cs_latestMsgReceivedAt := 0\<rparr>]\<rparr>"

lemma step3: "wp_exec sample_conf (Poll 0 ev_rd) (sample_start\<lparr>wp_clock := 0, wp_safekeeper := [sample_conn\<lparr>cs_state := SS_WAIT_EXEC_RESULT, cs_latestMsgReceivedAt := 0\<rparr>]\<rparr>) =
   (Inr (), sent_greeting)"
  by (simp add: poll_round_def poll_tail_def ev_rd_def AdvancePollState_def AssertEventsOkForState_def SafekeeperStateDesiredEvents_def both_events_def
     RecvStartWALPushResult_def SendProposerGreeting_def wp_serialize_def PAMessageSerialize_def BlockingWrite_def
     ReconnectSafekeepers_def ttr steps api_call_def Let_def no_events_def any_event_def sent_greeting_def)

lemma step4: "wp_exec sample_conf (Deliver 0 b) sent_greeting =
   (Inr (), sent_greeting\<lparr>wp_safekeeper := [sample_conn\<lparr>cs_state := SS_HANDSHAKE_RECV, cs_latestMsgReceivedAt := 0, cs_inbox := [b]\<rparr>]\<rparr>)"
  by (simp add: sent_greeting_def)

lemma step_runs:
  "m w = (Inr x, w') \<Longrightarrow> thenE m k w = k w'"
  "m w = (Inr x, w') \<Longrightarrow> bindE m f w = f x w'"
  by (simp_all add: thenE_def bindE_def)

lemma read_message_run:
  assumes "i < length (wp_safekeeper w)" and "wp_replies w = []" and "cs_inbox (sk_at w i) = b # bs"
    and "fst (AsyncReadMessage (wpc_proto_version A) (f ((sk_at w i)\<lparr>cs_inbox := bs, cs_latestMsgReceivedAt := wp_clock w\<rparr>)) b) = Inr (Some m)"
  shows "read_message A i f w =
    (Inr (Some m), w\<lparr>wp_safekeeper := (wp_safekeeper w)[i := (sk_at w i)\<lparr>cs_inbox := bs, cs_latestMsgReceivedAt := wp_clock w\<rparr>]\<rparr>)"
proof -
  have "AsyncRead i w = (Inr (Some b), w\<lparr>wp_safekeeper := (wp_safekeeper w)[i := (sk_at w i)\<lparr>cs_inbox := bs\<rparr>]\<rparr>)"
    using assms(1-3) by (simp add: AsyncRead_def steps api_call_def)
  then show ?thesis using assms(1,4) by (simp add: read_message_def steps)
qed

definition greeted :: "Term \<Rightarrow> c_Safekeeper" where
  "greeted t = sample_conn\<lparr>cs_latestMsgReceivedAt := 0, cs_inbox := [], cs_greetResponse := \<lparr>cag_nodeId = 1, cag_mconf = sample_cmconf, cag_term = t\<rparr>\<rparr>"

definition ptr0 :: "nat option list" where "ptr0 = Some 0 # replicate 31 None"

lemma UpdateMember_run:
  assumes "wp_safekeeper w = [s]" and "cs_state s = SS_WAIT_VOTING" and "cag_nodeId (cs_greetResponse s) = 1"
    and "wp_mconf w = sample_cmconf" and "wp_members_safekeepers w = replicate 32 None" and "wp_new_members_safekeepers w = replicate 32 None"
  shows "UpdateMemberSafekeeperPtr 0 w = (Inr (), w\<lparr>wp_members_safekeepers := ptr0\<rparr>)"
proof -
  have a: "map_member [sample_member] 1 0 (replicate 32 None) = ptr0"
    by (rule nth_equalityI) (auto simp: map_member_nth ptr0_def sample_member_def nth_Cons' less_Suc_eq_0_disj)
  have b: "map_member [] 1 0 (replicate 32 None) = replicate 32 None" by (rule nth_equalityI) (auto simp: map_member_nth)
  show ?thesis
    using assms a b by (simp add: UpdateMemberSafekeeperPtr_def steps MAX_SAFEKEEPERS_def Let_def)
qed


definition no_ptrs :: "nat option list" where "no_ptrs = replicate 32 None"

lemma adopt_run:
  assumes "wp_safekeeper w = [s]" and "cs_state s = SS_HANDSHAKE_RECV" and "cm_generation (wp_mconf w) = 0"
    and "wp_state w = WPS_COLLECTING_TERMS"
  shows "adopt_mconf sample_cmconf w =
    (Inr (), w\<lparr>wp_mconf := sample_cmconf, wp_members_safekeepers := no_ptrs, wp_new_members_safekeepers := no_ptrs\<rparr>)"
  using assms by (simp add: adopt_mconf_def steps ResetMemberSafekeeperPtrs_def for_slots_def MAX_SAFEKEEPERS_def no_ptrs_def
      less_eq_SafekeeperState_def)

definition voting :: "Term \<Rightarrow> c_WalProposer" where
  "voting t = sent_greeting\<lparr>wp_state := WPS_CAMPAIGN, wp_propTerm := t + 1, wp_mconf := sample_cmconf, wp_n_connected := 1,
     wp_members_safekeepers := ptr0, wp_new_members_safekeepers := no_ptrs,
     wp_voteRequest := \<lparr>vq_generation = 42, vq_term = t + 1\<rparr>,
     wp_sent := [(0, CGreeting (greetRequest sample_conf)), (0, CVoteRequest \<lparr>vq_generation = 42, vq_term = t + 1\<rparr>)],
     wp_safekeeper := [(greeted t)\<lparr>cs_state := SS_WAIT_VERDICT\<rparr>]\<rparr>"

lemma sent_greeting_fields [simp]:
  "wp_state sent_greeting = WPS_COLLECTING_TERMS" "wp_propTerm sent_greeting = 0" "cm_generation (wp_mconf sent_greeting) = 0"
  "wp_n_connected sent_greeting = 0" "wp_replies sent_greeting = []" "wp_clock sent_greeting = 0" "wp_last_reconnect_attempt sent_greeting = 0"
  "wp_sent sent_greeting = [(0, CGreeting (greetRequest sample_conf))]" "wp_safekeepers_generation sent_greeting = 0"
  by (simp_all add: sent_greeting_def sample_start_def zero_proposer_def INVALID_GENERATION_def)

lemmas full = greeted_def sent_greeting_def sample_start_def zero_proposer_def sample_conn_def zero_safekeeper_def
  c_Safekeeper.simps c_WalProposer.simps

lemma greeting_run:
  "RecvAcceptorGreeting sample_conf 0
    (sent_greeting\<lparr>wp_safekeeper := [sample_conn\<lparr>cs_state := SS_HANDSHAKE_RECV, cs_latestMsgReceivedAt := 0, cs_inbox := [greet_bytes t]\<rparr>]\<rparr>) =
   (Inr (), voting t)"
proof -
  let ?w = "sent_greeting\<lparr>wp_safekeeper := [sample_conn\<lparr>cs_state := SS_HANDSHAKE_RECV, cs_latestMsgReceivedAt := 0, cs_inbox := [greet_bytes t]\<rparr>]\<rparr>"
  let ?g = "\<lparr>cag_nodeId = 1, cag_mconf = sample_cmconf, cag_term = t\<rparr>"
  let ?w1 = "sent_greeting\<lparr>wp_safekeeper := [(greeted t)\<lparr>cs_state := SS_HANDSHAKE_RECV\<rparr>]\<rparr>"
  let ?w2 = "sent_greeting\<lparr>wp_mconf := sample_cmconf, wp_members_safekeepers := no_ptrs, wp_new_members_safekeepers := no_ptrs,
      wp_safekeeper := [(greeted t)\<lparr>cs_state := SS_HANDSHAKE_RECV\<rparr>]\<rparr>"
  let ?w3 = "sent_greeting\<lparr>wp_mconf := sample_cmconf, wp_members_safekeepers := no_ptrs, wp_new_members_safekeepers := no_ptrs,
      wp_safekeeper := [(greeted t)\<lparr>cs_state := SS_WAIT_VOTING\<rparr>]\<rparr>"
  let ?w4 = "sent_greeting\<lparr>wp_mconf := sample_cmconf, wp_members_safekeepers := ptr0, wp_new_members_safekeepers := no_ptrs,
      wp_safekeeper := [(greeted t)\<lparr>cs_state := SS_WAIT_VOTING\<rparr>]\<rparr>"
  have r: "read_message sample_conf 0 (\<lambda>sk. CAGreeting (cs_greetResponse sk)) ?w =
      (Inr (Some (CAGreeting ?g)), sent_greeting\<lparr>wp_safekeeper := [sample_conn\<lparr>cs_state := SS_HANDSHAKE_RECV, cs_latestMsgReceivedAt := 0, cs_inbox := []\<rparr>]\<rparr>)"
    using read_message_run [of 0 ?w "greet_bytes t" "[]" sample_conf "\<lambda>sk. CAGreeting (cs_greetResponse sk)" "CAGreeting ?g"]
    by (simp add: read_greet)
  have a: "adopt_mconf sample_cmconf ?w1 = (Inr (), ?w2)" using adopt_run [of ?w1 "(greeted t)\<lparr>cs_state := SS_HANDSHAKE_RECV\<rparr>"] by simp
  have u: "UpdateMemberSafekeeperPtr 0 ?w3 = (Inr (), ?w4)" using UpdateMember_run [of ?w3 "(greeted t)\<lparr>cs_state := SS_WAIT_VOTING\<rparr>"] by (simp add: greeted_def no_ptrs_def)
  have p: "(sent_greeting\<lparr>wp_safekeeper := [sample_conn\<lparr>cs_state := SS_HANDSHAKE_RECV, cs_latestMsgReceivedAt := 0, cs_inbox := []\<rparr>]\<rparr>)
     \<lparr>wp_safekeeper := [sample_conn\<lparr>cs_state := SS_HANDSHAKE_RECV, cs_latestMsgReceivedAt := 0, cs_inbox := [], cs_greetResponse := ?g\<rparr>]\<rparr> = ?w1"
    by (simp add: greeted_def)
  show ?thesis
    using r a u unfolding full
    by (simp add: RecvAcceptorGreeting_def steps)
      (simp add: steps TermsCollected_def INVALID_GENERATION_def TermsCollectedMset_def member_slots_def MsetHasQuorum_def MsetQuorum_def ptr0_def for_slots_def
      SendVoteRequest_def wp_serialize_def PAMessageSerialize_def BlockingWrite_def api_call_def voting_def full)
qed


lemma step5: "wp_exec sample_conf (Poll 0 ev_rd)
    (sent_greeting\<lparr>wp_safekeeper := [sample_conn\<lparr>cs_state := SS_HANDSHAKE_RECV, cs_latestMsgReceivedAt := 0, cs_inbox := [greet_bytes t]\<rparr>]\<rparr>) =
   (Inr (), voting t)"
proof -
  have c: "(sent_greeting\<lparr>wp_safekeeper := s\<rparr>)\<lparr>wp_clock := 0\<rparr> = sent_greeting\<lparr>wp_safekeeper := s\<rparr>" for s
    by (simp add: full)
  have v: "wp_clock (voting t) = 0" "wp_last_reconnect_attempt (voting t) = 0" by (simp_all add: voting_def)
  show ?thesis
    using greeting_run [of t] v
    by (simp add: poll_round_def poll_tail_def ev_rd_def AdvancePollState_def AssertEventsOkForState_def SafekeeperStateDesiredEvents_def
        both_events_def no_events_def any_event_def ReconnectSafekeepers_def ttr steps c)
qed

lemma step6: "wp_exec sample_conf (Deliver 0 b) (voting t) =
   (Inr (), (voting t)\<lparr>wp_safekeeper := [(greeted t)\<lparr>cs_state := SS_WAIT_VERDICT, cs_inbox := [b]\<rparr>]\<rparr>)"
  by (simp add: voting_def full)

text \<open>Nothing but the election state.\<close>

definition core_is :: "WalProposerState \<Rightarrow> Term \<Rightarrow> c_MembershipConfiguration \<Rightarrow> c_WalProposer \<Rightarrow> bool" where
  "core_is st t mc w \<longleftrightarrow> wp_state w = st \<and> wp_propTerm w = t \<and> wp_mconf w = mc"

interpretation elected_core: active_frame "core_is st t mc" for st t mc
  by unfold_locales (auto simp: core_is_def same_core_def)

abbreviation vote_c :: "Term \<Rightarrow> c_VoteResponse" where
  "vote_c t \<equiv> \<lparr>cvr_generation = 42, cvr_term = t + 1, cvr_voteGiven = 1, cvr_flushLsn = 0x16B9200, cvr_truncateLsn = 0x16B9188,
      cvr_termHistory = [\<lparr>tl_term = 1, tl_lsn = 0x16B9188\<rparr>]\<rparr>"

lemma vote_read:
  assumes "w = (voting t)\<lparr>wp_safekeeper := [(greeted t)\<lparr>cs_state := SS_WAIT_VERDICT, cs_inbox := [vote_bytes t]\<rparr>]\<rparr>" and lt: "t < t + 1"
  shows "read_message sample_conf 0 (\<lambda>sk. CAVoteResponse (cs_voteResponse sk)) w =
      (Inr (Some (CAVoteResponse (vote_c t))), (voting t)\<lparr>wp_safekeeper := [(greeted t)\<lparr>cs_state := SS_WAIT_VERDICT, cs_inbox := []\<rparr>]\<rparr>)"
proof -
  have "fst (AsyncReadMessage 3 (CAVoteResponse old) (vote_bytes t)) = Inr (Some (CAVoteResponse (vote_c t)))" for old
    using read_vote_response [OF vote_bytes(2) [of t "t + 1"] vote_bytes(1) [of t]] lt by (simp add: sample_vote_def bool_u_def)
  then show ?thesis
    using read_message_run [of 0 w "vote_bytes t" "[]" sample_conf "\<lambda>sk. CAVoteResponse (cs_voteResponse sk)" "CAVoteResponse (vote_c t)"]
    by (simp add: assms(1) voting_def full)
qed

lemma vote_run:
  assumes "w = (voting t)\<lparr>wp_safekeeper := [(greeted t)\<lparr>cs_state := SS_WAIT_VERDICT, cs_inbox := [vote_bytes t]\<rparr>]\<rparr>" and lt: "t < t + 1"
  shows "\<exists>w'. RecvVoteResponse sample_conf 0 w = HandleElectedProposer sample_conf w' \<and> core_is WPS_ELECTED (t + 1) sample_cmconf w'"
proof -
  note r = vote_read [OF assms]
  let ?w1 = "(voting t)\<lparr>wp_safekeeper := [(greeted t)\<lparr>cs_state := SS_WAIT_ELECTED, cs_inbox := [], cs_voteResponse := vote_c t, cs_entries_null := False\<rparr>]\<rparr>"
  have "\<exists>w'. VotesCollected ?w1 = (Inr True, w') \<and> same_core ?w1 w'"
    unfolding VotesCollected_def run_simps id_apply Let_def
    by (simp add: voting_def full run_simps VotesCollectedMset_def member_slots_def ptr0_def take_vote_def GetLastLogTerm_def vote_history_def
        GetHighestTerm_def steps map_res_def MsetHasQuorum_def MsetQuorum_def WalProposerGenerationsEnabled_def INVALID_GENERATION_def same_core_def)
  then obtain w' where w': "VotesCollected ?w1 = (Inr True, w')" "same_core ?w1 w'" by blast
  have "RecvVoteResponse sample_conf 0 w = HandleElectedProposer sample_conf (w'\<lparr>wp_state := WPS_ELECTED\<rparr>)"
    using r w'(1) unfolding RecvVoteResponse_def assms(1) voting_def full
    by (simp add: steps)
  moreover have "core_is WPS_ELECTED (t + 1) sample_cmconf (w'\<lparr>wp_state := WPS_ELECTED\<rparr>)"
    using w'(2) by (simp add: core_is_def same_core_def voting_def)
  ultimately show ?thesis by blast
qed


definition sample_events :: "Term \<Rightarrow> wp_event list" where
  "sample_events t = [Start, Poll 0 ev_wr, Poll 0 ev_rd, Deliver 0 (greet_bytes t), Poll 0 ev_rd, Deliver 0 (vote_bytes t), Poll 0 ev_rd]"

lemmas advance_defs = AdvancePollState_def AssertEventsOkForState_def SafekeeperStateDesiredEvents_def both_events_def no_events_def any_event_def

context active_frame
begin

text \<open>What the frame keeps still holds after the poll in which the last vote is read.\<close>

lemma active_last_vote:
  assumes "RecvVoteResponse sample_conf 0 w = HandleElectedProposer sample_conf w1" and "P w1"
    and "cs_state (sk_at w 0) = SS_WAIT_VERDICT" and "wp_clock w = 0"
  shows "\<exists>r w'. wp_exec sample_conf (Poll 0 ev_rd) w = (r, w') \<and> P w'"
proof -
  have "wp (RecvVoteResponse sample_conf 0) (\<lambda>_. P) (\<lambda>_. P) w"
    using keepsD [OF active_handle_elected assms(2), of sample_conf] assms(1) by (simp add: wp_def)
  then have a: "wp (AdvancePollState sample_conf 0 (no_events\<lparr>ev_readable := True\<rparr>)) (\<lambda>_. P) (\<lambda>_. P) w"
    using assms(3) by (simp add: advance_defs wp_simps Let_def)
  have c: "w\<lparr>wp_clock := 0\<rparr> = w" using assms(4) by (cases w) simp
  have t: "wp (poll_tail sample_conf r) (\<lambda>_. P) (\<lambda>_. P) w" if "P w" for r w by (rule keepsD [OF frame_poll_tail that])
  have "wp (poll_round sample_conf ev_rd) (\<lambda>_. P) (\<lambda>_. P) w"
    unfolding poll_round_def ev_rd_def using wp_mono [OF a] t by (simp add: wp_simps)
  then have "wp (wp_exec sample_conf (Poll 0 ev_rd)) (\<lambda>_. P) (\<lambda>_. P) w"
    unfolding wp_exec.simps WalProposerPoll.simps wp_thenE wp_modifyE c wp_bindE by (rule wp_mono) (simp_all add: wp_simps)
  then show ?thesis unfolding wp_snd by (intro exI conjI) (rule prod.collapse [symmetric])
qed

end

lemma poll_run:
  assumes "AdvancePollState sample_conf 0 ev w = (Inr (), w')" and "any_event ev" and "wp_clock w = 0"
    and "wp_clock w' = 0" and "wp_last_reconnect_attempt w' = 0"
  shows "wp_exec sample_conf (Poll 0 (WaitSocket 0 ev)) w = (Inr (), w')"
proof -
  have c: "w\<lparr>wp_clock := 0\<rparr> = w" using assms(3) by (cases w) simp
  show ?thesis
    using assms by (simp add: c poll_round_def poll_tail_def ReconnectSafekeepers_def ttr steps)
qed

lemma step7:
  assumes lt: "t < t + 1"
  shows "\<exists>r w'. wp_exec sample_conf (Poll 0 ev_rd)
       ((voting t)\<lparr>wp_safekeeper := [(greeted t)\<lparr>cs_state := SS_WAIT_VERDICT, cs_inbox := [vote_bytes t]\<rparr>]\<rparr>) = (r, w') \<and>
     core_is WPS_ELECTED (t + 1) sample_cmconf w'"
  using vote_run [OF refl lt] elected_core.active_last_vote by (fastforce simp: voting_def)

lemma wp_run_on:
  assumes "wp_run A w0 evs True w" and "wp_exec A ev w = (Inr x, w')" and "wp_event_ok w ev"
  shows "wp_run A w0 (evs @ [ev]) True w'"
  using wp_run_step [OF assms(1,3,2)] by simp

lemma run_to_greeting: "wp_run sample_conf sample_start [Start, Poll 0 ev_wr, Poll 0 ev_rd] True sent_greeting"
proof -
  have "wp_run sample_conf sample_start ((([] @ [Start]) @ [Poll 0 ev_wr]) @ [Poll 0 ev_rd]) True sent_greeting"
    by (rule wp_run_on [OF wp_run_on [OF wp_run_on [OF wp_run_nil step1] step2] step3]) (simp_all add: ev_wr_def ev_rd_def)
  then show ?thesis by simp
qed

lemma run_to_vote: "wp_run sample_conf sample_start [Start, Poll 0 ev_wr, Poll 0 ev_rd, Deliver 0 (greet_bytes t), Poll 0 ev_rd, Deliver 0 (vote_bytes t)] True
      ((voting t)\<lparr>wp_safekeeper := [(greeted t)\<lparr>cs_state := SS_WAIT_VERDICT, cs_inbox := [vote_bytes t]\<rparr>]\<rparr>)"
proof -
  have "wp_run sample_conf sample_start ((([Start, Poll 0 ev_wr, Poll 0 ev_rd] @ [Deliver 0 (greet_bytes t)]) @ [Poll 0 ev_rd]) @ [Deliver 0 (vote_bytes t)]) True
      ((voting t)\<lparr>wp_safekeeper := [(greeted t)\<lparr>cs_state := SS_WAIT_VERDICT, cs_inbox := [vote_bytes t]\<rparr>]\<rparr>)"
    by (rule wp_run_on [OF wp_run_on [OF wp_run_on [OF run_to_greeting step4] step5] step6])
      (simp_all add: ev_rd_def voting_def sent_greeting_def)
  then show ?thesis by simp
qed

lemma sample_election:
  assumes "t < t + 1"
  shows "\<exists>alive w. wp_run sample_conf sample_start (sample_events t) alive w \<and> core_is WPS_ELECTED (t + 1) sample_cmconf w"
proof -
  obtain r w where w: "wp_exec sample_conf (Poll 0 ev_rd)
       ((voting t)\<lparr>wp_safekeeper := [(greeted t)\<lparr>cs_state := SS_WAIT_VERDICT, cs_inbox := [vote_bytes t]\<rparr>]\<rparr>) = (r, w)"
    "core_is WPS_ELECTED (t + 1) sample_cmconf w" using step7 [OF assms] by blast
  from wp_run_step [OF run_to_vote _ w(1)] show ?thesis
    using w(2) unfolding sample_events_def by (auto simp: ev_rd_def voting_def)
qed


lemma sample_honest: "\<forall>ev \<in> set (sample_events t). one_node_per_slot sample_conf (\<lambda>_. 1) ev"
  by (auto simp: sample_events_def one_node_per_slot_def read_greet read_other)

lemma sample_grants:
  assumes "Deliver i b \<in> set (sample_events t)" and "grants sample_conf u b"
  shows "b = vote_bytes t"
  using assms by (auto simp: sample_events_def grants_def read_other)

lemma sample_core: "core_is WPS_ELECTED u sample_cmconf w \<Longrightarrow> wp_state w = WPS_ELECTED \<and> wp_propTerm w = u \<and>
    \<not> no_generations w \<and> [sample_member] \<in> member_sets w"
  by (auto simp: core_is_def no_generations_def member_sets_def INVALID_GENERATION_def)

text \<open>A node that votes in term 4 and then in term 5.\<close>

definition sample_history :: "node_event list" where
  "sample_history =
     [Message (PVoteRequest \<lparr>vq_generation = 42, vq_term = 4\<rparr>) (Inr (Some (AVoteResponse (sample_vote 3 4)))),
      Message (PVoteRequest \<lparr>vq_generation = 42, vq_term = 5\<rparr>) (Inr (Some (AVoteResponse (sample_vote 4 5))))]"

lemma sample_node_run: "node_run node_codec sample_env (SkLoaded (sample_node 3 0)) sample_history (SkLoaded (sample_node 5 (Suc 1)))"
proof -
  have a: "node_step node_codec sample_env (SkLoaded (sample_node 3 0)) (sample_history ! 0) (SkLoaded (sample_node 4 1))"
    by (simp add: sample_history_def sample_node_votes)
  have b: "node_step node_codec sample_env (SkLoaded (sample_node 4 1)) (sample_history ! 1) (SkLoaded (sample_node 5 (Suc 1)))"
    by (simp add: sample_history_def sample_node_votes)
  show ?thesis using run_step [OF run_step [OF run_nil a] b] by (simp add: sample_history_def)
qed

lemma sample_votes_from:
  assumes "(t, k) = (3, 0) \<or> (t, k) = (4, 1)"
  shows "votes_from 0 sample_conf (\<lambda>_. 1) (sample_events t) (\<lambda>_. sample_history) (\<lambda>_ _. k)"
proof -
  have "\<exists>v. sample_history ! k = Message (PVoteRequest v) (Inr (Some (AVoteResponse (sample_vote t (t + 1)))))" "k < length sample_history"
    using assms by (auto simp: sample_history_def)
  then show ?thesis
    using vote_bytes [of t] sample_grants [of _ _ t] unfolding votes_from_def conf_fields(1) by metis
qed

section \<open>Properties\<close>

text \<open>C5: Take any run of a proposer from its creation, with messages arriving, connections failing
  and the callbacks answering in any way, in which every greeting on a connection introduces the
  same node and lists no member twice (\<open>one_node_per_slot\<close>). If the proposer is elected with a
  membership configuration in use, then for each set of members its election needs, granted votes
  for its term have been delivered from connections to more than half of the members of that set.
  The code does not check the condition on the greetings; without it the statement is false, as the
  run in \<open>Proposer_Errors\<close> shows.\<close>

theorem elected_by_majority:
  assumes "WalProposerCreate A epoch mine dn = Inr w0" and "wp_run A w0 evs alive w"
    and "\<forall>ev \<in> set evs. one_node_per_slot A ident ev"
    and "wp_state w = WPS_ELECTED" and "\<not> no_generations w" and "ms \<in> member_sets w"
  shows "majority A ident evs (wp_propTerm w) ms"
  using wp_run_inv [OF assms(2) create_inv [OF assms(1)] assms(3)] assms(4-6) won_majority
  by (simp add: elect_inv_def)

theorem elected_by_majority_witness:
  "majority sample_conf (\<lambda>_. 1) (sample_events 3) 4 [sample_member]"
proof -
  obtain alive w where w: "wp_run sample_conf sample_start (sample_events 3) alive w" "core_is WPS_ELECTED 4 sample_cmconf w"
    using sample_election [of 3] by auto
  show ?thesis
    using elected_by_majority [OF sample_created w(1) sample_honest] sample_core [OF w(2)] by auto
qed

text \<open>C1: Two proposers whose elections need majorities of a common set of members are never elected
  in the same term. The votes come from runs of the safekeeper nodes, with crashes and restarts,
  over the wire format, and a reply to one proposer is not a reply to the other. The nodes run with
  fsync on and 16 MB segments (\<open>ssk_ok\<close>), both proposers have a membership configuration in use,
  and each connection of a proposer leads to one node (\<open>one_node_per_slot\<close>).\<close>

theorem one_leader_per_term:
  assumes "WalProposerCreate A1 epoch1 mine1 dn1 = Inr u1" and "wp_run A1 u1 evs1 alive1 w1"
    and "\<forall>ev \<in> set evs1. one_node_per_slot A1 ident1 ev"
    and "WalProposerCreate A2 epoch2 mine2 dn2 = Inr u2" and "wp_run A2 u2 evs2 alive2 w2"
    and "\<forall>ev \<in> set evs2. one_node_per_slot A2 ident2 ev"
    and "\<forall>n. ssk_ok K E (start n) \<and> node_run K E (start n) (hist n) (final n)"
    and "votes_from epoch A1 ident1 evs1 hist src1" and "votes_from epoch A2 ident2 evs2 hist src2"
    and "\<forall>i b j c. Deliver i b \<in> set evs1 \<longrightarrow> Deliver j c \<in> set evs2 \<longrightarrow> ident1 i = ident2 j \<longrightarrow> src1 i b \<noteq> src2 j c"
    and "wp_state w1 = WPS_ELECTED" and "\<not> no_generations w1" and "wp_state w2 = WPS_ELECTED" and "\<not> no_generations w2"
    and "ms \<in> member_sets w1" and "ms \<in> member_sets w2"
  shows "wp_propTerm w1 \<noteq> wp_propTerm w2"
proof
  assume t: "wp_propTerm w1 = wp_propTerm w2"
  have "won A1 ident1 evs1 w1" "won A2 ident2 evs2 w2"
    using wp_run_inv [OF assms(2) create_inv [OF assms(1)] assms(3)] wp_run_inv [OF assms(5) create_inv [OF assms(4)] assms(6)] assms(11,13)
    by (simp_all add: elect_inv_def)
  then show False
    using majorities_conflict [OF assms(8,9,7,10)] won_majority assms(12,14-16) t by metis
qed

theorem one_leader_per_term_witness:
  "\<exists>a1 w1 a2 w2. wp_run sample_conf sample_start (sample_events 3) a1 w1 \<and> wp_run sample_conf sample_start (sample_events 4) a2 w2 \<and>
     wp_state w1 = WPS_ELECTED \<and> wp_state w2 = WPS_ELECTED \<and> wp_propTerm w1 \<noteq> wp_propTerm w2"
proof -
  obtain a1 w1 where w1: "wp_run sample_conf sample_start (sample_events 3) a1 w1" "core_is WPS_ELECTED 4 sample_cmconf w1"
    using sample_election [of 3] by auto
  obtain a2 w2 where w2: "wp_run sample_conf sample_start (sample_events 4) a2 w2" "core_is WPS_ELECTED 5 sample_cmconf w2"
    using sample_election [of 4] by auto
  have n: "\<forall>n :: NodeId. ssk_ok node_codec sample_env (SkLoaded (sample_node 3 0)) \<and>
      node_run node_codec sample_env (SkLoaded (sample_node 3 0)) sample_history (SkLoaded (sample_node 5 (Suc 1)))"
    using sample_node_ok sample_node_run by blast
  have "wp_propTerm w1 \<noteq> wp_propTerm w2"
    by (rule one_leader_per_term [OF sample_created w1(1) sample_honest sample_created w2(1) sample_honest n
          sample_votes_from [of 3 0] sample_votes_from [of 4 1], where ms = "[sample_member]"])
      (use sample_core [OF w1(2)] sample_core [OF w2(2)] in simp_all)
  then show ?thesis using w1 w2 sample_core [OF w1(2)] sample_core [OF w2(2)] by blast
qed

end
