(* ===== verification/Streaming.thy ===== *)
theory Streaming
  imports Leader
begin

text \<open>
  What a connection is sent over a run of the proposer: the append requests on it follow the
  position announced when the proposer was elected, one after the other.
\<close>

section \<open>The stream of a connection\<close>

text \<open>The last message handed to a connection, and the position the next append request has to start at.\<close>

fun last_to :: "nat \<Rightarrow> (nat \<times> c_ProposerAcceptorMessage) list \<Rightarrow> c_ProposerAcceptorMessage option" where
  "last_to i [] = None"
| "last_to i ((j, m) # ms) = (case last_to i ms of Some n \<Rightarrow> Some n | None \<Rightarrow> if j = i then Some m else None)"

fun next_lsn :: "c_ProposerAcceptorMessage option \<Rightarrow> lsn option" where
  "next_lsn (Some (CElected e)) = Some (pe_start_streaming_at e)"
| "next_lsn (Some (CAppendRequest r)) = Some (ah_end_lsn r)"
| "next_lsn _ = None"

definition in_order :: "(nat \<times> c_ProposerAcceptorMessage) list \<Rightarrow> bool" where
  "in_order sent \<longleftrightarrow> (\<forall>before i r after. sent = before @ (i, CAppendRequest r) # after \<longrightarrow>
     req_ok r \<and> next_lsn (last_to i before) = Some (ah_begin_lsn r))"

lemma last_to_snoc [simp]: "last_to i (ms @ [(j, m)]) = (if j = i then Some m else last_to i ms)"
  by (induction ms) (auto split: option.splits)

lemma in_orderD:
  "in_order sent \<Longrightarrow> sent = before @ (i, CAppendRequest r) # after \<Longrightarrow> req_ok r \<and> next_lsn (last_to i before) = Some (ah_begin_lsn r)"
  unfolding in_order_def by (erule allE, erule allE, erule allE, erule allE, erule mp, assumption)

lemma in_order_snoc:
  "in_order (ms @ [(i, m)]) \<longleftrightarrow> in_order ms \<and>
     (\<forall>r. m = CAppendRequest r \<longrightarrow> req_ok r \<and> next_lsn (last_to i ms) = Some (ah_begin_lsn r))"
proof
  assume a: "in_order (ms @ [(i, m)])"
  have "req_ok r \<and> next_lsn (last_to j before) = Some (ah_begin_lsn r)" if "ms = before @ (j, CAppendRequest r) # after" for before j r after
    using a that unfolding in_order_def by (elim allE [of _ before] allE [of _ j] allE [of _ r] allE [of _ "after @ [(i, m)]"]) simp
  moreover have "req_ok r \<and> next_lsn (last_to i ms) = Some (ah_begin_lsn r)" if "m = CAppendRequest r" for r
    using a that unfolding in_order_def by (elim allE [of _ ms] allE [of _ i] allE [of _ r] allE [of _ "[]"]) simp
  ultimately show "in_order ms \<and> (\<forall>r. m = CAppendRequest r \<longrightarrow> req_ok r \<and> next_lsn (last_to i ms) = Some (ah_begin_lsn r))"
    unfolding in_order_def by blast
next
  assume a: "in_order ms \<and> (\<forall>r. m = CAppendRequest r \<longrightarrow> req_ok r \<and> next_lsn (last_to i ms) = Some (ah_begin_lsn r))"
  have "req_ok r \<and> next_lsn (last_to j before) = Some (ah_begin_lsn r)"
    if "ms @ [(i, m)] = before @ (j, CAppendRequest r) # after" for before j r after
    using a that by (cases after rule: rev_cases) (auto simp: in_order_def)
  then show "in_order (ms @ [(i, m)])" unfolding in_order_def by blast
qed

text \<open>Where the proposer takes the stream of a slot to be.\<close>

definition slot_stream :: "lsn option \<Rightarrow> c_Safekeeper \<Rightarrow> bool" where
  "slot_stream p s \<longleftrightarrow>
     (cs_state s = SS_SEND_ELECTED_FLUSH \<longrightarrow> p = Some (cs_startStreamingAt s)) \<and>
     (cs_state s = SS_ACTIVE \<longrightarrow> p = Some (cs_streamingAt s) \<and>
        (cs_active_state s = SS_ACTIVE_READ_WAL \<longrightarrow>
           req_ok (cs_appendRequest s) \<and> ah_begin_lsn (cs_appendRequest s) = cs_streamingAt s))"

definition stream_inv :: "c_WalProposer \<Rightarrow> bool" where
  "stream_inv w \<longleftrightarrow> in_order (wp_sent w) \<and>
     (\<forall>i < length (wp_safekeeper w). slot_stream (next_lsn (last_to i (wp_sent w))) (sk_at w i))"

lemma stream_inv_slot:
  assumes "stream_inv w" and "i < length (wp_safekeeper w) \<Longrightarrow> slot_stream (next_lsn (last_to i (wp_sent w))) s"
  shows "stream_inv (w\<lparr>wp_safekeeper := (wp_safekeeper w)[i := s]\<rparr>)"
proof -
  have "slot_stream (next_lsn (last_to j (wp_sent w))) ((wp_safekeeper w)[i := s] ! j)" if "j < length (wp_safekeeper w)" for j
    using assms that by (cases "i = j") (auto simp: stream_inv_def)
  then show ?thesis using assms(1) by (simp add: stream_inv_def)
qed

lemma slot_stream_still: "slot_stream p s \<Longrightarrow> slot_still s s' \<Longrightarrow> slot_stream p s'"
  by (auto simp: slot_stream_def slot_still_def slot_defs)

lemma stream_inv_nth: "stream_inv w \<Longrightarrow> i < length (wp_safekeeper w) \<Longrightarrow> slot_stream (next_lsn (last_to i (wp_sent w))) (sk_at w i)"
  by (simp add: stream_inv_def)

interpretation stream: still_frame stream_inv
proof unfold_locales
  show "stream_inv w \<Longrightarrow> still w w' \<Longrightarrow> stream_inv w'" for w w' by (simp add: stream_inv_def still_def same_core_def)
qed (blast intro: stream_inv_slot slot_stream_still stream_inv_nth)

lemma stream_modify: "(\<And>w. wp_sent (f w) = wp_sent w \<and> wp_safekeeper (f w) = wp_safekeeper w) \<Longrightarrow> keeps stream_inv (modifyE f)"
  by (rule keeps_modifyE) (simp add: stream_inv_def)

lemma stream_idle:
  assumes "\<And>s. cs_state (f s) \<noteq> SS_SEND_ELECTED_FLUSH \<and> cs_state (f s) \<noteq> SS_ACTIVE"
  shows "keeps stream_inv (upd_sk i f)"
  unfolding upd_sk_def by (rule keeps_modifyE) (use assms in \<open>simp add: stream_inv_slot slot_stream_def\<close>)

text \<open>A message that is no append request, on a connection that does not stream.\<close>

lemma stream_BlockingWrite:
  assumes "\<And>r. m \<noteq> CAppendRequest r" and "st \<noteq> SS_SEND_ELECTED_FLUSH" and "st \<noteq> SS_ACTIVE"
  shows "keeps stream_inv (BlockingWrite i m st)"
proof (rule keepsI)
  have "stream_inv (w\<lparr>wp_sent := wp_sent w @ [(i, m)], wp_safekeeper := (wp_safekeeper w)[i := (sk_at w i)\<lparr>cs_state := st\<rparr>]\<rparr>)"
    if "stream_inv w" for w
  proof -
    have "slot_stream p ((sk_at w i)\<lparr>cs_state := st\<rparr>)" for p using assms(2,3) by (simp add: slot_stream_def)
    then show ?thesis using that assms(1) by (simp add: stream_inv_def in_order_snoc nth_list_update)
  qed
  then have c: "wp (if r = RepFail then thenE (ShutdownConnection i) (retE False)
      else thenE (log_sent i m) (thenE (upd_sk i (\<lambda>s. s\<lparr>cs_state := st\<rparr>)) (retE True))) (\<lambda>_. stream_inv) (\<lambda>_. stream_inv) w"
    if "stream_inv w" for r w
  proof (cases "r = RepFail")
    case True
    have "keeps stream_inv (thenE (ShutdownConnection i) (retE False))" by (intro keeps_intros)
    from keepsD [OF this that] show ?thesis using True by simp
  qed (use that in \<open>simp add: wp_simps log_sent_def\<close>)
  fix w assume w: "stream_inv w"
  show "wp (BlockingWrite i m st) (\<lambda>_. stream_inv) (\<lambda>_. stream_inv) w"
    unfolding BlockingWrite_def wp_bindE by (rule wp_mono [OF keepsD [OF stream.frame_basic(1) w]]) (rule c)
qed

lemma stream_greet [keeps_intros]: "keeps stream_inv (RecvStartWALPushResult A i)" "keeps stream_inv (SendVoteRequest A i)"
  unfolding RecvStartWALPushResult_def SendProposerGreeting_def SendVoteRequest_def
  by (intro keeps_intros stream_BlockingWrite; simp)+

lemma stream_members [keeps_intros]:
  "keeps stream_inv (UpdateMemberSafekeeperPtr i)" "keeps stream_inv ResetMemberSafekeeperPtrs" "keeps stream_inv (adopt_mconf mc)"
  "keeps stream_inv TermsCollected"
  unfolding UpdateMemberSafekeeperPtr_def ResetMemberSafekeeperPtrs_def adopt_mconf_def TermsCollected_def Let_def
  by (intro keeps_intros stream_modify; simp)+

lemma stream_same:
  assumes "\<And>s. cs_state (f s) = cs_state s \<and> cs_active_state (f s) = cs_active_state s \<and> cs_streamingAt (f s) = cs_streamingAt s \<and>
      cs_startStreamingAt (f s) = cs_startStreamingAt s \<and> cs_appendRequest (f s) = cs_appendRequest s"
  shows "keeps stream_inv (upd_sk i f)"
  unfolding upd_sk_def
proof (rule keeps_modifyE)
  fix w assume w: "stream_inv w"
  show "stream_inv (w\<lparr>wp_safekeeper := (wp_safekeeper w)[i := f (sk_at w i)]\<rparr>)"
    by (rule stream_inv_slot [OF w]) (use stream_inv_nth [OF w] assms in \<open>simp add: slot_stream_def\<close>)
qed

lemma stream_slot [keeps_intros]:
  "keeps stream_inv (upd_sk i (\<lambda>s. s\<lparr>cs_state := SS_WAIT_VOTING\<rparr>))" "keeps stream_inv (upd_sk i (\<lambda>s. s\<lparr>cs_state := SS_WAIT_ELECTED\<rparr>))"
  "keeps stream_inv (upd_sk i (\<lambda>s. s\<lparr>cs_greetResponse := g\<rparr>))" "keeps stream_inv (upd_sk i (\<lambda>s. s\<lparr>cs_appendResponse := a\<rparr>))"
  "keeps stream_inv (upd_sk i (\<lambda>s. s\<lparr>cs_voteResponse := v, cs_entries_null := False\<rparr>))"
  by (rule stream_idle, simp, rule stream_idle, simp, (rule stream_same, simp)+)

lemma stream_greeting [keeps_intros]: "keeps stream_inv (RecvAcceptorGreeting A i)"
  unfolding RecvAcceptorGreeting_def
  by (intro keeps_intros, case_tac y) (simp_all, (intro keeps_intros stream_modify; simp)+)

section \<open>Sending\<close>

text \<open>A slot that streams and has no bytes of an earlier message left to flush.\<close>

definition can_send :: "nat \<Rightarrow> c_WalProposer \<Rightarrow> bool" where
  "can_send i w \<longleftrightarrow> stream_inv w \<and> i < length (wp_safekeeper w) \<and> cs_state (sk_at w i) = SS_ACTIVE \<and>
     cs_active_state (sk_at w i) \<noteq> SS_ACTIVE_FLUSH"

lemma stream_prepare:
  assumes "can_send i w" and "cs_active_state (sk_at w i) = SS_ACTIVE_SEND"
  shows "wp (prepare_round A i) (\<lambda>_ w'. can_send i w' \<and> cs_active_state (sk_at w' i) = SS_ACTIVE_READ_WAL) (\<lambda>_. stream_inv) w"
proof -
  define b where "b = cs_streamingAt (sk_at w i)"
  define e where "e = (if b + word_of_nat MAX_SEND_SIZE > wp_availableLsn w then wp_availableLsn w else b + word_of_nat MAX_SEND_SIZE)"
  have e: "e \<le> b + word_of_nat MAX_SEND_SIZE \<or> e = b + word_of_nat MAX_SEND_SIZE" by (auto simp: e_def)
  have ok: "req_ok \<lparr>ah_generation = g, ah_term = t, ah_begin_lsn = b, ah_end_lsn = e, ah_commit_lsn = c, ah_truncate_lsn = tr\<rparr>"
    if "b \<le> e" for g t c tr
    using that request_range_ok [OF that e] by (simp add: req_ok_def)
  have i: "i < length (wp_safekeeper w)" and w: "stream_inv w" using assms(1) by (simp_all add: can_send_def)
  have s: "slot_stream (next_lsn (last_to i (wp_sent w))) (sk_at w i)" by (rule stream_inv_nth [OF w i])
  have "stream_inv (w\<lparr>wp_safekeeper := (wp_safekeeper w)[i := (sk_at w i)\<lparr>cs_appendRequest := r\<rparr>]\<rparr>)" for r
    by (rule stream_inv_slot [OF w]) (use s assms(2) in \<open>simp add: slot_stream_def\<close>)
  moreover have "stream_inv (w\<lparr>wp_safekeeper := (wp_safekeeper w)[i := (sk_at w i)\<lparr>cs_appendRequest := r, cs_active_state := SS_ACTIVE_READ_WAL\<rparr>]\<rparr>)"
    if "req_ok r" "ah_begin_lsn r = b" for r
    by (rule stream_inv_slot [OF w]) (use s that in \<open>simp add: slot_stream_def b_def\<close>)
  ultimately show ?thesis
  proof (intro wp_runI, goal_cases)
    case (1 err w')
    then show ?case
      using w by (auto simp: prepare_round_def PrepareAppendRequest_def wp_serialize_def bindE_def thenE_def getE_def guardE_def liftR_def
          Let_def split: sum.splits if_splits)
  next
    case (2 x w')
    then show ?case
      using prepare_round_ok [OF 2(3) i, folded b_def, folded e_def] ok assms(1) i by (simp add: can_send_def)
  qed
qed

lemma stream_down:
  "stream_inv w \<Longrightarrow> wp_sent w' = wp_sent w \<Longrightarrow> wp_safekeeper w' = (wp_safekeeper w)[i := s] \<Longrightarrow> cs_state s = SS_OFFLINE \<Longrightarrow> stream_inv w'"
  using stream_inv_slot [of w i s] by (simp add: stream_inv_def slot_stream_def)

lemma stream_sent:
  assumes w: "can_send i w" "cs_active_state (sk_at w i) = SS_ACTIVE_READ_WAL"
    and w': "wp_sent w' = wp_sent w @ [(i, CAppendRequest (cs_appendRequest (sk_at w i)))]" "wp_safekeeper w' = (wp_safekeeper w)[i := s]"
    and s: "cs_streamingAt s = ah_end_lsn (cs_appendRequest (sk_at w i))" "cs_active_state s \<noteq> SS_ACTIVE_READ_WAL"
      "cs_state s = SS_ACTIVE"
  shows "stream_inv w'"
proof -
  have i: "i < length (wp_safekeeper w)" and inv: "stream_inv w" using w(1) by (simp_all add: can_send_def)
  have "in_order (wp_sent w')"
    using stream_inv_nth [OF inv i] inv w by (auto simp: w'(1) in_order_snoc stream_inv_def slot_stream_def can_send_def)
  moreover have "slot_stream (next_lsn (last_to j (wp_sent w'))) (sk_at w' j)" if "j < length (wp_safekeeper w')" for j
    using that inv s w' by (cases "i = j") (auto simp: stream_inv_def slot_stream_def)
  ultimately show ?thesis by (simp add: stream_inv_def)
qed

lemma stream_write:
  assumes "can_send i w" and "cs_active_state (sk_at w i) = SS_ACTIVE_READ_WAL"
  shows "wp (write_request i) (\<lambda>r w'. stream_inv w' \<and> (r = None \<longrightarrow> can_send i w')) (\<lambda>_. stream_inv) w"
proof -
  have i: "i < length (wp_safekeeper w)" and w: "stream_inv w" "cs_state (sk_at w i) = SS_ACTIVE" using assms(1) by (simp_all add: can_send_def)
  have r: "stream_inv (w\<lparr>wp_replies := rs\<rparr>)" for rs using w(1) by (simp add: stream_inv_def)
  note down = stream_down [OF w(1), of _ i]
  note sent = stream_sent [OF assms]
  show ?thesis
    unfolding wp_def write_request_def
    using w i r by (auto simp: api_call_run bindE_def thenE_def ShutdownConnection_def can_send_def
      split: wp_reply.splits prod.splits sum.splits if_splits intro: down sent)
qed

lemma stream_round:
  assumes "can_send i w"
  shows "wp (send_round A i) (\<lambda>r w'. stream_inv w' \<and> (r = None \<longrightarrow> can_send i w')) (\<lambda>_. stream_inv) w"
proof (cases "cs_active_state (sk_at w i)")
  case SS_ACTIVE_SEND
  then show ?thesis
    unfolding send_round_def wp_bindE wp_getE wp_thenE
    using stream_prepare [OF assms SS_ACTIVE_SEND, of A] by (simp, elim wp_mono) (simp_all add: stream_write)
next
  case SS_ACTIVE_READ_WAL
  then show ?thesis using stream_write [OF assms] by (simp add: send_round_def wp_simps)
qed (use assms in \<open>simp add: can_send_def\<close>)

lemma stream_loop: "stream_inv w \<Longrightarrow> i < length (wp_safekeeper w) \<longrightarrow> can_send i w \<Longrightarrow>
    wp (send_loop A i sent) (\<lambda>_. stream_inv) (\<lambda>_. stream_inv) w"
proof (induction A i sent w rule: send_loop.induct)
  case (1 A i sent w)
  show ?case
  proof (cases "i < length (wp_safekeeper w)")
    case True
    note r = wp_runD [OF stream_round, of i w A]
    show ?thesis
      using 1 True r unfolding wp_def send_loop.simps [of A i sent w]
      by (auto split: prod.splits sum.splits option.splits)
  qed (use 1(2) in \<open>simp add: wp_def send_loop.simps [of A i sent w]\<close>)
qed

lemma stream_flush:
  assumes "stream_inv w"
  shows "wp (AsyncFlush i) (\<lambda>ok w'. stream_inv w' \<and> (ok \<longrightarrow> w' = w\<lparr>wp_replies := tl (wp_replies w)\<rparr>)) (\<lambda>_. stream_inv) w"
proof (rule wp_runI)
  note k = keeps_snd [OF stream.frame_connection(2) assms, of i]
  show "AsyncFlush i w = (Inl e, w') \<Longrightarrow> stream_inv w'" for e w' using k by simp
  show "stream_inv w' \<and> (ok \<longrightarrow> w' = w\<lparr>wp_replies := tl (wp_replies w)\<rparr>)" if "AsyncFlush i w = (Inr ok, w')" for ok w'
    using k that by (auto simp: AsyncFlush_def api_call_run bindE_def thenE_def split: wp_reply.splits list.splits prod.splits sum.splits)
qed

lemma stream_append:
  assumes "stream_inv w" and "i < length (wp_safekeeper w) \<longrightarrow> cs_state (sk_at w i) = SS_ACTIVE"
  shows "wp (SendAppendRequests A i) (\<lambda>_. stream_inv) (\<lambda>_. stream_inv) w"
proof (cases "cs_active_state (sk_at w i) = SS_ACTIVE_FLUSH")
  case True
  let ?w = "w\<lparr>wp_replies := tl (wp_replies w)\<rparr>"
  let ?u = "?w\<lparr>wp_safekeeper := (wp_safekeeper w)[i := (sk_at w i)\<lparr>cs_active_state := SS_ACTIVE_SEND\<rparr>]\<rparr>"
  have "stream_inv ?w" using assms(1) by (simp add: stream_inv_def)
  from stream_inv_slot [OF this, of i "(sk_at w i)\<lparr>cs_active_state := SS_ACTIVE_SEND\<rparr>"] have u: "stream_inv ?u"
    using stream_inv_nth [OF assms(1), of i] by (simp add: slot_stream_def)
  have "i < length (wp_safekeeper ?u) \<longrightarrow> can_send i ?u" using u assms(2) by (simp add: can_send_def)
  then have s: "wp (send_loop A i False) (\<lambda>_. stream_inv) (\<lambda>_. stream_inv) ?u" by (rule stream_loop [OF u])
  show ?thesis
    unfolding SendAppendRequests_def wp_bindE wp_getE if_P [OF True]
    by (rule wp_mono [OF stream_flush [OF assms(1)]]) (use s in \<open>auto simp: wp_simps\<close>)
next
  case False
  then have "i < length (wp_safekeeper w) \<longrightarrow> can_send i w" using assms by (simp add: can_send_def)
  then show ?thesis using stream_loop [OF assms(1)] False by (simp add: SendAppendRequests_def wp_simps)
qed

lemma stream_active_state:
  assumes "stream_inv w" and "i < length (wp_safekeeper w) \<longrightarrow> cs_state (sk_at w i) = SS_ACTIVE" and r: "keeps stream_inv (recv i)"
  shows "wp (HandleActiveState_with recv A i ev) (\<lambda>_. stream_inv) (\<lambda>_. stream_inv) w"
proof -
  have k: "keeps stream_inv (if \<not> ok then retE ()
     else bindE (if ev_readable ev then recv i else retE True) (\<lambda>ok.
     if \<not> ok then retE () else if ev_closed ev then ShutdownConnection i else retE ()))" for ok
    using r by (intro keeps_intros)
  have a: "wp (if c then SendAppendRequests A i else retE True) (\<lambda>_. stream_inv) (\<lambda>_. stream_inv) w" for c
    using stream_append [OF assms(1,2), of A] assms(1) by (simp add: wp_retE)
  show ?thesis
    unfolding HandleActiveState_with_def wp_bindE [of "getE f" for f] wp_getE wp_bindE [of "if c then SendAppendRequests A i else m" for c m]
    by (rule wp_mono [OF a]) (rule keepsD [OF k])
qed

lemma stream_send [keeps_intros]: "keeps stream_inv (SendMessageToNode A i)" "keeps stream_inv (BroadcastAppendRequest A)"
proof -
  show "keeps stream_inv (SendMessageToNode A i)" for i
    unfolding SendMessageToNode_def
    by (rule keepsI) (auto simp: wp_simps intro!: stream_active_state keeps_intros)
  then show "keeps stream_inv (BroadcastAppendRequest A)" unfolding BroadcastAppendRequest_def by (intro keeps_intros)
qed

section \<open>Receiving\<close>

lemma stream_response [keeps_intros]: "keeps stream_inv (HandleSafekeeperResponse A)"
  unfolding HandleSafekeeperResponse_def finish_sync_def by (intro keeps_intros stream_modify; simp add: Let_def)

lemma stream_recv_append [keeps_intros]: "keeps stream_inv (recv_append A i)"
  unfolding recv_append_def by (intro keeps_intros, case_tac y) (simp_all, (intro keeps_intros)+)

lemma stream_recv_loop [keeps_intros]: "keeps stream_inv (recv_loop A i)"
proof (rule keepsI)
  show "stream_inv w \<Longrightarrow> wp (recv_loop A i) (\<lambda>_. stream_inv) (\<lambda>_. stream_inv) w" for w
  proof (induction A i w rule: recv_loop.induct)
    case (1 A i w)
    have r: "stream_inv w'" if "recv_append A i w = (r, w')" for r w'
      using keeps_snd [OF stream_recv_append 1(2), of A i] that by simp
    show ?case
      using 1 r unfolding wp_def recv_loop.simps [of A i w] by (auto split: prod.splits sum.splits)
  qed
qed

lemma stream_handle_active:
  assumes "stream_inv w" and "cs_state (sk_at w i) = SS_ACTIVE"
  shows "wp (HandleActiveState A i ev) (\<lambda>_. stream_inv) (\<lambda>_. stream_inv) w"
  unfolding HandleActiveState_def RecvAppendResponses_def by (rule stream_active_state) (use assms in \<open>simp_all add: keeps_intros\<close>)

section \<open>The start of a stream\<close>

definition announced :: "nat \<Rightarrow> c_WalProposer \<Rightarrow> bool" where
  "announced i w \<longleftrightarrow> stream_inv w \<and>
     (i < length (wp_safekeeper w) \<longrightarrow> next_lsn (last_to i (wp_sent w)) = Some (cs_startStreamingAt (sk_at w i)))"

lemma stream_start:
  assumes "announced i w"
  shows "wp (StartStreaming A i) (\<lambda>_. stream_inv) (\<lambda>_. stream_inv) w"
proof -
  let ?f = "\<lambda>s. s\<lparr>cs_state := SS_ACTIVE, cs_active_state := SS_ACTIVE_SEND, cs_streamingAt := cs_startStreamingAt s\<rparr>"
  have u: "stream_inv (w\<lparr>wp_safekeeper := (wp_safekeeper w)[i := ?f (sk_at w i)]\<rparr>)"
    by (rule stream_inv_slot) (use assms in \<open>simp_all add: announced_def slot_stream_def\<close>)
  have "keeps stream_inv (thenE UpdateDonorShmem (SendMessageToNode A i))" by (intro keeps_intros)
  from keepsD [OF this u] show ?thesis unfolding StartStreaming_def wp_thenE [of "upd_sk i ?f"] wp_upd_sk .
qed

lemma stream_announce:
  assumes w: "stream_inv w" and s: "i < length (wp_safekeeper w) \<longrightarrow>
      cs_state (sk_at w i) = SS_WAIT_ELECTED \<and> cs_startStreamingAt (sk_at w i) = pe_start_streaming_at e"
  shows "wp (AsyncWrite i (CElected e) SS_SEND_ELECTED_FLUSH) (\<lambda>ok w'. if ok then announced i w' else stream_inv w') (\<lambda>_. stream_inv) w"
proof -
  let ?w = "w\<lparr>wp_replies := tl (wp_replies w)\<rparr>"
  let ?l = "?w\<lparr>wp_sent := wp_sent w @ [(i, CElected e)]\<rparr>"
  have l: "stream_inv ?l" "announced i ?l"
    using w s by (auto simp: stream_inv_def in_order_snoc announced_def slot_stream_def)
  have f: "stream_inv (?l\<lparr>wp_safekeeper := (wp_safekeeper w)[i := (sk_at w i)\<lparr>cs_state := SS_SEND_ELECTED_FLUSH\<rparr>]\<rparr>)"
    using stream_inv_slot [OF l(1), of i "(sk_at w i)\<lparr>cs_state := SS_SEND_ELECTED_FLUSH\<rparr>"] s by (simp add: slot_stream_def)
  have "stream_inv ?w" using w by (simp add: stream_inv_def)
  from keepsD [OF stream.frame_basic(3) this, of i] have d: "wp (ShutdownConnection i) (\<lambda>_. stream_inv) (\<lambda>_. stream_inv) ?w" .
  show ?thesis
    unfolding AsyncWrite_def wp_bindE
    using l f d by (auto simp: wp_def [of api_call] api_call_run wp_simps log_sent_def ShutdownConnection_def split: wp_reply.splits list.splits)
qed

lemma stream_elected:
  assumes w: "stream_inv w" and s: "i < length (wp_safekeeper w) \<longrightarrow> cs_state (sk_at w i) = SS_WAIT_ELECTED"
  shows "wp (SendProposerElected A i) (\<lambda>_. stream_inv) (\<lambda>_. stream_inv) w"
proof -
  have u: "stream_inv (w\<lparr>wp_safekeeper := (wp_safekeeper w)[i := (sk_at w i)\<lparr>cs_startStreamingAt := l\<rparr>]\<rparr>)" for l
    by (rule stream_inv_slot [OF w]) (use s in \<open>simp add: slot_stream_def\<close>)
  have a: "wp (bindE (AsyncWrite i (CElected \<lparr>pe_generation = g, pe_term = t, pe_start_streaming_at = l, pe_term_history = h\<rparr>) SS_SEND_ELECTED_FLUSH) (\<lambda>ok. if ok then StartStreaming A i else retE ()))
      (\<lambda>_. stream_inv) (\<lambda>_. stream_inv) (w\<lparr>wp_safekeeper := (wp_safekeeper w)[i := (sk_at w i)\<lparr>cs_startStreamingAt := l\<rparr>]\<rparr>)"
    for g t l h
    unfolding wp_bindE
    by (rule wp_mono [OF stream_announce [OF u]]) (use s in \<open>auto simp: stream_start wp_retE split: if_splits\<close>)
  show ?thesis
    unfolding SendProposerElected_def
    using w u a by (auto simp: wp_simps Let_def wp_serialize_def split: sum.splits)
qed

lemma stream_elected_loop [keeps_intros]:
  "keeps stream_inv (bindE (getE (\<lambda>w. cs_state (sk_at w i) = SS_WAIT_ELECTED)) (\<lambda>c. if c then SendProposerElected A i else retE ()))"
  by (rule keepsI) (auto simp: wp_simps stream_elected)

lemma stream_handle_elected [keeps_intros]: "keeps stream_inv (HandleElectedProposer A)"
  unfolding HandleElectedProposer_def ProcessPropStartPos_def finish_sync_def
  by (intro keeps_intros stream_modify; simp)

lemma stream_vote_tail:
  assumes "keeps stream_inv m"
  shows "keeps stream_inv (thenE (upd_sk i (\<lambda>s. s\<lparr>cs_state := SS_WAIT_ELECTED\<rparr>))
     (if c then m else thenE (c_assert b) (SendProposerElected A i)))"
proof (rule keepsI)
  fix w assume w: "stream_inv w"
  let ?w = "w\<lparr>wp_safekeeper := (wp_safekeeper w)[i := (sk_at w i)\<lparr>cs_state := SS_WAIT_ELECTED\<rparr>]\<rparr>"
  have u: "stream_inv ?w" by (rule stream_inv_slot [OF w]) (simp add: slot_stream_def)
  have "wp (SendProposerElected A i) (\<lambda>_. stream_inv) (\<lambda>_. stream_inv) ?w" by (rule stream_elected [OF u]) simp
  then show "wp (thenE (upd_sk i (\<lambda>s. s\<lparr>cs_state := SS_WAIT_ELECTED\<rparr>))
     (if c then m else thenE (c_assert b) (SendProposerElected A i))) (\<lambda>_. stream_inv) (\<lambda>_. stream_inv) w"
    using keepsD [OF assms u] u by (simp add: wp_simps)
qed

lemma stream_vote [keeps_intros]: "keeps stream_inv (RecvVoteResponse A i)"
  unfolding RecvVoteResponse_def
  by (intro keeps_intros, case_tac y) (simp_all, (intro stream_vote_tail keeps_intros stream_modify; simp)+)

section \<open>Runs\<close>

lemma stream_advance: "keeps stream_inv (AdvancePollState A i ev)"
proof (rule keepsI)
  fix w assume w: "stream_inv w"
  have f: "wp (bindE (AsyncFlush i) (\<lambda>ok. if ok then StartStreaming A i else retE ())) (\<lambda>_. stream_inv) (\<lambda>_. stream_inv) w"
    if "cs_state (sk_at w i) = SS_SEND_ELECTED_FLUSH"
    unfolding wp_bindE
    by (rule wp_mono [OF stream_flush [OF w]])
      (use that stream_inv_nth [OF w, of i] in \<open>auto simp: wp_retE announced_def slot_stream_def intro!: stream_start\<close>)
  have k: "keeps stream_inv m \<Longrightarrow> wp m (\<lambda>_. stream_inv) (\<lambda>_. stream_inv) w" for m :: "unit wp"
    by (erule keepsD) (rule w)
  have "wp (case cs_state (sk_at w i) of
        SS_OFFLINE \<Rightarrow> fatal ''unexpected safekeeper state advancement: is offline''
      | SS_CONNECTING_READ \<Rightarrow> HandleConnectionEvent i
      | SS_CONNECTING_WRITE \<Rightarrow> HandleConnectionEvent i
      | SS_WAIT_EXEC_RESULT \<Rightarrow> RecvStartWALPushResult A i
      | SS_HANDSHAKE_RECV \<Rightarrow> RecvAcceptorGreeting A i
      | SS_WAIT_VOTING \<Rightarrow> ResetConnection i
      | SS_WAIT_VERDICT \<Rightarrow> RecvVoteResponse A i
      | SS_SEND_ELECTED_FLUSH \<Rightarrow> bindE (AsyncFlush i) (\<lambda>ok. if ok then StartStreaming A i else retE ())
      | SS_WAIT_ELECTED \<Rightarrow> ResetConnection i
      | SS_ACTIVE \<Rightarrow> HandleActiveState A i ev) (\<lambda>_. stream_inv) (\<lambda>_. stream_inv) w"
    using w f stream_handle_active [OF w]
    by (cases "cs_state (sk_at w i)")
      (simp_all add: wp_failE k [OF stream.frame_connection(1)] k [OF stream.frame_connection(4)] k [OF stream_greet(1)]
        k [OF stream_greeting] k [OF stream_vote])
  then show "wp (AdvancePollState A i ev) (\<lambda>_. stream_inv) (\<lambda>_. stream_inv) w"
    unfolding AdvancePollState_def AssertEventsOkForState_def wp_thenE wp_bindE wp_getE
    using w by (simp add: wp_guardE split: prod.splits)
qed

lemma stream_exec: "keeps stream_inv (wp_exec A ev)"
proof (cases ev)
  case Start
  then show ?thesis unfolding Start wp_exec.simps WalProposerStart_def by (intro keeps_intros)
next
  case (Deliver i b)
  then show ?thesis by (auto intro: stream_same)
next
  case (Replies rs)
  then show ?thesis by (auto intro: stream_modify)
next
  case (Poll t r)
  have t: "keeps stream_inv (poll_tail A r)" unfolding poll_tail_def by (intro keeps_intros)
  have a: "keeps stream_inv (case r of WaitSocket i ev \<Rightarrow> if any_event ev then AdvancePollState A i ev else retE () | _ \<Rightarrow> retE ())"
    by (cases r) (auto intro: stream_advance keeps_intros)
  show ?thesis
    unfolding Poll wp_exec.simps WalProposerPoll.simps poll_round_def by (intro keeps_intros stream_modify t a) simp
next
  case (NewWal s e)
  then show ?thesis unfolding NewWal wp_exec.simps WalProposerBroadcast_def by (intro keeps_intros stream_modify) simp
qed

lemma stream_run:
  assumes "wp_run A w0 evs alive w" and "stream_inv w0"
  shows "stream_inv w"
  using assms
proof (induction rule: wp_run.induct)
  case (wp_run_step evs w ev r w')
  then show ?case using keeps_snd [OF stream_exec, of w A ev] by simp
qed

lemma stream_create:
  assumes "WalProposerCreate A epoch mine dn = Inr w"
  shows "stream_inv w"
proof (rule create_slots [OF assms])
  fix gen sks
  assume w: "w = (zero_proposer epoch mine dn)\<lparr>wp_quorum := length sks div 2 + 1, wp_safekeepers_generation := gen, wp_safekeeper := sks\<rparr>"
    and off: "\<And>i. i < length sks \<Longrightarrow> cs_state (sks ! i) = SS_OFFLINE \<and> cs_inbox (sks ! i) = []"
  have "wp_sent w = []" "wp_safekeeper w = sks" by (simp_all add: w zero_proposer_def)
  then show ?thesis using off by (simp add: stream_inv_def in_order_def slot_stream_def)
qed

section \<open>A sample stream\<close>

definition voted :: c_WalProposer where
  "voted = (voting 3)\<lparr>wp_safekeeper := [(greeted 3)\<lparr>cs_state := SS_WAIT_ELECTED, cs_inbox := [], cs_voteResponse := vote_c 3,
     cs_entries_null := False\<rparr>]\<rparr>"

lemma voted_votes: "VotesCollected voted = (Inr True, voted\<lparr>wp_propTermStartLsn := 0x16B9200, wp_donorLastLogTerm := 1,
    wp_truncateLsn := 0x16B9188, wp_donor := Some 0\<rparr>)"
  unfolding VotesCollected_def run_simps id_apply Let_def
  by (simp add: voted_def voting_def full run_simps VotesCollectedMset_def member_slots_def ptr0_def take_vote_def GetLastLogTerm_def vote_history_def
      GetHighestTerm_def steps map_res_def MsetHasQuorum_def MsetQuorum_def WalProposerGenerationsEnabled_def INVALID_GENERATION_def)

definition leading :: c_WalProposer where
  "leading = voted\<lparr>wp_propTermStartLsn := 0x16B9200, wp_donorLastLogTerm := 1, wp_truncateLsn := 0x16B9188, wp_donor := Some 0,
     wp_state := WPS_ELECTED, shm_propEpochStartLsn := 0x16B9200, wp_availableLsn := 0x16B9200,
     wp_propTermHistory := [\<lparr>tl_term = 1, tl_lsn = 0x16B9188\<rparr>, \<lparr>tl_term = 4, tl_lsn = 0x16B9200\<rparr>], shm_mineLastElectedTerm := 4\<rparr>"

lemma leading_fields:
  "wp_propTermStartLsn leading = 0x16B9200" "wp_truncateLsn leading = 0x16B9188" "wp_replies leading = []"
  "length (wp_safekeeper leading) = 1" "cs_state (sk_at leading 0) = SS_WAIT_ELECTED"
  by (simp_all add: leading_def voted_def voting_def full)

lemma wp_config_sync: "wpc_syncSafekeepers sample_conf = False"
  by (simp add: sample_conf_def sample_wp_config_def)

lemma conf_wal: "api_redo_start_lsn sample_conf = 0x16B9200" "api_replica_promote sample_conf = False" "cc_wal_segment_size sample_conf = 0x1000000"
  by (simp_all add: sample_conf_def sample_wp_config_def)

lemma leading_start: "ProcessPropStartPos sample_conf (voted\<lparr>wp_propTermStartLsn := 0x16B9200, wp_donorLastLogTerm := 1,
    wp_truncateLsn := 0x16B9188, wp_donor := Some 0, wp_state := WPS_ELECTED\<rparr>) = (Inr (), leading)"
  by (simp add: ProcessPropStartPos_def leading_def voted_def voting_def full steps conf_wal vote_history_def SkipXLogPageHeader_def)

text \<open>One connection that streams, at a position, with the WAL up to another.\<close>

definition streaming :: "lsn \<Rightarrow> lsn \<Rightarrow> c_WalProposer \<Rightarrow> bool" where
  "streaming p a w \<longleftrightarrow> wp_availableLsn w = a \<and> wp_replies w = [] \<and> wp_clock w = 0 \<and> wp_last_reconnect_attempt w = 0 \<and>
    (\<exists>s. wp_safekeeper w = [s] \<and> cs_state s = SS_ACTIVE \<and> cs_active_state s = SS_ACTIVE_SEND \<and> cs_streamingAt s = p)"

lemma streaming_sends:
  assumes w: "streaming p a w" and a: "p \<le> a" "a < p + word_of_nat MAX_SEND_SIZE"
  shows "\<exists>r w'. SendMessageToNode sample_conf 0 w = (Inr (), w') \<and> streaming a a w' \<and> wp_sent w' = wp_sent w @ [(0, CAppendRequest r)] \<and>
     ah_begin_lsn r = p \<and> ah_end_lsn r = a"
proof -
  let ?r = "append_request w p a"
  let ?w = "w\<lparr>wp_sent := wp_sent w @ [(0, CAppendRequest ?r)],
     wp_safekeeper := (wp_safekeeper w)[0 := (sk_at w 0)\<lparr>cs_appendRequest := ?r, cs_streamingAt := a, cs_active_state := SS_ACTIVE_SEND\<rparr>]\<rparr>"
  have "send_round sample_conf 0 w = (Inr None, ?w)"
    using send_round_ok [of 0 w sample_conf p a] w a by (auto simp: streaming_def)
  then have "send_loop sample_conf 0 False w = (Inr True, ?w)"
    using w by (auto simp: send_loop.simps [of _ _ False] send_loop.simps [of _ _ True] streaming_def)
  then have "SendMessageToNode sample_conf 0 w = (Inr (), ?w)"
    using w by (auto simp: SendMessageToNode_def HandleActiveState_with_def SendAppendRequests_def steps streaming_def)
  moreover have "streaming a a ?w" using w by (auto simp: streaming_def)
  ultimately show ?thesis by (intro exI [of _ ?r] exI [of _ ?w]) (simp add: append_request_def)
qed

lemma announce: "\<exists>w. SendProposerElected sample_conf 0 leading = StartStreaming sample_conf 0 w \<and>
    wp_availableLsn w = 0x16B9200 \<and> wp_replies w = [] \<and> wp_clock w = 0 \<and> wp_last_reconnect_attempt w = 0 \<and> wp_state w = WPS_ELECTED \<and> wp_donor w = Some 0 \<and>
    (\<exists>s. wp_safekeeper w = [s] \<and> cs_startStreamingAt s = 0x16B9200)"
  by (simp add: SendProposerElected_def leading_def voted_def voting_def full steps vote_history_def start_streaming_at_def Let_def
      AsyncWrite_def api_call_def wp_serialize_def PAMessageSerialize_def bind_res_def map_res_def) (rule exI, rule conjI, rule refl, simp)

lemma donor_only: "wp_donor w = Some d \<Longrightarrow> \<exists>x. UpdateDonorShmem w = (Inr (), w\<lparr>shm_donor := x\<rparr>)"
proof -
  have "\<exists>x. (Inr (), w) = (Inr (), w\<lparr>shm_donor := x\<rparr>)" by (rule exI [of _ "shm_donor w"]) simp
  then show "wp_donor w = Some d \<Longrightarrow> ?thesis"
    unfolding UpdateDonorShmem_def Let_def by (auto simp: run_simps split: option.splits)
qed

lemma won_stream: "\<exists>w. RecvVoteResponse sample_conf 0 ((voting 3)\<lparr>wp_safekeeper := [(greeted 3)\<lparr>cs_state := SS_WAIT_VERDICT, cs_inbox := [vote_bytes 3]\<rparr>]\<rparr>)
     = (Inr (), w) \<and> streaming 0x16B9200 0x16B9200 w"
proof -
  obtain w s where w: "SendProposerElected sample_conf 0 leading = StartStreaming sample_conf 0 w" "wp_availableLsn w = 0x16B9200" "wp_replies w = []"
      "wp_clock w = 0" "wp_last_reconnect_attempt w = 0" "wp_state w = WPS_ELECTED" "wp_donor w = Some 0" "wp_safekeeper w = [s]" "cs_startStreamingAt s = 0x16B9200"
    using announce by blast
  let ?u = "w\<lparr>wp_safekeeper := [s\<lparr>cs_state := SS_ACTIVE, cs_active_state := SS_ACTIVE_SEND, cs_streamingAt := cs_startStreamingAt s\<rparr>]\<rparr>"
  obtain u where u: "UpdateDonorShmem ?u = (Inr (), u)" "streaming 0x16B9200 0x16B9200 u"
    using donor_only [of ?u 0] w by (auto simp: streaming_def)
  obtain r w' where w': "SendMessageToNode sample_conf 0 u = (Inr (), w')" "streaming 0x16B9200 0x16B9200 w'"
    using streaming_sends [OF u(2)] by (auto simp: MAX_SEND_SIZE_def)
  have "StartStreaming sample_conf 0 w = (Inr (), w')"
    using w u(1) w'(1) by (simp add: StartStreaming_def steps)
  then have "HandleElectedProposer sample_conf (voted\<lparr>wp_propTermStartLsn := 0x16B9200, wp_donorLastLogTerm := 1,
    wp_truncateLsn := 0x16B9188, wp_donor := Some 0, wp_state := WPS_ELECTED\<rparr>) = (Inr (), w')"
    using w(1) leading_start leading_fields by (simp add: HandleElectedProposer_def api_call_def for_slots_def steps run_simps wp_config_sync)
  then have "RecvVoteResponse sample_conf 0 ((voting 3)\<lparr>wp_safekeeper := [(greeted 3)\<lparr>cs_state := SS_WAIT_VERDICT, cs_inbox := [vote_bytes 3]\<rparr>]\<rparr>) = (Inr (), w')"
    using vote_read [OF refl, of 3] voted_votes unfolding RecvVoteResponse_def voted_def voting_def full by (simp add: steps)
  then show ?thesis using w'(2) by blast
qed

lemma stream_new_wal:
  assumes w: "streaming p p w" and a: "p \<le> a" "a < p + word_of_nat MAX_SEND_SIZE"
  shows "\<exists>r w'. wp_exec sample_conf (NewWal p a) w = (Inr (), w') \<and> wp_sent w' = wp_sent w @ [(0, CAppendRequest r)] \<and>
     ah_begin_lsn r = p \<and> ah_end_lsn r = a"
proof -
  let ?w = "w\<lparr>wp_availableLsn := a\<rparr>"
  have "streaming p a ?w" using w by (simp add: streaming_def)
  then obtain r w' where s: "SendMessageToNode sample_conf 0 ?w = (Inr (), w')" and r: "wp_sent w' = wp_sent w @ [(0, CAppendRequest r)]"
      "ah_begin_lsn r = p" "ah_end_lsn r = a"
    using streaming_sends [of p a ?w] a by auto
  have "cs_state (sk_at ?w 0) = SS_ACTIVE" "length (wp_safekeeper w) = 1" "wp_availableLsn w = p"
    using w by (auto simp: streaming_def)
  then have "wp_exec sample_conf (NewWal p a) w = (Inr (), w')"
    using a(1) s by (simp add: WalProposerBroadcast_def BroadcastAppendRequest_def for_slots_def steps run_simps)
  then show ?thesis using r by blast
qed

definition stream_events :: "wp_event list" where
  "stream_events = sample_events 3 @ [NewWal 0x16B9200 0x16B9264]"

lemma stream_sample: "\<exists>w before r. wp_run sample_conf sample_start stream_events True w \<and>
    wp_sent w = before @ [(0, CAppendRequest r)] \<and> ah_begin_lsn r = 0x16B9200 \<and> ah_end_lsn r = 0x16B9264"
proof -
  let ?v = "(voting 3)\<lparr>wp_safekeeper := [(greeted 3)\<lparr>cs_state := SS_WAIT_VERDICT, cs_inbox := [vote_bytes 3]\<rparr>]\<rparr>"
  obtain w where w: "RecvVoteResponse sample_conf 0 ?v = (Inr (), w)" "streaming 0x16B9200 0x16B9200 w" using won_stream by blast
  define v where "v = ?v"
  have v: "cs_state (sk_at v 0) = SS_WAIT_VERDICT" "wp_clock v = 0" "length (wp_safekeeper v) = 1" "RecvVoteResponse sample_conf 0 v = (Inr (), w)"
    using w(1) by (simp_all add: v_def voting_def sent_greeting_def)
  have "AdvancePollState sample_conf 0 (no_events\<lparr>ev_readable := True\<rparr>) v = (Inr (), w)"
    using v(1,4) by (simp add: advance_defs steps run_simps)
  then have "wp_exec sample_conf (Poll 0 ev_rd) v = (Inr (), w)"
    unfolding ev_rd_def using poll_run v(2) w(2) by (auto simp: streaming_def any_event_def no_events_def)
  then have "wp_run sample_conf sample_start ([Start, Poll 0 ev_wr, Poll 0 ev_rd, Deliver 0 (greet_bytes 3), Poll 0 ev_rd, Deliver 0 (vote_bytes 3)] @
      [Poll 0 ev_rd]) True w"
    by (rule wp_run_on [OF run_to_vote [of 3, folded v_def]]) (simp add: ev_rd_def v(3))
  then have run: "wp_run sample_conf sample_start (sample_events 3) True w" by (simp add: sample_events_def)
  obtain r w' where w': "wp_exec sample_conf (NewWal 0x16B9200 0x16B9264) w = (Inr (), w')" "wp_sent w' = wp_sent w @ [(0, CAppendRequest r)]"
      "ah_begin_lsn r = 0x16B9200" "ah_end_lsn r = 0x16B9264"
    using stream_new_wal [OF w(2), of "0x16B9264"] by (auto simp: MAX_SEND_SIZE_def)
  have "wp_run sample_conf sample_start stream_events True w'"
    unfolding stream_events_def by (rule wp_run_on [OF run w'(1)]) simp
  then show ?thesis using w'(2-4) by blast
qed


section \<open>Properties\<close>

text \<open>C30: Over every run of a proposer from its creation, whatever messages arrive and however the
  connections and the WAL reader answer, the append requests on a connection follow the stream
  announced to it: each begins at the position the \<open>ProposerElected\<close> message before it announced,
  or where the append request before it ended, with no other message to that connection in between; its range does
  not go backwards (the proposer asserts it) and is at most \<open>MAX_SEND_SIZE\<close> long.\<close>

theorem appends_follow_stream:
  assumes "WalProposerCreate A epoch mine dn = Inr w0" and "wp_run A w0 evs alive w"
    and "wp_sent w = before @ (i, CAppendRequest r) # after"
  shows "next_lsn (last_to i before) = Some (ah_begin_lsn r) \<and> ah_begin_lsn r \<le> ah_end_lsn r \<and>
     unat (ah_end_lsn r - ah_begin_lsn r) \<le> MAX_SEND_SIZE"
proof -
  have "in_order (wp_sent w)" using stream_run [OF assms(2) stream_create [OF assms(1)]] by (simp add: stream_inv_def)
  from in_orderD [OF this assms(3)] show ?thesis by (simp add: req_ok_def)
qed

theorem appends_follow_stream_witness:
  "\<exists>w before r. wp_run sample_conf sample_start stream_events True w \<and> wp_sent w = before @ [(0, CAppendRequest r)] \<and>
     ah_begin_lsn r = 0x16B9200 \<and> ah_end_lsn r = 0x16B9264 \<and> next_lsn (last_to 0 before) = Some 0x16B9200"
proof -
  obtain w before r where w: "wp_run sample_conf sample_start stream_events True w" "wp_sent w = before @ [(0, CAppendRequest r)]"
      "ah_begin_lsn r = 0x16B9200" "ah_end_lsn r = 0x16B9264"
    using stream_sample by blast
  show ?thesis
    using appends_follow_stream [OF sample_created w(1,2)] w by auto
qed

end
