(* ===== verification/Proposer_Errors.thy ===== *)
theory Proposer_Errors
  imports Streaming
begin

text \<open>
  Two ways in which the WAL proposer goes wrong: a donor that is gone when the election is won, and
  an endpoint that comes back as a different node and is counted for both.
\<close>

section \<open>The donor that is gone\<close>

definition stale_slot :: c_Safekeeper where
  "stale_slot = (sample_slot 30 2)\<lparr>cs_state := SS_OFFLINE, cs_entries_null := True\<rparr>"

definition empty_slot :: c_Safekeeper where
  "empty_slot = (sample_slot 0 0)\<lparr>cs_voteResponse := (cs_voteResponse (sample_slot 0 0))\<lparr>cvr_termHistory := []\<rparr>\<rparr>"

definition stale_proposer :: c_WalProposer where
  "stale_proposer = sample_proposer\<lparr>wp_donor := Some 0, wp_safekeeper := [stale_slot, empty_slot, empty_slot]\<rparr>"

lemma stale_votes: "\<exists>w'. VotesCollected stale_proposer = (Inr True, w')"
  unfolding VotesCollected_def run_simps id_apply Let_def
  by (simp add: stale_proposer_def stale_slot_def empty_slot_def sample_defs run_simps VotesCollectedMset_def member_slots_def take_vote_def
      GetLastLogTerm_def vote_history_def GetHighestTerm_def bindE_def thenE_def getE_def guardE_def modifyE_def retE_def liftR_def
      map_res_def MsetHasQuorum_def MsetQuorum_def numeral_3_eq_3 WalProposerGenerationsEnabled_def)

section \<open>The endpoint that comes back as another node\<close>

text \<open>
  One connection, and a configuration of three members. The endpoint introduces itself as the first
  member; the connection is reset; it introduces itself as the second member and grants one vote.
\<close>

definition reuse_member :: "NodeId \<Rightarrow> SafekeeperId" where
  "reuse_member n = \<lparr>sk_id = n, sk_host = [], sk_pg_port = 0\<rparr>"

definition reuse_mconf :: Configuration where
  "reuse_mconf = \<lparr>generation = 42, members = \<lparr>ms_m = [reuse_member 1, reuse_member 2, reuse_member 3]\<rparr>, new_members = None\<rparr>"

abbreviation reuse_cmconf :: c_MembershipConfiguration where
  "reuse_cmconf \<equiv> \<lparr>cm_generation = 42, cm_members = [reuse_member 1, reuse_member 2, reuse_member 3], cm_new_members = []\<rparr>"

definition reuse_bytes :: "NodeId \<Rightarrow> bytes" where
  "reuse_bytes n = (case serialize 0 3 (AGreeting \<lparr>ag_node_id = n, ag_mconf = reuse_mconf, ag_term = 3\<rparr>) of Inr b \<Rightarrow> b | Inl _ \<Rightarrow> [])"

lemma reuse_bytes: "serialize_v3 0 (AGreeting \<lparr>ag_node_id = n, ag_mconf = reuse_mconf, ag_term = 3\<rparr>) = Inr (reuse_bytes n)"
  by (simp add: reuse_bytes_def serialize_def SK_PROTO_VERSION_3_def serialize_v3_def)

lemma read_reuse: "AsyncReadMessage 3 (CAGreeting old) (reuse_bytes n) =
   (Inr (Some (CAGreeting \<lparr>cag_nodeId = n, cag_mconf = reuse_cmconf, cag_term = 3\<rparr>)), [])"
proof -
  have ok: "response_ok 0 (AGreeting \<lparr>ag_node_id = n, ag_mconf = reuse_mconf, ag_term = 3\<rparr>)"
    by (simp add: response_ok_def mconf_ok_def reuse_mconf_def reuse_member_def host_ok_def small_list_def)
  have "c_mconf_of reuse_mconf = reuse_cmconf"
    by (simp add: c_mconf_of_def reuse_mconf_def short_member_def reuse_member_def strlcpy_def)
  then show ?thesis
    using read_v3_serialized [OF ok reuse_bytes, of "CAGreeting old"] by (auto simp: AsyncReadMessage_def reads)
qed

lemma reuse_no_vote: "fst (AsyncReadMessage 3 (CAVoteResponse old) (reuse_bytes n)) = Inr None"
proof -
  obtain r where "reuse_bytes n = 0x67 # r" using reuse_bytes [of n, symmetric] by (auto simp: serialize_v3_def)
  then show ?thesis by (simp add: AsyncReadMessage_def reads)
qed

text \<open>The slot in some state after a greeting, and the pointers of the members.\<close>

definition reuse_slot :: "NodeId \<Rightarrow> SafekeeperState \<Rightarrow> bytes list \<Rightarrow> c_Safekeeper" where
  "reuse_slot n st inbox = sample_conn\<lparr>cs_state := st, cs_inbox := inbox, cs_latestMsgReceivedAt := 0,
     cs_greetResponse := \<lparr>cag_nodeId = n, cag_mconf = reuse_cmconf, cag_term = 3\<rparr>\<rparr>"

definition reuse_ptrs :: "nat option list \<Rightarrow> nat option list" where
  "reuse_ptrs ps = ps @ replicate 29 None"

definition reuse_greeted :: "nat \<Rightarrow> nat option list \<Rightarrow> Term \<Rightarrow> (nat \<times> c_ProposerAcceptorMessage) list \<Rightarrow> c_Safekeeper \<Rightarrow> c_WalProposer" where
  "reuse_greeted k ps t sent sk = sent_greeting\<lparr>wp_mconf := reuse_cmconf, wp_members_safekeepers := reuse_ptrs ps,
     wp_new_members_safekeepers := no_ptrs, wp_n_connected := k, wp_propTerm := t, wp_sent := sent, wp_safekeeper := [sk]\<rparr>"

lemma reuse_map_member:
  "map_member [reuse_member 1, reuse_member 2, reuse_member 3] 1 0 no_ptrs = reuse_ptrs [Some 0, None, None]"
  "map_member [reuse_member 1, reuse_member 2, reuse_member 3] 2 0 (reuse_ptrs [Some 0, None, None]) = reuse_ptrs [Some 0, Some 0, None]"
  "map_member [] n 0 no_ptrs = no_ptrs"
proof -
  show "map_member [reuse_member 1, reuse_member 2, reuse_member 3] 1 0 no_ptrs = reuse_ptrs [Some 0, None, None]" by code_simp
  show "map_member [reuse_member 1, reuse_member 2, reuse_member 3] 2 0 (reuse_ptrs [Some 0, None, None]) = reuse_ptrs [Some 0, Some 0, None]"
    by code_simp
  show "map_member [] n 0 no_ptrs = no_ptrs" by (rule nth_equalityI) (simp_all add: map_member_nth)
qed

lemma reuse_adopt:
  "adopt_mconf reuse_cmconf (sent_greeting\<lparr>wp_safekeeper := [reuse_slot 1 SS_HANDSHAKE_RECV []]\<rparr>) =
    (Inr (), sent_greeting\<lparr>wp_mconf := reuse_cmconf, wp_members_safekeepers := no_ptrs, wp_new_members_safekeepers := no_ptrs,
       wp_safekeeper := [reuse_slot 1 SS_HANDSHAKE_RECV []]\<rparr>)"
  by (simp add: adopt_mconf_def steps ResetMemberSafekeeperPtrs_def for_slots_def MAX_SAFEKEEPERS_def no_ptrs_def reuse_slot_def
      less_eq_SafekeeperState_def)

lemma reuse_update:
  assumes "(n, p, q) = (1, no_ptrs, reuse_ptrs [Some 0, None, None]) \<or> (n, p, q) = (2, reuse_ptrs [Some 0, None, None], reuse_ptrs [Some 0, Some 0, None])"
    and "wp_safekeeper w = [reuse_slot n SS_WAIT_VOTING []]" and "wp_mconf w = reuse_cmconf" and "wp_members_safekeepers w = p"
    and "wp_new_members_safekeepers w = no_ptrs"
  shows "UpdateMemberSafekeeperPtr 0 w = (Inr (), w\<lparr>wp_members_safekeepers := q\<rparr>)"
proof -
  have "w\<lparr>wp_members_safekeepers := q, wp_new_members_safekeepers := no_ptrs\<rparr> = w\<lparr>wp_members_safekeepers := q\<rparr>"
    using assms(5) by (cases w) simp
  then show ?thesis
    using assms by (auto simp: UpdateMemberSafekeeperPtr_def steps MAX_SAFEKEEPERS_def Let_def reuse_slot_def reuse_map_member)
qed

lemma reuse_first:
  "RecvAcceptorGreeting sample_conf 0
    (sent_greeting\<lparr>wp_safekeeper := [sample_conn\<lparr>cs_state := SS_HANDSHAKE_RECV, cs_latestMsgReceivedAt := 0, cs_inbox := [reuse_bytes 1]\<rparr>]\<rparr>) =
   (Inr (), reuse_greeted 1 [Some 0, None, None] 3 (wp_sent sent_greeting) (reuse_slot 1 SS_WAIT_VOTING []))"
proof -
  let ?w = "sent_greeting\<lparr>wp_safekeeper := [sample_conn\<lparr>cs_state := SS_HANDSHAKE_RECV, cs_latestMsgReceivedAt := 0, cs_inbox := [reuse_bytes 1]\<rparr>]\<rparr>"
  let ?g = "\<lparr>cag_nodeId = 1, cag_mconf = reuse_cmconf, cag_term = 3\<rparr>"
  let ?w3 = "sent_greeting\<lparr>wp_mconf := reuse_cmconf, wp_members_safekeepers := no_ptrs, wp_new_members_safekeepers := no_ptrs,
      wp_safekeeper := [reuse_slot 1 SS_WAIT_VOTING []]\<rparr>"
  have r: "read_message sample_conf 0 (\<lambda>sk. CAGreeting (cs_greetResponse sk)) ?w =
      (Inr (Some (CAGreeting ?g)), sent_greeting\<lparr>wp_safekeeper := [sample_conn\<lparr>cs_state := SS_HANDSHAKE_RECV, cs_latestMsgReceivedAt := 0, cs_inbox := []\<rparr>]\<rparr>)"
    using read_message_run [of 0 ?w "reuse_bytes 1" "[]" sample_conf "\<lambda>sk. CAGreeting (cs_greetResponse sk)" "CAGreeting ?g"]
    by (simp add: read_reuse)
  have u: "UpdateMemberSafekeeperPtr 0 ?w3 = (Inr (), ?w3\<lparr>wp_members_safekeepers := reuse_ptrs [Some 0, None, None]\<rparr>)"
    by (rule reuse_update) simp_all
  show ?thesis
    using r reuse_adopt u unfolding full reuse_slot_def
    by (simp add: RecvAcceptorGreeting_def steps)
      (simp add: steps TermsCollected_def INVALID_GENERATION_def TermsCollectedMset_def member_slots_def MsetHasQuorum_def MsetQuorum_def
        reuse_ptrs_def reuse_greeted_def reuse_slot_def full numeral_3_eq_3)
qed

lemma reuse_clock [simp]: "wp_clock (reuse_greeted k ps t sent sk) = 0" "wp_last_reconnect_attempt (reuse_greeted k ps t sent sk) = 0"
  "wp_safekeeper (reuse_greeted k ps t sent sk) = [sk]" "wp_replies (reuse_greeted k ps t sent sk) = []"
  by (simp_all add: reuse_greeted_def)

lemma reuse_step5: "wp_exec sample_conf (Poll 0 ev_rd)
    (sent_greeting\<lparr>wp_safekeeper := [sample_conn\<lparr>cs_state := SS_HANDSHAKE_RECV, cs_latestMsgReceivedAt := 0, cs_inbox := [reuse_bytes 1]\<rparr>]\<rparr>) =
   (Inr (), reuse_greeted 1 [Some 0, None, None] 3 (wp_sent sent_greeting) (reuse_slot 1 SS_WAIT_VOTING []))"
  unfolding ev_rd_def using reuse_first by (intro poll_run) (simp_all add: advance_defs steps)

lemma reuse_step6: "wp_exec sample_conf (Poll 0 ev_rd) (reuse_greeted k ps t sent (reuse_slot 1 SS_WAIT_VOTING [])) =
   (Inr (), reuse_greeted k ps t sent (reuse_slot 1 SS_CONNECTING_WRITE []))"
proof -
  have "ResetConnection 0 (reuse_greeted k ps t sent (reuse_slot 1 SS_WAIT_VOTING [])) =
      (Inr (), reuse_greeted k ps t sent (reuse_slot 1 SS_CONNECTING_WRITE []))"
    by (simp add: ResetConnection_def ShutdownConnection_def steps api_call_def reuse_greeted_def reuse_slot_def full)
  then show ?thesis
    unfolding ev_rd_def by (intro poll_run) (simp_all add: advance_defs steps, simp add: reuse_slot_def)
qed

lemma reuse_step7: "wp_exec sample_conf (Poll 0 ev_wr) (reuse_greeted k ps t sent (reuse_slot 1 SS_CONNECTING_WRITE [])) =
   (Inr (), reuse_greeted k ps t sent (reuse_slot 1 SS_WAIT_EXEC_RESULT []))"
proof -
  have "HandleConnectionEvent 0 (reuse_greeted k ps t sent (reuse_slot 1 SS_CONNECTING_WRITE [])) =
      (Inr (), reuse_greeted k ps t sent (reuse_slot 1 SS_WAIT_EXEC_RESULT []))"
    by (simp add: HandleConnectionEvent_def SendStartWALPush_def steps api_call_def reuse_greeted_def reuse_slot_def full)
  then show ?thesis
    unfolding ev_wr_def by (intro poll_run) (simp_all add: advance_defs steps, simp add: reuse_slot_def)
qed

lemma reuse_step8: "wp_exec sample_conf (Poll 0 ev_rd) (reuse_greeted k ps t sent (reuse_slot 1 SS_WAIT_EXEC_RESULT [])) =
   (Inr (), reuse_greeted k ps t (sent @ [(0, CGreeting (greetRequest sample_conf))]) (reuse_slot 1 SS_HANDSHAKE_RECV []))"
proof -
  have "RecvStartWALPushResult sample_conf 0 (reuse_greeted k ps t sent (reuse_slot 1 SS_WAIT_EXEC_RESULT [])) =
      (Inr (), reuse_greeted k ps t (sent @ [(0, CGreeting (greetRequest sample_conf))]) (reuse_slot 1 SS_HANDSHAKE_RECV []))"
    by (simp add: RecvStartWALPushResult_def SendProposerGreeting_def wp_serialize_def PAMessageSerialize_def BlockingWrite_def
        steps api_call_def reuse_greeted_def reuse_slot_def full)
  then show ?thesis
    unfolding ev_rd_def by (intro poll_run) (simp_all add: advance_defs steps, simp add: reuse_slot_def)
qed

lemma reuse_deliver:
  "st \<noteq> SS_OFFLINE \<Longrightarrow> wp_exec sample_conf (Deliver 0 b) (reuse_greeted k ps t sent (reuse_slot n st [])) =
   (Inr (), reuse_greeted k ps t sent (reuse_slot n st [b]))"
  by (simp add: reuse_greeted_def reuse_slot_def full)

text \<open>The campaign, with the same slot for two members.\<close>

definition reuse_voting :: "(nat \<times> c_ProposerAcceptorMessage) list \<Rightarrow> bytes list \<Rightarrow> c_WalProposer" where
  "reuse_voting sent inbox = (reuse_greeted 2 [Some 0, Some 0, None] 4 sent (reuse_slot 2 SS_WAIT_VERDICT inbox))
     \<lparr>wp_state := WPS_CAMPAIGN, wp_voteRequest := \<lparr>vq_generation = 42, vq_term = 4\<rparr>\<rparr>"

lemma reuse_second:
  "RecvAcceptorGreeting sample_conf 0 (reuse_greeted 1 [Some 0, None, None] 3 sent (reuse_slot 1 SS_HANDSHAKE_RECV [reuse_bytes 2])) =
   (Inr (), reuse_voting (sent @ [(0, CVoteRequest \<lparr>vq_generation = 42, vq_term = 4\<rparr>)]) [])"
proof -
  let ?w = "reuse_greeted 1 [Some 0, None, None] 3 sent (reuse_slot 1 SS_HANDSHAKE_RECV [reuse_bytes 2])"
  let ?g = "\<lparr>cag_nodeId = 2, cag_mconf = reuse_cmconf, cag_term = 3\<rparr>"
  have r: "read_message sample_conf 0 (\<lambda>sk. CAGreeting (cs_greetResponse sk)) ?w =
      (Inr (Some (CAGreeting ?g)), reuse_greeted 1 [Some 0, None, None] 3 sent (reuse_slot 1 SS_HANDSHAKE_RECV []))"
    using read_message_run [of 0 ?w "reuse_bytes 2" "[]" sample_conf "\<lambda>sk. CAGreeting (cs_greetResponse sk)" "CAGreeting ?g"]
    by (simp add: read_reuse reuse_slot_def reuse_greeted_def)
  let ?w3 = "reuse_greeted 1 [Some 0, None, None] 3 sent (reuse_slot 2 SS_WAIT_VOTING [])"
  have u: "UpdateMemberSafekeeperPtr 0 ?w3 = (Inr (), ?w3\<lparr>wp_members_safekeepers := reuse_ptrs [Some 0, Some 0, None]\<rparr>)"
    by (rule reuse_update) (simp_all add: reuse_greeted_def)
  show ?thesis
    using r u unfolding full reuse_slot_def reuse_greeted_def
    by (simp add: RecvAcceptorGreeting_def steps adopt_mconf_def)
      (simp add: steps TermsCollected_def INVALID_GENERATION_def TermsCollectedMset_def member_slots_def MsetHasQuorum_def MsetQuorum_def
        reuse_ptrs_def reuse_greeted_def reuse_slot_def full numeral_3_eq_3 for_slots_def SendVoteRequest_def wp_serialize_def
        PAMessageSerialize_def BlockingWrite_def api_call_def reuse_voting_def)
qed

lemma reuse_step10: "wp_exec sample_conf (Poll 0 ev_rd) (reuse_greeted 1 [Some 0, None, None] 3 sent (reuse_slot 1 SS_HANDSHAKE_RECV [reuse_bytes 2])) =
   (Inr (), reuse_voting (sent @ [(0, CVoteRequest \<lparr>vq_generation = 42, vq_term = 4\<rparr>)]) [])"
  unfolding ev_rd_def using reuse_second by (intro poll_run) (simp_all add: advance_defs steps reuse_voting_def, simp add: reuse_slot_def)

lemma reuse_step11: "wp_exec sample_conf (Deliver 0 b) (reuse_voting sent []) = (Inr (), reuse_voting sent [b])"
  by (simp add: reuse_voting_def reuse_greeted_def reuse_slot_def full)

text \<open>The elected proposer, and where the pointers of its members lead.\<close>

definition ptrs_are :: "c_MembershipConfiguration \<Rightarrow> nat option list \<Rightarrow> c_WalProposer \<Rightarrow> bool" where
  "ptrs_are mc ps w \<longleftrightarrow> core_is WPS_ELECTED 4 mc w \<and> wp_members_safekeepers w = ps"

interpretation elected_ptrs: active_frame "ptrs_are mc ps" for mc ps
  by unfold_locales (auto simp: ptrs_are_def core_is_def same_core_def)

lemma reuse_vote:
  "\<exists>w'. RecvVoteResponse sample_conf 0 (reuse_voting sent [vote_bytes 3]) = HandleElectedProposer sample_conf w' \<and>
     ptrs_are reuse_cmconf (reuse_ptrs [Some 0, Some 0, None]) w'"
proof -
  let ?v = "\<lparr>cvr_generation = 42, cvr_term = 4, cvr_voteGiven = 1, cvr_flushLsn = 0x16B9200, cvr_truncateLsn = 0x16B9188,
      cvr_termHistory = [\<lparr>tl_term = 1, tl_lsn = 0x16B9188\<rparr>]\<rparr>"
  let ?w = "reuse_voting sent [vote_bytes 3]"
  have m: "fst (AsyncReadMessage 3 (CAVoteResponse old) (vote_bytes 3)) = Inr (Some (CAVoteResponse ?v))" for old
    using read_vote_response [OF vote_bytes(2) [of 3 4] vote_bytes(1) [of 3, simplified]] by (simp add: sample_vote_def bool_u_def)
  have r: "read_message sample_conf 0 (\<lambda>sk. CAVoteResponse (cs_voteResponse sk)) ?w = (Inr (Some (CAVoteResponse ?v)), reuse_voting sent [])"
    using read_message_run [of 0 ?w "vote_bytes 3" "[]" sample_conf "\<lambda>sk. CAVoteResponse (cs_voteResponse sk)" "CAVoteResponse ?v"] m
    by (simp add: reuse_voting_def reuse_greeted_def reuse_slot_def full)
  let ?s = "(reuse_slot 2 SS_WAIT_ELECTED [])\<lparr>cs_voteResponse := ?v, cs_entries_null := False\<rparr>"
  let ?w1 = "(reuse_voting sent [])\<lparr>wp_safekeeper := [?s]\<rparr>"
  have "\<exists>w'. VotesCollected ?w1 = (Inr True, w') \<and> same_core ?w1 w'"
    unfolding VotesCollected_def run_simps id_apply Let_def
    by (simp add: reuse_voting_def reuse_greeted_def reuse_slot_def full run_simps VotesCollectedMset_def member_slots_def reuse_ptrs_def
        take_vote_def GetLastLogTerm_def vote_history_def GetHighestTerm_def steps map_res_def MsetHasQuorum_def MsetQuorum_def
        WalProposerGenerationsEnabled_def INVALID_GENERATION_def same_core_def numeral_3_eq_3)
  then obtain w' where w': "VotesCollected ?w1 = (Inr True, w')" "same_core ?w1 w'" by blast
  have "RecvVoteResponse sample_conf 0 ?w = HandleElectedProposer sample_conf (w'\<lparr>wp_state := WPS_ELECTED\<rparr>)"
    using r w'(1) unfolding RecvVoteResponse_def reuse_voting_def reuse_greeted_def reuse_slot_def full by (simp add: steps)
  moreover have "ptrs_are reuse_cmconf (reuse_ptrs [Some 0, Some 0, None]) (w'\<lparr>wp_state := WPS_ELECTED\<rparr>)"
    using w'(2) by (simp add: ptrs_are_def core_is_def same_core_def reuse_voting_def reuse_greeted_def)
  ultimately show ?thesis by blast
qed

text \<open>The run up to the reset, from there to the second greeting, and to the vote.\<close>

definition reuse_before :: "wp_event list" where
  "reuse_before = [Start, Poll 0 ev_wr, Poll 0 ev_rd, Deliver 0 (reuse_bytes 1), Poll 0 ev_rd, Poll 0 ev_rd]"

definition reuse_after :: "wp_event list" where
  "reuse_after = [Poll 0 ev_wr, Poll 0 ev_rd, Deliver 0 (reuse_bytes 2), Poll 0 ev_rd, Deliver 0 (vote_bytes 3), Poll 0 ev_rd]"

lemma reuse_reset: "wp_run sample_conf sample_start reuse_before True
    (reuse_greeted 1 [Some 0, None, None] 3 (wp_sent sent_greeting) (reuse_slot 1 SS_CONNECTING_WRITE []))"
proof -
  have "wp_run sample_conf sample_start ((([Start, Poll 0 ev_wr, Poll 0 ev_rd] @ [Deliver 0 (reuse_bytes 1)]) @ [Poll 0 ev_rd]) @ [Poll 0 ev_rd]) True
      (reuse_greeted 1 [Some 0, None, None] 3 (wp_sent sent_greeting) (reuse_slot 1 SS_CONNECTING_WRITE []))"
    by (rule wp_run_on [OF wp_run_on [OF wp_run_on [OF run_to_greeting step4] reuse_step5] reuse_step6])
      (simp_all add: ev_rd_def sent_greeting_def)
  then show ?thesis by (simp add: reuse_before_def)
qed

lemma reuse_run: "\<exists>alive w. wp_run sample_conf sample_start (reuse_before @ reuse_after) alive w \<and>
    ptrs_are reuse_cmconf (reuse_ptrs [Some 0, Some 0, None]) w"
proof -
  note again = wp_run_on [OF wp_run_on [OF wp_run_on [OF reuse_reset reuse_step7] reuse_step8] reuse_deliver]
  note vote = wp_run_on [OF wp_run_on [OF again reuse_step10] reuse_step11]
  let ?sent = "(wp_sent sent_greeting @ [(0, CGreeting (greetRequest sample_conf))]) @ [(0, CVoteRequest \<lparr>vq_generation = 42, vq_term = 4\<rparr>)]"
  let ?w = "reuse_voting ?sent [vote_bytes 3]"
  have run: "wp_run sample_conf sample_start (((((reuse_before @ [Poll 0 ev_wr]) @ [Poll 0 ev_rd]) @ [Deliver 0 (reuse_bytes 2)]) @ [Poll 0 ev_rd]) @
      [Deliver 0 (vote_bytes 3)]) True ?w"
    by (rule vote) (simp_all add: ev_rd_def ev_wr_def reuse_voting_def reuse_greeted_def sent_greeting_def)
  obtain r w where w: "wp_exec sample_conf (Poll 0 ev_rd) ?w = (r, w)" "ptrs_are reuse_cmconf (reuse_ptrs [Some 0, Some 0, None]) w"
    using reuse_vote [of ?sent] elected_ptrs.active_last_vote [of ?w] by (fastforce simp: reuse_voting_def reuse_greeted_def reuse_slot_def)
  have "wp_event_ok ?w (Poll 0 ev_rd)" by (simp add: ev_rd_def reuse_voting_def reuse_greeted_def)
  from wp_run_step [OF run this w(1)] w(2) show ?thesis by (auto simp: reuse_after_def)
qed

lemma reuse_grants: "{(i, b). Deliver i b \<in> set (reuse_before @ reuse_after) \<and> grants sample_conf 4 b} = {(0, vote_bytes 3)}"
proof -
  have "grants sample_conf 4 (vote_bytes 3)"
    using read_vote_response [OF vote_bytes(2) [of 3 4] vote_bytes(1) [of 3, simplified]]
    by (simp add: grants_def sample_vote_def bool_u_def)
  then show ?thesis by (auto simp: reuse_before_def reuse_after_def) (simp_all add: grants_def reuse_no_vote)
qed

text \<open>A message that the proposer reads as the greeting of a node, with the members it lists.\<close>

definition introduces :: "wp_config \<Rightarrow> NodeId \<Rightarrow> NodeId list \<Rightarrow> bytes \<Rightarrow> bool" where
  "introduces A n ms b \<longleftrightarrow> (\<exists>old g. fst (AsyncReadMessage (wpc_proto_version A) (CAGreeting old) b) = Inr (Some (CAGreeting g)) \<and>
     cag_nodeId g = n \<and> ids (cm_members (cag_mconf g)) = ms)"

lemma reuse_introduces: "introduces sample_conf n [1, 2, 3] (reuse_bytes n)"
  by (simp add: introduces_def read_reuse reuse_member_def)

section \<open>Properties\<close>

text \<open>C31: If the safekeeper that gave the highest vote so far has disconnected, which frees the entries
  of its term history but not their number, and the election is then won with votes of empty logs
  only, the proposer still takes it as the donor and dereferences the freed history: the process
  dies when it is elected.\<close>

theorem stale_donor_crash:
  assumes "VotesCollected w = (Inr True, w')" and "\<forall>i \<in> voters w. vote_rank (sk_at w i) = (0, 0)"
    and "wp_donor w = Some d" and "cs_entries_null (sk_at w d)" and "cvr_termHistory (cs_voteResponse (sk_at w d)) \<noteq> []"
    and "\<not> wpc_syncSafekeepers A" and "api_redo_start_lsn A \<noteq> 0"
  shows "fst (HandleElectedProposer A (w'\<lparr>wp_state := WPS_ELECTED\<rparr>)) = Inl (Panic ''null pointer dereference'')"
proof -
  have r: "wp_safekeeper (vote_reset w) = wp_safekeeper w" "best_vote (vote_reset w) = (0, 0)" "wp_donor (vote_reset w) = wp_donor w"
    by (simp_all add: vote_reset_def best_vote_def)
  have t: "tally (vote_reset w) (voters w) w'" using VotesCollected_tally [OF assms(1)] by simp
  then have "wp_donor w' = Some d" "best_vote w' = (0, 0)" "wp_safekeeper w' = wp_safekeeper w"
    using assms(2,3) r unfolding tally_def same_core_def by auto
  then show ?thesis
    using assms(4-7)
    by (simp add: best_vote_def HandleElectedProposer_def ProcessPropStartPos_def vote_history_def thenE_def bindE_def getE_def guardE_def
        modifyE_def liftR_def)
qed

theorem stale_donor_crash_witness:
  "\<exists>w'. VotesCollected stale_proposer = (Inr True, w') \<and>
     fst (HandleElectedProposer sample_wp_config (w'\<lparr>wp_state := WPS_ELECTED\<rparr>)) = Inl (Panic ''null pointer dereference'')"
proof -
  obtain w' where w': "VotesCollected stale_proposer = (Inr True, w')" using stale_votes by blast
  have s: "wp_safekeeper stale_proposer = [stale_slot, empty_slot, empty_slot]" by (simp add: stale_proposer_def)
  have "voters stale_proposer \<subseteq> {1, 2}"
    by (auto simp: voters_def vote_slots_def member_slots_def stale_proposer_def no_generations_def numeral_3_eq_3 elected_slot_def stale_slot_def
        INVALID_GENERATION_def split: if_splits)
  then have "\<forall>i \<in> voters stale_proposer. vote_rank (sk_at stale_proposer i) = (0, 0)"
    unfolding s by (auto simp: vote_rank_def empty_slot_def sample_slot_def GetHighestTerm_def)
  from stale_donor_crash [OF w' this, of 0 sample_wp_config] show ?thesis
    using w' by (simp add: s stale_slot_def sample_slot_def sample_wp_config_def) (simp add: stale_proposer_def)
qed

text \<open>C32: There is a run of a proposer with one connection in which its endpoint introduces itself
  as the first of three distinct members; the connection is reset; the endpoint introduces itself as
  the second member and grants its vote. The run is elected, though the quorum of three members is
  two and that vote is the only one delivered: the first member still has the connection too, so it
  is counted for both.\<close>

theorem endpoint_reuse_counts_twice:
  "\<exists>A w0 evs1 b1 evs2 wr evs3 b2 evs4 v alive w.
     WalProposerCreate A 0 0 None = Inr w0 \<and> length (wp_safekeeper w0) = 1 \<and>
     introduces A 1 [1, 2, 3] b1 \<and> wp_run A w0 (evs1 @ Deliver 0 b1 # evs2) True wr \<and>
     cs_state (sk_at wr 0) = SS_CONNECTING_WRITE \<and> take 3 (wp_members_safekeepers wr) = [Some 0, None, None] \<and>
     introduces A 2 [1, 2, 3] b2 \<and> wp_run A w0 (evs1 @ Deliver 0 b1 # evs2 @ evs3 @ Deliver 0 b2 # evs4) alive w \<and>
     wp_state w = WPS_ELECTED \<and> ids (cm_members (wp_mconf w)) = [1, 2, 3] \<and> MsetQuorum 3 = 2 \<and>
     {(i, b). Deliver i b \<in> set (evs1 @ Deliver 0 b1 # evs2 @ evs3 @ Deliver 0 b2 # evs4) \<and> grants A (wp_propTerm w) b} = {(0, v)} \<and>
     take 3 (wp_members_safekeepers w) = [Some 0, Some 0, None]"
proof -
  obtain alive w where w: "wp_run sample_conf sample_start (reuse_before @ reuse_after) alive w"
      "ptrs_are reuse_cmconf (reuse_ptrs [Some 0, Some 0, None]) w" using reuse_run by blast
  let ?e1 = "[Start, Poll 0 ev_wr, Poll 0 ev_rd]" let ?e2 = "[Poll 0 ev_rd, Poll 0 ev_rd]"
  let ?e3 = "[Poll 0 ev_wr, Poll 0 ev_rd]" let ?e4 = "[Poll 0 ev_rd, Deliver 0 (vote_bytes 3), Poll 0 ev_rd]"
  have e: "?e1 @ Deliver 0 (reuse_bytes 1) # ?e2 = reuse_before"
      "?e1 @ Deliver 0 (reuse_bytes 1) # ?e2 @ ?e3 @ Deliver 0 (reuse_bytes 2) # ?e4 = reuse_before @ reuse_after"
    by (simp_all add: reuse_before_def reuse_after_def)
  have f: "wp_state w = WPS_ELECTED" "wp_propTerm w = 4" "ids (cm_members (wp_mconf w)) = [1, 2, 3]"
      "take 3 (wp_members_safekeepers w) = [Some 0, Some 0, None]"
    using w(2) by (simp_all add: ptrs_are_def core_is_def reuse_member_def reuse_ptrs_def)
  show ?thesis
    by (rule exI [of _ sample_conf], rule exI [of _ sample_start], rule exI [of _ ?e1], rule exI [of _ "reuse_bytes 1"], rule exI [of _ ?e2],
        rule exI, rule exI [of _ ?e3], rule exI [of _ "reuse_bytes 2"], rule exI [of _ ?e4], rule exI [of _ "vote_bytes 3"], rule exI, rule exI,
        unfold e, intro conjI, rule sample_created, simp add: sample_start_def, rule reuse_introduces, rule reuse_reset)
      (use w(1) f reuse_grants reuse_introduces in \<open>simp_all add: reuse_slot_def reuse_greeted_def reuse_ptrs_def MsetQuorum_def\<close>)
qed

end
