(* ===== verification/Spec2Isabelle.thy ===== *)
theory Spec2Isabelle
  imports Wal_Generator Wal_Reader Proposer_Errors
begin

text \<open>
  The consensus and storage core of a Neon-style WAL service: the safekeepers, which accept and
  store the write-ahead log of a Postgres compute, and the WAL proposer inside the compute,
  which gets itself elected by them and streams the log. The library models the Rust code of
  the safekeeper and of the libraries it is built on, the C code of the proposer, and the wire
  format between the two, and proves properties of each part and of their composition.

  \<^bold>\<open>How code is modelled.\<close> A struct is a record and an enum a datatype with the source's names; machine
  integers are words of their width, so additions wrap exactly where the code's do, and checked
  operations return options or panic values. Fallible and stateful code is a program over an
  explicit state (\<open>Prelude\<close>: a result that is a value or an error, and the state, which keeps the
  mutations made before a failing \<open>?\<close>); reasoning uses weakest preconditions and kept properties.
  A panic, a failed assertion and a FATAL or PANIC log entry are error values. File system calls and
  the callbacks of the proposer answer from a script of outcomes that theorems quantify over, so
  every call may fail at every point; a crash leaves any directory the sync discipline permits.
  Code outside the repository (serde and bincode, CRC-32C, the hex crate, remote objects) is a parameter,
  and what is relied on (an encoding decodes to what was encoded) is a named hypothesis.

  \<^bold>\<open>Theories, from the bottom.\<close>

  \<^item> \<open>Prelude\<close>: results, programs, \<open>wp\<close> and \<open>keeps\<close> with their rule collections, byte orders.
  \<^item> \<open>Lsn\<close> (libs/utils/src/lsn.rs): positions, their arithmetic, text form, the atomic variants.
  \<^item> \<open>Membership\<close>, \<open>Term_History\<close>, \<open>Pg_Version\<close>: member sets and configurations
    (libs/safekeeper_api/src/membership.rs), term histories and the search for the last common
    point (safekeeper/src/safekeeper.rs), versions (libs/postgres_versioninfo).
  \<^item> \<open>Fs\<close>, \<open>Timeline_State\<close>, \<open>Control_File\<close> (libs/utils/src/crashsafe.rs, safekeeper/src/state.rs,
    control_file.rs, control_file_upgrade.rs): a directory with unsynced changes, durable rename, the
    persistent state, its file format with upgrades, and transactional changes. Shown: replacing the
    file is atomic under failures and crashes, loading returns what was persisted; after a
    successful change memory and disk are both new, after a failed one memory is old and the disk
    old or new, so memory is never ahead of disk.
  \<^item> \<open>Wal_Format\<close>, \<open>Wal_Decoder\<close>, \<open>Wal_Generator\<close> (libs/postgres_ffi/src): page and record headers, segment
    names, the streaming decoder and the generator. Shown: decoding does not depend on how the
    stream is cut, and decoding generated WAL returns the records.
  \<^item> \<open>Wal_Storage\<close>, \<open>Wal_Storage_Inv\<close>, \<open>Wal_Data\<close>, \<open>Wal_Reader\<close> (safekeeper/src/wal_storage.rs): the storage of
    segments, its invariant, its refinement of a flat log, survival of flushed bytes while no file
    system call fails (with fsync on), what one failing open does to them, and the reader.
  \<^item> \<open>Messages\<close>, \<open>Buffers\<close>, \<open>Feedback\<close>, \<open>Wire\<close>: the messages, the byte readers of both languages, and the
    serializers and parsers of both sides in protocol versions 2 and 3 (safekeeper/src/safekeeper.rs,
    libs/utils/src/pageserver_feedback.rs, pgxn/neon/walproposer.c). Shown: each side reads
    what the other writes; the Rust parser returns well-formed messages only, and panics on a
    greeting with an unsupported Postgres version only.
  \<^item> \<open>Safekeeper\<close>, \<open>Shared_State\<close>, \<open>Node_Runs\<close> (safekeeper/src/safekeeper.rs, timeline.rs): every message
    handler over any control file and WAL storage that keep their contracts (locales, interpreted on
    the models above), a timeline on a node, and its runs. Shown: one vote per term, the
    commit position never passes the flushed one, nothing persisted goes back, through restarts.
  \<^item> \<open>Walproposer\<close>, \<open>Proposer\<close>, \<open>Proposer_Quorum\<close> (pgxn/neon/walproposer.c, walproposer.h): connections,
    greeting, votes, election, streaming, responses, the poll loop and creation; the quorum
    position, the highest vote, the start of streaming and the requests of one call. What most
    operations leave alone is the contract \<open>still_frame\<close> (they send nothing and start no stream); a
    property of the stronger contract \<open>quiet_frame\<close> meets it too (a sublocale) and is also kept by
    sending and receiving, one of \<open>active_frame\<close> by the start of a stream as well.
  \<^item> \<open>Election\<close>, \<open>Leader\<close>: runs of a proposer, the invariant that an elected one holds the votes of a
    majority, and the composition with runs of nodes: one leader per term. Both assume that a
    connection leads to one node and that greetings list no member twice (\<open>one_node_per_slot\<close>), and
    that membership generations are in use.
  \<^item> \<open>Streaming\<close>: the invariant of the messages sent over a run. Shown: on every connection the append
    requests follow the announced position one after the other.
  \<^item> \<open>Proposer_Errors\<close>: two ways in which the proposer fails, a donor that disconnected before the
    election was won, and an endpoint that comes back as another member and is counted for both
    (the case the assumption \<open>one_node_per_slot\<close> of the majority theorem excludes).

  \<^bold>\<open>Loops.\<close> No definition uses fuel. Loops over data recurse structurally; the decoder, the storage, the send
  loop and the receive loop are functions with measures: unread input, bytes still to write, WAL
  still to send, and messages still queued. The poll loop of the proposer, which does not end, runs over
  the list of waits that happened.

  \<^bold>\<open>Builds.\<close> The Rust code is modelled as a release build: \<open>debug_assert\<close> is off. The C code is modelled
  with assertions on: a failed \<open>Assert\<close> ends the process. In a production build of the proposer the
  asserted facts (a granted vote has the proposer's term, a request does not end before it begins) are
  not checked, and what rests on them holds for the assertion-enabled build only.

  \<^bold>\<open>Limits.\<close> Runs of nodes take the messages of \<open>msg_ok\<close> (a nonzero start of streaming, appends that end
  below \<open>2 ^ 64 - 8\<close>), with 16 MB segments. Lists in messages are read whatever length is announced,
  where \<open>palloc\<close> would refuse more than 1 GB. Identifiers on the wire are lower-case hex. The text form
  of positions is trimmed of ASCII white space only.

  \<^bold>\<open>Not modelled.\<close> Inside the modelled files: logging, metrics, tracing, serde glue and formatting of
  log text, since they do not influence the state. Of the proposer, the embedding
  (walproposer_pg.c, neon_walreader.c): libpq, latches and shared memory are Postgres runtime; its
  answers are arbitrary in the model. Of the safekeeper, the background tasks and services
  (backup to remote storage, eviction, removal, peer recovery, HTTP, replication to pageservers): they are
  asynchronous tasks over timers, networks and object stores that call the modelled operations. The
  pageserver, proxy, compute tools, storage controller, broker and scrubber, the Postgres
  extension besides the proposer, OrioleDB and Postgres itself are separate systems of which
  nothing is modelled but the WAL format.
\<close>

end
